(* ===== verification/Prelude.thy ===== *)
theory Prelude imports Main "HOL-Library.Word" begin

text \<open>
  Shared ground of the development: error numbers and signal numbers as the C headers give them
  on Linux, C strings as character lists, the two string scanners the sources use
  (\<open>strnlen\<close>, \<open>strspn\<close>), character classes of \<open>common.h\<close>, the store of allocations, and
  the generic lemmas on lists that the components share.
\<close>

section \<open>Lemma collections\<close>

named_theorems frame_simps \<open>what an operation leaves untouched\<close>
named_theorems inv_intros \<open>one preservation rule per operation and invariant\<close>
named_theorems cstr_simps \<open>C string scanners\<close>

section \<open>Error and signal numbers\<close>

abbreviation (input) EPERM :: int where "EPERM \<equiv> 1"
abbreviation (input) ENOENT :: int where "ENOENT \<equiv> 2"
abbreviation (input) ESRCH :: int where "ESRCH \<equiv> 3"
abbreviation (input) EINTR :: int where "EINTR \<equiv> 4"
abbreviation (input) EBADF :: int where "EBADF \<equiv> 9"
abbreviation (input) ECHILD :: int where "ECHILD \<equiv> 10"
abbreviation (input) EAGAIN :: int where "EAGAIN \<equiv> 11"
abbreviation (input) ENOMEM :: int where "ENOMEM \<equiv> 12"
abbreviation (input) EACCES :: int where "EACCES \<equiv> 13"
abbreviation (input) EBUSY :: int where "EBUSY \<equiv> 16"
abbreviation (input) EINVAL :: int where "EINVAL \<equiv> 22"
abbreviation (input) ENOTTY :: int where "ENOTTY \<equiv> 25"
abbreviation (input) ENOSPC :: int where "ENOSPC \<equiv> 28"
abbreviation (input) ERANGE :: int where "ERANGE \<equiv> 34"
abbreviation (input) ENAMETOOLONG :: int where "ENAMETOOLONG \<equiv> 36"
abbreviation (input) ENODATA :: int where "ENODATA \<equiv> 61"
abbreviation (input) EPROTO :: int where "EPROTO \<equiv> 71"
abbreviation (input) EBADMSG :: int where "EBADMSG \<equiv> 74"
abbreviation (input) EMSGSIZE :: int where "EMSGSIZE \<equiv> 90"
abbreviation (input) EADDRNOTAVAIL :: int where "EADDRNOTAVAIL \<equiv> 99"
abbreviation (input) ESHUTDOWN :: int where "ESHUTDOWN \<equiv> 108"
abbreviation (input) ECONNREFUSED :: int where "ECONNREFUSED \<equiv> 111"

abbreviation (input) SIGKILL :: int where "SIGKILL \<equiv> 9"
abbreviation (input) SIGUSR1 :: int where "SIGUSR1 \<equiv> 10"
abbreviation (input) SIGUSR2 :: int where "SIGUSR2 \<equiv> 12"
abbreviation (input) SIGTERM :: int where "SIGTERM \<equiv> 15"
abbreviation (input) SIGCHLD :: int where "SIGCHLD \<equiv> 17"
abbreviation (input) SIGPWR :: int where "SIGPWR \<equiv> 30"
abbreviation (input) SIGSYS :: int where "SIGSYS \<equiv> 31"
abbreviation (input) SIGRTMIN :: int where "SIGRTMIN \<equiv> 34"
abbreviation (input) SIGRTMAX :: int where "SIGRTMAX \<equiv> 64"

section \<open>C strings\<close>

text \<open>
  A C string is the list of its bytes up to, not including, the terminating NUL. A buffer is the
  list of all its bytes. \<open>cstr\<close> reads the string that starts a buffer.
\<close>

abbreviation (input) NUL :: char where "NUL \<equiv> CHR 0x00"

definition cstr :: "char list \<Rightarrow> string" where
  "cstr s = takeWhile (\<lambda>c. c \<noteq> NUL) s"

definition strnlen :: "char list \<Rightarrow> nat \<Rightarrow> nat" where
  "strnlen s n = length (cstr (take n s))"

definition strspn :: "char list \<Rightarrow> string \<Rightarrow> nat" where
  "strspn s accept = length (takeWhile (\<lambda>c. c \<in> set accept) (cstr s))"

text \<open>\<open>strncmp(a, b, n) == 0\<close>: the first \<open>n\<close> bytes agree, terminators included.\<close>

definition strn_eq :: "nat \<Rightarrow> string \<Rightarrow> string \<Rightarrow> bool" where
  "strn_eq n a b \<longleftrightarrow> take n (cstr a @ [NUL]) = take n (cstr b @ [NUL])"

definition is_cstr :: "char list \<Rightarrow> bool" where
  "is_cstr s \<longleftrightarrow> NUL \<notin> set s"

lemma cstr_id [cstr_simps]: "is_cstr s \<Longrightarrow> cstr s = s"
  by (auto simp: is_cstr_def cstr_def takeWhile_eq_all_conv)

lemma is_cstr_cstr [simp]: "is_cstr (cstr s)"
  by (auto simp: is_cstr_def cstr_def dest: set_takeWhileD)

lemma is_cstr_Nil [simp]: "is_cstr []"
  by (simp add: is_cstr_def)

lemma is_cstr_take: "is_cstr s \<Longrightarrow> is_cstr (take n s)"
  by (auto simp: is_cstr_def dest: in_set_takeD)

lemma strnlen_le: "strnlen s n \<le> n"
  unfolding strnlen_def cstr_def
  by (rule order_trans [OF length_takeWhile_le]) simp

lemma strnlen_le_length: "strnlen s n \<le> length s"
  unfolding strnlen_def cstr_def
  by (rule order_trans [OF length_takeWhile_le]) simp

lemma strnlen_cstr [cstr_simps]: "is_cstr s \<Longrightarrow> strnlen s n = min (length s) n"
  by (simp add: strnlen_def cstr_id is_cstr_take min.commute)

lemma cstr_append_NUL [cstr_simps]: "is_cstr s \<Longrightarrow> cstr (s @ NUL # r) = s"
  by (auto simp: is_cstr_def cstr_def takeWhile_append takeWhile_eq_all_conv)

lemma strspn_le: "strspn s a \<le> length s"
  unfolding strspn_def cstr_def
  by (meson length_takeWhile_le order_trans)

lemma takeWhile_length_all:
  "length (takeWhile P xs) = length xs \<longleftrightarrow> (\<forall>x\<in>set xs. P x)"
  by (metis takeWhile_eq_all_conv takeWhile_eq_take take_all_iff le_refl)

lemma strspn_full:
  "is_cstr s \<Longrightarrow> strspn s a = length s \<longleftrightarrow> set s \<subseteq> set a"
  by (auto simp: strspn_def cstr_id takeWhile_length_all)

lemma strn_eq_cstr:
  assumes "is_cstr a" "is_cstr b" "length a < n" "length b < n"
  shows "strn_eq n a b \<longleftrightarrow> a = b"
  using assms by (auto simp: strn_eq_def cstr_id)

lemma strn_eq_refl [simp]: "strn_eq n a a"
  by (simp add: strn_eq_def)

section \<open>Character classes of common.h\<close>

definition LOWER_CHARSET :: string where
  "LOWER_CHARSET = ''abcdefghijklmnopqrstuvwxyz''"
definition UPPER_CHARSET :: string where
  "UPPER_CHARSET = ''ABCDEFGHIJKLMNOPQRSTUVWXYZ''"
definition ALPHA_CHARSET :: string where
  "ALPHA_CHARSET = LOWER_CHARSET @ UPPER_CHARSET"
definition DIGIT_CHARSET :: string where
  "DIGIT_CHARSET = ''0123456789''"
definition ALNUM_CHARSET :: string where
  "ALNUM_CHARSET = ALPHA_CHARSET @ DIGIT_CHARSET"
definition GRAPH_CHARSET :: string where
  "GRAPH_CHARSET =
     ''!'' @ [CHR 0x22] @ ''#$%&'' @ [CHR 0x27] @ ''()*+,-./'' @ DIGIT_CHARSET @
     '':;<=>?@'' @ UPPER_CHARSET @ [CHR 0x5B, CHR 0x5C, CHR 0x5D, CHR 0x5E, CHR 0x5F, CHR 0x60] @
     LOWER_CHARSET @ ''{|}~''"
definition SPACE_CHARSET :: string where
  "SPACE_CHARSET = [CHR 0x20, CHR 0x0C, CHR 0x0A, CHR 0x0D, CHR 0x09, CHR 0x0B]"
definition PRINT_CHARSET :: string where
  "PRINT_CHARSET = GRAPH_CHARSET @ SPACE_CHARSET"

lemmas charset_defs =
  LOWER_CHARSET_def UPPER_CHARSET_def ALPHA_CHARSET_def DIGIT_CHARSET_def ALNUM_CHARSET_def
  GRAPH_CHARSET_def SPACE_CHARSET_def PRINT_CHARSET_def

text \<open>\<open>isalnum\<close> and \<open>isdigit\<close> in the C locale, which init never changes.\<close>

definition isdigit :: "char \<Rightarrow> bool" where
  "isdigit c \<longleftrightarrow> c \<in> set DIGIT_CHARSET"
definition isalnum :: "char \<Rightarrow> bool" where
  "isalnum c \<longleftrightarrow> c \<in> set ALNUM_CHARSET"

section \<open>Allocations\<close>

text \<open>
  \<open>malloc\<close> and its kin either fail with \<open>ENOMEM\<close> or hand out a block. The store keeps which of
  the next allocations fail (\<open>oom\<close>, exhausted meaning that they succeed), how many blocks are
  live, and whether a block was freed twice or used after it was freed.
\<close>

record mem =
  oom :: "bool list"
  live :: int
  bad_free :: bool

definition mem_alloc :: "mem \<Rightarrow> bool \<times> mem" where
  "mem_alloc m = (case oom m of
      [] \<Rightarrow> (True, m\<lparr>live := live m + 1\<rparr>)
    | True # r \<Rightarrow> (False, m\<lparr>oom := r\<rparr>)
    | False # r \<Rightarrow> (True, m\<lparr>oom := r, live := live m + 1\<rparr>))"

definition mem_free :: "nat \<Rightarrow> mem \<Rightarrow> mem" where
  "mem_free n m = m\<lparr>live := live m - int n\<rparr>"

definition mem_fault :: "mem \<Rightarrow> mem" where
  "mem_fault m = m\<lparr>bad_free := True\<rparr>"

lemma mem_alloc_True:
  "mem_alloc m = (True, m') \<Longrightarrow> live m' = live m + 1 \<and> bad_free m' = bad_free m"
  by (auto simp: mem_alloc_def split: list.splits bool.splits)

lemma mem_alloc_False:
  "mem_alloc m = (False, m') \<Longrightarrow> live m' = live m \<and> bad_free m' = bad_free m"
  by (auto simp: mem_alloc_def split: list.splits bool.splits)

lemma mem_free_sel [simp]:
  "live (mem_free n m) = live m - int n"
  "bad_free (mem_free n m) = bad_free m"
  "oom (mem_free n m) = oom m"
  by (simp_all add: mem_free_def)

lemma mem_fault_sel [simp]:
  "live (mem_fault m) = live m" "bad_free (mem_fault m)" "oom (mem_fault m) = oom m"
  by (simp_all add: mem_fault_def)

section \<open>Lists\<close>

lemma length_filter_update_le:
  assumes "P y \<Longrightarrow> i < length xs \<Longrightarrow> P (xs ! i)"
  shows "length (filter P (xs[i := y])) \<le> length (filter P xs)"
  using assms
proof (induction xs arbitrary: i)
  case Nil
  then show ?case by simp
next
  case (Cons x xs)
  then show ?case by (cases i) auto
qed

lemma length_filter_update_less:
  assumes "i < length xs" "P (xs ! i)" "\<not> P y"
  shows "length (filter P (xs[i := y])) < length (filter P xs)"
  using assms
proof (induction xs arbitrary: i)
  case Nil
  then show ?case by simp
next
  case (Cons x xs)
  show ?case
  proof (cases i)
    case 0
    with Cons.prems show ?thesis by auto
  next
    case (Suc j)
    with Cons show ?thesis by auto
  qed
qed

lemma length_filter_update_eq:
  assumes "i < length xs \<Longrightarrow> P y = P (xs ! i)"
  shows "length (filter P (xs[i := y])) = length (filter P xs)"
  using assms
proof (induction xs arbitrary: i)
  case Nil
  then show ?case by simp
next
  case (Cons x xs)
  then show ?case by (cases i) auto
qed

end
