(* ===== verification/Strarr.thy ===== *)
theory Strarr imports Prelude begin

text \<open>
  Fixed size arrays of allocated strings (\<open>strarr.c\<close>, \<open>strarr.h\<close>). An array owns one block for
  itself and one per string; a slot holds \<open>None\<close> while its pointer is NULL. The allocator is the
  store \<open>mem\<close> of the prelude, so that the lemmas count what is allocated and released.
\<close>

record strarr =
  sa_nr :: nat
  sa_strings :: "string option list"

definition strarr_nr :: "strarr \<Rightarrow> nat" where
  "strarr_nr a = sa_nr a"

definition strarr_get :: "strarr \<Rightarrow> nat \<Rightarrow> string option" where
  "strarr_get a i = (if i < strarr_nr a then sa_strings a ! i else None)"

definition strarr_put :: "strarr \<Rightarrow> nat \<Rightarrow> string option \<Rightarrow> strarr" where
  "strarr_put a i s = a\<lparr>sa_strings := (sa_strings a)[i := s]\<rparr>"

definition strarr_get_members :: "strarr \<Rightarrow> string option list" where
  "strarr_get_members a = sa_strings a"

definition strrep :: "string \<Rightarrow> nat \<Rightarrow> mem \<Rightarrow> string option \<times> mem" where
  "strrep orig len m = (case mem_alloc m of
      (False, m') \<Rightarrow> (None, m')
    | (True, m') \<Rightarrow> (Some (cstr (take len orig)), m'))"

definition strarr_rep :: "strarr \<Rightarrow> nat \<Rightarrow> string \<Rightarrow> nat \<Rightarrow> mem \<Rightarrow> int \<times> strarr \<times> mem" where
  "strarr_rep a i orig len m = (case strrep orig len m of
      (None, m') \<Rightarrow> (- ENOMEM, a, m')
    | (Some s, m') \<Rightarrow> (0, strarr_put a i (Some s), m'))"

definition strarr_create :: "nat \<Rightarrow> mem \<Rightarrow> strarr option \<times> mem" where
  "strarr_create nr m = (case mem_alloc m of
      (False, m') \<Rightarrow> (None, m')
    | (True, m') \<Rightarrow> (Some \<lparr>sa_nr = nr, sa_strings = replicate nr None\<rparr>, m'))"

text \<open>The strings \<open>strarr_destroy\<close> frees: it stops at the first NULL slot.\<close>

definition strarr_owned :: "strarr \<Rightarrow> string option list" where
  "strarr_owned a = takeWhile (\<lambda>s. s \<noteq> None) (take (sa_nr a) (sa_strings a))"

definition strarr_destroy :: "strarr \<Rightarrow> mem \<Rightarrow> mem" where
  "strarr_destroy a m = mem_free (length (strarr_owned a) + 1) m"

section \<open>Well-formed arrays\<close>

text \<open>
  \<open>strarr_filled n a\<close>: the loaders' arrays, filled from the front, \<open>n\<close> strings so far. Only such
  arrays are released completely by \<open>strarr_destroy\<close>.
\<close>

definition strarr_filled :: "nat \<Rightarrow> strarr \<Rightarrow> bool" where
  "strarr_filled n a \<longleftrightarrow>
     length (sa_strings a) = sa_nr a \<and> n \<le> sa_nr a \<and>
     (\<forall>i<n. sa_strings a ! i \<noteq> None) \<and> (\<forall>i. n \<le> i \<longrightarrow> i < sa_nr a \<longrightarrow> sa_strings a ! i = None)"

lemma strarr_filled_create: "strarr_create nr m = (Some a, m') \<Longrightarrow> strarr_filled 0 a \<and> sa_nr a = nr"
  by (auto simp: strarr_create_def strarr_filled_def split: prod.splits bool.splits)

lemma strarr_filled_put:
  "strarr_filled n a \<Longrightarrow> n < sa_nr a \<Longrightarrow> strarr_filled (Suc n) (strarr_put a n (Some s))"
  by (auto simp: strarr_filled_def strarr_put_def nth_list_update less_Suc_eq)

lemma sa_nr_put [simp]: "sa_nr (strarr_put a i s) = sa_nr a"
  by (simp add: strarr_put_def)

lemma strarr_owned_filled: "strarr_filled n a \<Longrightarrow> length (strarr_owned a) = n"
proof -
  assume f: "strarr_filled n a"
  then have split: "sa_strings a = take n (sa_strings a) @ drop n (sa_strings a)"
    and len: "length (sa_strings a) = sa_nr a" and n: "n \<le> sa_nr a"
    by (auto simp: strarr_filled_def)
  have all: "\<forall>s\<in>set (take n (sa_strings a)). s \<noteq> None"
    using f by (force simp: strarr_filled_def in_set_conv_nth)
  have stop: "takeWhile (\<lambda>s. s \<noteq> None) (drop n (sa_strings a)) = []"
  proof (cases "n < sa_nr a")
    case True
    then have "drop n (sa_strings a) = None # drop (Suc n) (sa_strings a)"
      using f by (simp add: strarr_filled_def Cons_nth_drop_Suc [symmetric])
    then show ?thesis by simp
  next
    case False
    then show ?thesis using len by simp
  qed
  have "takeWhile (\<lambda>s. s \<noteq> None) (sa_strings a) = take n (sa_strings a)"
    using stop by (subst split) (simp only: takeWhile_append2 [OF bspec [OF all]] append_Nil2)
  then show ?thesis
    using len n by (simp add: strarr_owned_def)
qed

lemma strarr_destroy_live:
  "strarr_filled n a \<Longrightarrow> live (strarr_destroy a m) = live m - int n - 1"
  by (simp add: strarr_destroy_def strarr_owned_filled)

lemma strarr_destroy_bad_free [simp]: "bad_free (strarr_destroy a m) = bad_free m"
  by (simp add: strarr_destroy_def)

lemma strrep_Some:
  "strrep s (length s) m = (Some r, m') \<Longrightarrow> is_cstr s \<Longrightarrow>
     r = s \<and> live m' = live m + 1 \<and> bad_free m' = bad_free m"
  by (auto simp: strrep_def cstr_id split: prod.splits bool.splits dest: mem_alloc_True)

lemma strrep_None: "strrep s n m = (None, m') \<Longrightarrow> live m' = live m \<and> bad_free m' = bad_free m"
  by (auto simp: strrep_def split: prod.splits bool.splits dest: mem_alloc_False)

end
