(* ===== verification/Conf_Types.thy ===== *)
theory Conf_Types imports Strarr begin

text \<open>
  The service configuration of \<open>conf.h\<close>: \<open>struct conf_seq\<close>, \<open>struct conf_svc\<close> and their
  accessors. NULL pointers are \<open>None\<close>; the command table of a sequence is a pointer that may
  dangle after \<open>conf_seq_release\<close>, so its type says so.
\<close>

datatype 'a ptr = Null | Ptr 'a | Dangling

record conf_seq =
  seq_nr :: nat
  seq_cmds :: "strarr option list ptr"

definition conf_seq_nr :: "conf_seq \<Rightarrow> nat" where
  "conf_seq_nr s = seq_nr s"

definition conf_seq_get_cmd :: "conf_seq \<Rightarrow> nat \<Rightarrow> strarr option" where
  "conf_seq_get_cmd s c = (case seq_cmds s of
      Ptr cmds \<Rightarrow> (if c < length cmds then cmds ! c else None)
    | _ \<Rightarrow> None)"

definition conf_seq_get_args :: "conf_seq \<Rightarrow> nat \<Rightarrow> string option list" where
  "conf_seq_get_args s c = (case conf_seq_get_cmd s c of
      Some a \<Rightarrow> strarr_get_members a
    | None \<Rightarrow> [])"

record conf_svc =
  c_stdin :: "string option"
  c_stdout :: "string option"
  c_env :: "strarr option"
  c_start :: conf_seq
  c_daemon :: "strarr option"
  c_stop :: conf_seq
  c_stop_sig :: int
  c_reload_sig :: int
  c_name :: "string option"
  c_path :: "string option"
  c_desc :: "string option"
  c_starton :: "strarr option"
  c_stopon :: "strarr option"

definition conf_get_name :: "conf_svc \<Rightarrow> string option" where
  "conf_get_name c = c_name c"

definition conf_get_path :: "conf_svc \<Rightarrow> string option" where
  "conf_get_path c = c_path c"

definition conf_get_starton :: "conf_svc \<Rightarrow> strarr option" where
  "conf_get_starton c = c_starton c"

definition conf_get_stopon :: "conf_svc \<Rightarrow> strarr option" where
  "conf_get_stopon c = c_stopon c"

definition conf_get_env :: "conf_svc \<Rightarrow> string option list option" where
  "conf_get_env c = map_option strarr_get_members (c_env c)"

definition conf_get_start_cmd_nr :: "conf_svc \<Rightarrow> nat" where
  "conf_get_start_cmd_nr c = conf_seq_nr (c_start c)"

definition conf_get_start_cmd :: "conf_svc \<Rightarrow> nat \<Rightarrow> string option list" where
  "conf_get_start_cmd c i = conf_seq_get_args (c_start c) i"

definition conf_get_daemon :: "conf_svc \<Rightarrow> string option list option" where
  "conf_get_daemon c = map_option strarr_get_members (c_daemon c)"

definition conf_get_daemon_bin :: "conf_svc \<Rightarrow> string option" where
  "conf_get_daemon_bin c = (case conf_get_daemon c of
      Some (a # _) \<Rightarrow> a
    | _ \<Rightarrow> None)"

definition conf_get_stop_cmd_nr :: "conf_svc \<Rightarrow> nat" where
  "conf_get_stop_cmd_nr c = conf_seq_nr (c_stop c)"

definition conf_get_stop_cmd :: "conf_svc \<Rightarrow> nat \<Rightarrow> string option list" where
  "conf_get_stop_cmd c i = conf_seq_get_args (c_stop c) i"

definition conf_get_stop_sig :: "conf_svc \<Rightarrow> int" where
  "conf_get_stop_sig c = c_stop_sig c"

definition conf_get_reload_sig :: "conf_svc \<Rightarrow> int" where
  "conf_get_reload_sig c = c_reload_sig c"

text \<open>What \<open>calloc\<close> hands to the loader: no pointer set, every number zero.\<close>

definition empty_seq :: conf_seq where
  "empty_seq = \<lparr>seq_nr = 0, seq_cmds = Null\<rparr>"

definition empty_conf :: conf_svc where
  "empty_conf = \<lparr>c_stdin = None, c_stdout = None, c_env = None, c_start = empty_seq,
     c_daemon = None, c_stop = empty_seq, c_stop_sig = 0, c_reload_sig = 0, c_name = None,
     c_path = None, c_desc = None, c_starton = None, c_stopon = None\<rparr>"

end
