(* ===== verification/Svc_Types.thy ===== *)
theory Svc_Types imports Conf_Types begin

text \<open>
  The state the daemon keeps: notification links (\<open>notif.h\<close>), service descriptors (\<open>svc.h\<close>),
  and the world the handlers act on. A service pointer is its position in creation order, which
  is also the order of the repository list (\<open>stroll_dlist_append\<close> in \<open>tinit_repo_load_svc\<close>).

  Everything outside the repository's sources is an argument: the kernel and the timer library
  of the utils package are the operations of \<open>'k ext\<close> over a state \<open>'k\<close> of their own. Nothing is
  assumed of them here; a theorem that needs a documented law names it.
\<close>

type_synonym svc_id = nat

datatype svc_state =
  TINIT_SVC_STOPPED_STAT | TINIT_SVC_STARTING_STAT | TINIT_SVC_READY_STAT | TINIT_SVC_STOPPING_STAT

datatype svc_evt = SVC_START_EVT | SVC_STOP_EVT | SVC_EXIT_EVT

text \<open>The two handler pairs \<open>handle_evts\<close> / \<open>handle_notif\<close> and the two timer callbacks.\<close>

datatype handler = Handle_on | Handle_off
datatype expire_cb = Svc_expire_on | Svc_expire_off

section \<open>Notification links\<close>

record notif =
  n_src :: "svc_id option"
  n_sink :: svc_id

record notif_poll =
  p_cnt :: nat
  p_nr :: nat
  p_members :: "notif list"

text \<open>The two dependency relations share their code: which poll and which observer list.\<close>

datatype dep = Starton | Stopon

text \<open>
  An element of an observer list is the address of a \<open>struct notif\<close>, which lives in its sink's
  poll: the sink and the member's index.
\<close>

type_synonym notif_ref = "svc_id \<times> nat"

section \<open>Services\<close>

record svc =
  s_handle_evts :: handler
  s_child :: int
  s_state :: svc_state
  s_handle_notif :: handler
  s_start_cmd :: nat
  s_starton_obsrv :: "notif_ref list"
  s_starton_notif :: "notif_poll option"
  s_stop_cmd :: int
  s_stopon_obsrv :: "notif_ref list"
  s_stopon_notif :: "notif_poll option"
  s_conf :: conf_svc

definition svc_obsrv :: "dep \<Rightarrow> svc \<Rightarrow> notif_ref list" where
  "svc_obsrv d s = (case d of Starton \<Rightarrow> s_starton_obsrv s | Stopon \<Rightarrow> s_stopon_obsrv s)"

definition svc_poll :: "dep \<Rightarrow> svc \<Rightarrow> notif_poll option" where
  "svc_poll d s = (case d of Starton \<Rightarrow> s_starton_notif s | Stopon \<Rightarrow> s_stopon_notif s)"

section \<open>External operations\<close>

text \<open>What the child of a \<open>vfork\<close> runs: \<open>svc_exec\<close> on the service's configuration and \<open>args\<close>.\<close>

record job =
  job_conf :: conf_svc
  job_args :: "string option list"

record 'k ext =
  x_vfork :: "job \<Rightarrow> 'k \<Rightarrow> (int + int) \<times> 'k"  \<comment> \<open>\<open>Inl errno\<close> or \<open>Inr pid\<close>\<close>
  x_kill :: "int \<Rightarrow> int \<Rightarrow> 'k \<Rightarrow> bool \<times> 'k"     \<comment> \<open>true when \<open>kill(2)\<close> failed\<close>
  x_timer_init :: "svc_id \<Rightarrow> 'k \<Rightarrow> 'k"
  x_timer_setup :: "svc_id \<Rightarrow> expire_cb \<Rightarrow> 'k \<Rightarrow> 'k"
  x_timer_arm_sec :: "svc_id \<Rightarrow> nat \<Rightarrow> 'k \<Rightarrow> 'k"
  x_timer_is_armed :: "svc_id \<Rightarrow> 'k \<Rightarrow> bool"

text \<open>\<open>vfork(2)\<close> returns a positive process id to the parent or fails with a positive errno.\<close>

definition vfork_ok :: "'k ext \<Rightarrow> bool" where
  "vfork_ok E \<longleftrightarrow> (\<forall>j k. case fst (x_vfork E j k) of Inl err \<Rightarrow> 0 < err | Inr pid \<Rightarrow> 0 < pid)"

text \<open>\<open>utimer_arm_sec\<close> leaves the timer armed, and no other timer is concerned.\<close>

definition timer_arm_ok :: "'k ext \<Rightarrow> bool" where
  "timer_arm_ok E \<longleftrightarrow> (\<forall>i n k. x_timer_is_armed E i (x_timer_arm_sec E i n k))"

section \<open>The world\<close>

text \<open>
  The messages \<open>svc.c\<close> logs, newest first in the world: they are its observable behaviour and
  record the order of spawns and state changes.
\<close>

datatype log_msg =
    Log_starting svc_id | Log_ready svc_id | Log_stopping svc_id | Log_stopped svc_id
  | Log_reloading svc_id
  | Log_spawned svc_id "string option list" int
  | Log_cannot_spawn svc_id "string option list" int

record 'k world =
  w_svcs :: "svc list"
  w_kern :: 'k
  w_log :: "log_msg list"
  w_fault :: bool

text \<open>
  An assertion that fails ends the program: the model raises \<open>w_fault\<close> and does nothing more in
  the operation at hand. So does reading through an invalid service pointer. The theorems that
  the flag stays down show that the build without assertions behaves the same.
\<close>

definition fault :: "'k world \<Rightarrow> 'k world" where
  "fault w = w\<lparr>w_fault := True\<rparr>"

definition is_svc :: "'k world \<Rightarrow> svc_id \<Rightarrow> bool" where
  "is_svc w i \<longleftrightarrow> i < length (w_svcs w)"

definition svc_at :: "'k world \<Rightarrow> svc_id \<Rightarrow> svc" where
  "svc_at w i = w_svcs w ! i"

definition upd_svc :: "svc_id \<Rightarrow> (svc \<Rightarrow> svc) \<Rightarrow> 'k world \<Rightarrow> 'k world" where
  "upd_svc i f w = w\<lparr>w_svcs := (w_svcs w)[i := f (w_svcs w ! i)]\<rparr>"

definition upd_kern :: "('k \<Rightarrow> 'k) \<Rightarrow> 'k world \<Rightarrow> 'k world" where
  "upd_kern f w = w\<lparr>w_kern := f (w_kern w)\<rparr>"

definition tinit_log :: "log_msg \<Rightarrow> 'k world \<Rightarrow> 'k world" where
  "tinit_log m w = w\<lparr>w_log := m # w_log w\<rparr>"

lemma fault_sel [simp]:
  "w_svcs (fault w) = w_svcs w" "w_kern (fault w) = w_kern w" "w_log (fault w) = w_log w"
  "w_fault (fault w)"
  by (simp_all add: fault_def)

lemma upd_kern_sel [simp]:
  "w_svcs (upd_kern f w) = w_svcs w" "w_kern (upd_kern f w) = f (w_kern w)"
  "w_log (upd_kern f w) = w_log w" "w_fault (upd_kern f w) = w_fault w"
  by (simp_all add: upd_kern_def)

lemma tinit_log_sel [simp]:
  "w_svcs (tinit_log m w) = w_svcs w" "w_kern (tinit_log m w) = w_kern w"
  "w_log (tinit_log m w) = m # w_log w" "w_fault (tinit_log m w) = w_fault w"
  by (simp_all add: tinit_log_def)

lemma upd_svc_sel [simp]:
  "w_kern (upd_svc i f w) = w_kern w" "w_log (upd_svc i f w) = w_log w"
  "w_fault (upd_svc i f w) = w_fault w" "length (w_svcs (upd_svc i f w)) = length (w_svcs w)"
  by (simp_all add: upd_svc_def)

lemma is_svc_simps [simp]:
  "is_svc (fault w) i = is_svc w i" "is_svc (upd_kern g w) i = is_svc w i"
  "is_svc (tinit_log m w) i = is_svc w i" "is_svc (upd_svc j f w) i = is_svc w i"
  by (simp_all add: is_svc_def)

lemma svc_at_simps [simp]:
  "svc_at (fault w) i = svc_at w i" "svc_at (upd_kern g w) i = svc_at w i"
  "svc_at (tinit_log m w) i = svc_at w i"
  by (simp_all add: svc_at_def)

lemma svc_at_upd:
  "svc_at (upd_svc i f w) j = (if i = j \<and> is_svc w i then f (svc_at w i) else svc_at w j)"
  by (cases "i < length (w_svcs w)")
    (auto simp: svc_at_def upd_svc_def is_svc_def nth_list_update list_update_beyond)

lemma svc_at_upd_same [simp]: "is_svc w i \<Longrightarrow> svc_at (upd_svc i f w) i = f (svc_at w i)"
  by (simp add: svc_at_upd)

lemma svc_at_upd_other [simp]: "i \<noteq> j \<Longrightarrow> svc_at (upd_svc i f w) j = svc_at w j"
  by (simp add: svc_at_upd)

lemma upd_svc_twice: "upd_svc i f (upd_svc i g w) = upd_svc i (\<lambda>s. f (g s)) w"
  by (cases "i < length (w_svcs w)") (simp_all add: upd_svc_def list_update_beyond)

section \<open>Reading the links\<close>

text \<open>The sources a poll holds, as \<open>notif_foreach_sink_poll_src\<close> visits them.\<close>

definition poll_srcs :: "notif_poll option \<Rightarrow> svc_id option list" where
  "poll_srcs p = (case p of None \<Rightarrow> [] | Some q \<Rightarrow> map n_src (take (p_cnt q) (p_members q)))"

definition notif_at :: "'k world \<Rightarrow> dep \<Rightarrow> notif_ref \<Rightarrow> notif option" where
  "notif_at w d r =
     (if is_svc w (fst r) then
        (case svc_poll d (svc_at w (fst r)) of
           Some q \<Rightarrow> if snd r < length (p_members q) then Some (p_members q ! snd r) else None
         | None \<Rightarrow> None)
      else None)"

definition notif_get_sink :: "notif_ref \<Rightarrow> svc_id" where
  "notif_get_sink r = fst r"

definition notif_get_src :: "'k world \<Rightarrow> dep \<Rightarrow> notif_ref \<Rightarrow> svc_id option" where
  "notif_get_src w d r = Option.bind (notif_at w d r) n_src"

end
