(* ===== verification/Svc.thy ===== *)
theory Svc imports Svc_Types begin

text \<open>
  Service supervision (\<open>svc.c\<close>): spawning commands, the start and stop sequences, the
  notification of observers and the event, timer and control entry points. One definition per C
  function. The functions that notify call each other; they are defined together, and end because
  a notification only spawns for a service that is starting or stopping, and a service that has
  become ready or stopped is neither.
\<close>

section \<open>Spawning and killing\<close>

text \<open>\<open>assert(args[0])\<close>: a command has a program to run.\<close>

definition cmd_ok :: "string option list \<Rightarrow> bool" where
  "cmd_ok args \<longleftrightarrow> args \<noteq> [] \<and> hd args \<noteq> None"

definition svc_spawn ::
  "'k ext \<Rightarrow> svc_id \<Rightarrow> string option list \<Rightarrow> nat \<Rightarrow> 'k world \<Rightarrow> int \<times> 'k world" where
  "svc_spawn E i args tmout w =
     (if \<not> cmd_ok args then (-1, fault w)
      else case x_vfork E \<lparr>job_conf = s_conf (svc_at w i), job_args = args\<rparr> (w_kern w) of
        (Inl err, k) \<Rightarrow> (- err, tinit_log (Log_cannot_spawn i args err) (upd_kern (\<lambda>_. k) w))
      | (Inr pid, k) \<Rightarrow>
          (pid, upd_kern (x_timer_arm_sec E i tmout)
                  (tinit_log (Log_spawned i args pid) (upd_kern (\<lambda>_. k) w))))"

definition svc_kill :: "'k ext \<Rightarrow> svc_id \<Rightarrow> int \<Rightarrow> 'k world \<Rightarrow> int \<times> 'k world" where
  "svc_kill E i signo w =
     (if s_child (svc_at w i) \<le> 0 then (- ESRCH, w)
      else case x_kill E (s_child (svc_at w i)) signo (w_kern w) of
             (True, k) \<Rightarrow> (- ESRCH, upd_kern (\<lambda>_. k) w)
           | (False, k) \<Rightarrow> (0, upd_kern (\<lambda>_. k) w))"

section \<open>Waiting for the notifiers\<close>

text \<open>
  The counting loop of \<open>svc_may_start\<close> and \<open>svc_may_stop\<close>: from the number of sources, one less
  for each source in the awaited state.
\<close>

fun poll_pending :: "'k world \<Rightarrow> svc_state \<Rightarrow> svc_id option list \<Rightarrow> nat \<Rightarrow> nat" where
  "poll_pending w st [] n = n"
| "poll_pending w st (None # ss) n = poll_pending w st ss n"
| "poll_pending w st (Some src # ss) n =
     poll_pending w st ss (if s_state (svc_at w src) = st then n - 1 else n)"

definition svc_may_start :: "'k world \<Rightarrow> svc_id \<Rightarrow> bool" where
  "svc_may_start w i = (case s_starton_notif (svc_at w i) of
      None \<Rightarrow> True
    | Some poll \<Rightarrow>
        (if p_cnt poll \<noteq> 0
         then poll_pending w TINIT_SVC_READY_STAT (poll_srcs (Some poll)) (p_cnt poll) = 0
         else True))"

definition svc_may_stop :: "'k world \<Rightarrow> svc_id \<Rightarrow> bool" where
  "svc_may_stop w i = (case s_stopon_notif (svc_at w i) of
      None \<Rightarrow> True
    | Some poll \<Rightarrow>
        (if p_cnt poll \<noteq> 0
         then poll_pending w TINIT_SVC_STOPPED_STAT (poll_srcs (Some poll)) (p_cnt poll) = 0
         else True))"

text \<open>What the two functions assert of the service they are called for.\<close>

definition svc_may_start_asserts :: "'k world \<Rightarrow> svc_id \<Rightarrow> bool" where
  "svc_may_start_asserts w i \<longleftrightarrow>
     s_handle_evts (svc_at w i) = Handle_on \<and> s_handle_notif (svc_at w i) = Handle_on \<and>
     s_state (svc_at w i) = TINIT_SVC_STARTING_STAT"

definition svc_may_stop_asserts :: "'k world \<Rightarrow> svc_id \<Rightarrow> bool" where
  "svc_may_stop_asserts w i \<longleftrightarrow>
     s_handle_evts (svc_at w i) = Handle_off \<and> s_handle_notif (svc_at w i) = Handle_off \<and>
     s_state (svc_at w i) = TINIT_SVC_STOPPING_STAT"

section \<open>Sequences and notifications\<close>

text \<open>A signed command index read as \<open>unsigned int\<close>.\<close>

definition as_unsigned :: "int \<Rightarrow> nat" where
  "as_unsigned n = unat (word_of_int n :: 32 word)"

text \<open>
  The measure: the services that are starting or stopping, all of them or all but one.
\<close>

definition is_transient :: "svc \<Rightarrow> bool" where
  "is_transient s \<longleftrightarrow>
     s_state s = TINIT_SVC_STARTING_STAT \<or> s_state s = TINIT_SVC_STOPPING_STAT"

definition n_transient :: "'k world \<Rightarrow> nat" where
  "n_transient w = card {j. is_svc w j \<and> is_transient (svc_at w j)}"

definition n_other :: "svc_id \<Rightarrow> 'k world \<Rightarrow> nat" where
  "n_other i w = card {j. j \<noteq> i \<and> is_svc w j \<and> is_transient (svc_at w j)}"

lemma finite_svcs [simp]: "finite {j. is_svc w j \<and> P j}"
  by (rule finite_subset [of _ "{..<length (w_svcs w)}"]) (auto simp: is_svc_def)

lemma n_transient_simps [simp]:
  "n_transient (fault w) = n_transient w" "n_transient (upd_kern g w) = n_transient w"
  "n_transient (tinit_log m w) = n_transient w"
  by (simp_all add: n_transient_def)

lemma n_other_simps [simp]:
  "n_other i (upd_kern g w) = n_other i w" "n_other i (tinit_log m w) = n_other i w"
  "n_other i (upd_svc i f w) = n_other i w"
  by (auto simp: n_other_def svc_at_upd intro: arg_cong [of _ _ card])

lemma n_other_le: "n_other i w \<le> n_transient w"
  unfolding n_other_def n_transient_def by (rule card_mono) auto

lemma n_other_less: "is_svc w i \<Longrightarrow> is_transient (svc_at w i) \<Longrightarrow> n_other i w < n_transient w"
  unfolding n_other_def n_transient_def by (rule psubset_card_mono) auto

lemma n_transient_marked:
  "(\<And>s. \<not> is_transient (f s)) \<Longrightarrow> n_transient (upd_svc i f w) = n_other i w"
proof -
  assume f: "\<And>s. \<not> is_transient (f s)"
  show ?thesis
  proof (cases "is_svc w i")
    case True
    with f show ?thesis
      by (auto simp: n_transient_def n_other_def svc_at_upd intro!: arg_cong [of _ _ card])
  next
    case False
    then have "{j. is_svc w j \<and> is_transient (svc_at w j)}
       = {j. j \<noteq> i \<and> is_svc w j \<and> is_transient (svc_at w j)}"
      by auto
    with False show ?thesis
      by (simp add: n_transient_def n_other_def svc_at_upd)
  qed
qed

lemma n_transient_quiet:
  "(\<And>s. is_transient (f s) = is_transient s) \<Longrightarrow> n_transient (upd_svc i f w) = n_transient w"
  by (auto simp: n_transient_def svc_at_upd intro!: arg_cong [of _ _ card])

lemma n_transient_mark [simp]:
  "n_transient (upd_svc i (\<lambda>s. s\<lparr>s_state := TINIT_SVC_READY_STAT\<rparr>) w) = n_other i w"
  "n_transient (upd_svc i (\<lambda>s. s\<lparr>s_child := c, s_state := TINIT_SVC_STOPPED_STAT\<rparr>) w)
     = n_other i w"
  by (rule n_transient_marked, simp add: is_transient_def)+

lemma n_transient_fields [simp]:
  "n_transient (upd_svc i (\<lambda>s. s\<lparr>s_child := c\<rparr>) w) = n_transient w"
  "n_transient (upd_svc i (\<lambda>s. s\<lparr>s_stop_cmd := g s\<rparr>) w) = n_transient w"
  by (rule n_transient_quiet, simp add: is_transient_def)+

lemma svc_spawn_svcs: "svc_spawn E i a t w = (p, w') \<Longrightarrow> w_svcs w' = w_svcs w"
  by (auto simp: svc_spawn_def split: prod.splits sum.splits if_splits)

lemma svc_spawn_at:
  "svc_spawn E i a t w = (p, w') \<Longrightarrow> svc_at w' j = svc_at w j \<and> is_svc w' j = is_svc w j"
  by (simp add: svc_at_def is_svc_def svc_spawn_svcs)

lemma n_spawn:
  assumes "svc_spawn E i a t w = (p, w')"
  shows "n_transient w' = n_transient w" "n_other j w' = n_other j w"
  using svc_spawn_at [OF assms] by (simp_all add: n_transient_def n_other_def)

function svc_mark_stopped :: "'k ext \<Rightarrow> svc_id \<Rightarrow> 'k world \<Rightarrow> 'k world"
  and svc_mark_ready :: "'k ext \<Rightarrow> svc_id \<Rightarrow> 'k world \<Rightarrow> 'k world"
  and svc_notify :: "'k ext \<Rightarrow> dep \<Rightarrow> notif_ref list \<Rightarrow> svc_id \<Rightarrow> 'k world \<Rightarrow> 'k world"
  and svc_handle_notif :: "'k ext \<Rightarrow> svc_id \<Rightarrow> svc_id \<Rightarrow> 'k world \<Rightarrow> 'k world"
  and svc_handle_on_notif :: "'k ext \<Rightarrow> svc_id \<Rightarrow> svc_id \<Rightarrow> 'k world \<Rightarrow> 'k world"
  and svc_handle_off_notif :: "'k ext \<Rightarrow> svc_id \<Rightarrow> svc_id \<Rightarrow> 'k world \<Rightarrow> 'k world"
  and svc_spawn_start_cmd :: "'k ext \<Rightarrow> svc_id \<Rightarrow> 'k world \<Rightarrow> 'k world"
  and svc_spawn_stop_cmd :: "'k ext \<Rightarrow> svc_id \<Rightarrow> 'k world \<Rightarrow> 'k world"
where
  "svc_mark_stopped E i w =
     (let w1 = upd_svc i (\<lambda>s. s\<lparr>s_child := -1, s_state := TINIT_SVC_STOPPED_STAT\<rparr>) w;
          w2 = tinit_log (Log_stopped i) w1
      in svc_notify E Stopon (s_stopon_obsrv (svc_at w2 i)) i w2)"
| "svc_mark_ready E i w =
     (let w1 = upd_svc i (\<lambda>s. s\<lparr>s_state := TINIT_SVC_READY_STAT\<rparr>) w;
          w2 = tinit_log (Log_ready i) w1
      in svc_notify E Starton (s_starton_obsrv (svc_at w2 i)) i w2)"
| "svc_notify E d [] i w = w"
| "svc_notify E d (obs # rest) i w =
     (if notif_get_src w d obs \<noteq> Some i then fault w
      else svc_notify E d rest i (svc_handle_notif E (notif_get_sink obs) i w))"
| "svc_handle_notif E i src w =
     (if \<not> is_svc w i then fault w
      else case s_handle_notif (svc_at w i) of
             Handle_on \<Rightarrow> svc_handle_on_notif E i src w
           | Handle_off \<Rightarrow> svc_handle_off_notif E i src w)"
| "svc_handle_on_notif E i src w =
     (if \<not> is_svc w i then fault w
      else if s_state (svc_at w i) = TINIT_SVC_STARTING_STAT then
        (if s_state (svc_at w src) \<noteq> TINIT_SVC_READY_STAT then w
         else if \<not> svc_may_start_asserts w i then fault w
         else if svc_may_start w i then svc_spawn_start_cmd E i w else w)
      else if s_state (svc_at w i) = TINIT_SVC_READY_STAT then w
      else fault w)"
| "svc_handle_off_notif E i src w =
     (if \<not> is_svc w i then fault w
      else if s_state (svc_at w i) = TINIT_SVC_STOPPED_STAT then w
      else if s_state (svc_at w i) = TINIT_SVC_STOPPING_STAT then
        (if s_state (svc_at w src) \<noteq> TINIT_SVC_STOPPED_STAT then w
         else if \<not> svc_may_stop_asserts w i then fault w
         else if svc_may_stop w i then svc_spawn_stop_cmd E i w else w)
      else fault w)"
| "svc_spawn_start_cmd E i w =
     (let s = svc_at w i;
          mark = (\<not> s_start_cmd s < conf_get_start_cmd_nr (s_conf s));
          args = (if mark then conf_get_daemon (s_conf s)
                  else Some (conf_get_start_cmd (s_conf s) (s_start_cmd s)))
      in case args of
           Some a \<Rightarrow>
             (case svc_spawn E i a 1 w of (pid, w1) \<Rightarrow>
                let w2 = upd_svc i (\<lambda>s. s\<lparr>s_child := pid\<rparr>) w1
                in if pid < 0 then w2 else if mark then svc_mark_ready E i w2 else w2)
         | None \<Rightarrow>
             (let w2 = upd_svc i (\<lambda>s. s\<lparr>s_child := -1\<rparr>) w
              in if mark then svc_mark_ready E i w2 else w2))"
| "svc_spawn_stop_cmd E i w =
     (let w1 = upd_svc i (\<lambda>s. s\<lparr>s_stop_cmd := s_stop_cmd s + 1\<rparr>) w;
          s = svc_at w1 i
      in if as_unsigned (s_stop_cmd s) \<ge> conf_get_stop_cmd_nr (s_conf s)
         then svc_mark_stopped E i w1
         else case svc_spawn E i (conf_get_stop_cmd (s_conf s) (as_unsigned (s_stop_cmd s))) 5 w1 of
                (pid, w2) \<Rightarrow> upd_svc i (\<lambda>s. s\<lparr>s_child := pid\<rparr>) w2)"
  by pat_completeness auto

text \<open>
  A chain of notifications never makes a service transient. This is needed before termination is
  known, so it is proved on the domain of the functions.
\<close>

lemma n_transient_chain:
  "svc_mark_stopped_svc_mark_ready_svc_notify_svc_handle_notif_svc_handle_on_notif_svc_handle_off_notif_svc_spawn_start_cmd_svc_spawn_stop_cmd_dom (Inl (Inl (Inl (E, i, w)))) \<Longrightarrow> n_transient (svc_mark_stopped E i w) \<le> n_other i w"
  "svc_mark_stopped_svc_mark_ready_svc_notify_svc_handle_notif_svc_handle_on_notif_svc_handle_off_notif_svc_spawn_start_cmd_svc_spawn_stop_cmd_dom (Inl (Inl (Inr (E, i, w)))) \<Longrightarrow> n_transient (svc_mark_ready E i w) \<le> n_other i w"
  "svc_mark_stopped_svc_mark_ready_svc_notify_svc_handle_notif_svc_handle_on_notif_svc_handle_off_notif_svc_spawn_start_cmd_svc_spawn_stop_cmd_dom (Inl (Inr (Inl (E, d, obs, i, w)))) \<Longrightarrow>
     n_transient (svc_notify E d obs i w) \<le> n_transient w"
  "svc_mark_stopped_svc_mark_ready_svc_notify_svc_handle_notif_svc_handle_on_notif_svc_handle_off_notif_svc_spawn_start_cmd_svc_spawn_stop_cmd_dom (Inl (Inr (Inr (E, i, src, w)))) \<Longrightarrow>
     n_transient (svc_handle_notif E i src w) \<le> n_transient w"
  "svc_mark_stopped_svc_mark_ready_svc_notify_svc_handle_notif_svc_handle_on_notif_svc_handle_off_notif_svc_spawn_start_cmd_svc_spawn_stop_cmd_dom (Inr (Inl (Inl (E, i, src, w)))) \<Longrightarrow>
     n_transient (svc_handle_on_notif E i src w) \<le> n_transient w"
  "svc_mark_stopped_svc_mark_ready_svc_notify_svc_handle_notif_svc_handle_on_notif_svc_handle_off_notif_svc_spawn_start_cmd_svc_spawn_stop_cmd_dom (Inr (Inl (Inr (E, i, src, w)))) \<Longrightarrow>
     n_transient (svc_handle_off_notif E i src w) \<le> n_transient w"
  "svc_mark_stopped_svc_mark_ready_svc_notify_svc_handle_notif_svc_handle_on_notif_svc_handle_off_notif_svc_spawn_start_cmd_svc_spawn_stop_cmd_dom (Inr (Inr (Inl (E, i, w)))) \<Longrightarrow> n_transient (svc_spawn_start_cmd E i w) \<le> n_transient w"
  "svc_mark_stopped_svc_mark_ready_svc_notify_svc_handle_notif_svc_handle_on_notif_svc_handle_off_notif_svc_spawn_start_cmd_svc_spawn_stop_cmd_dom (Inr (Inr (Inr (E, i, w)))) \<Longrightarrow> n_transient (svc_spawn_stop_cmd E i w) \<le> n_transient w"
proof (induction E i w and E i w and E d obs i w and E i src w and E i src w and E i src w
    and E i w and E i w
    rule: svc_mark_stopped_svc_mark_ready_svc_notify_svc_handle_notif_svc_handle_on_notif_svc_handle_off_notif_svc_spawn_start_cmd_svc_spawn_stop_cmd.pinduct)
  case (1 E i w)
  from "1.IH" [OF refl refl] "1.hyps" show ?case
    by (simp add: svc_mark_stopped.psimps Let_def)
next
  case (2 E i w)
  from "2.IH" [OF refl refl] "2.hyps" show ?case
    by (simp add: svc_mark_ready.psimps Let_def)
next
  case (3 E d i w)
  then show ?case by (simp add: svc_notify.psimps)
next
  case (4 E d obs rest i w)
  then show ?case by (auto simp: svc_notify.psimps intro: order_trans)
next
  case (5 E i src w)
  then show ?case by (auto simp: svc_handle_notif.psimps split: handler.splits)
next
  case (6 E i src w)
  then show ?case by (simp add: svc_handle_on_notif.psimps)
next
  case (7 E i src w)
  then show ?case by (simp add: svc_handle_off_notif.psimps)
next
  case (8 E i w)
  let ?s = "svc_at w i"
  show ?case
  proof (cases "if \<not> s_start_cmd ?s < conf_get_start_cmd_nr (s_conf ?s) then conf_get_daemon (s_conf ?s)
                else Some (conf_get_start_cmd (s_conf ?s) (s_start_cmd ?s))")
    case None
    with "8.IH"(1) [OF refl refl refl None refl] "8.hyps" show ?thesis
      using n_other_le [of i w]
      by (simp add: svc_spawn_start_cmd.psimps Let_def split: if_splits)
  next
    case (Some a)
    obtain pid w1 where sp: "svc_spawn E i a 1 w = (pid, w1)"
      by fastforce
    from "8.IH"(2) [OF refl refl refl Some sp [symmetric] refl] "8.hyps" Some sp show ?thesis
      using n_other_le [of i w] n_spawn [OF sp]
      by (auto simp: svc_spawn_start_cmd.psimps Let_def)
  qed
next
  case (9 E i w)
  from "9.IH" [OF refl refl] "9.hyps" show ?case
    using n_other_le [of i w]
    by (auto simp: svc_spawn_stop_cmd.psimps Let_def dest: n_spawn(1) split: prod.splits)
qed

text \<open>
  The relation for termination: the number of transient services once the service at hand is
  marked, then how far the call is from the notification loop, then the loop's length.
\<close>

termination svc_mark_stopped
proof (relation "inv_image (less_than <*lex*> less_than <*lex*> less_than)
    (case_sum
      (case_sum
        (case_sum (\<lambda>(E, i, w). (n_other i w, 3::nat, 0::nat)) (\<lambda>(E, i, w). (n_other i w, 3, 0)))
        (case_sum (\<lambda>(E, d, obs, i, w). (n_transient w, 2, length obs))
                  (\<lambda>(E, i, src, w). (n_transient w, 1, 1))))
      (case_sum
        (case_sum (\<lambda>(E, i, src, w). (n_transient w, 1, 0)) (\<lambda>(E, i, src, w). (n_transient w, 1, 0)))
        (case_sum (\<lambda>(E, i, w). (n_other i w, 4, 0)) (\<lambda>(E, i, w). (n_other i w, 4, 0)))))",
    goal_cases)
  case 1
  show ?case by (intro wf_inv_image wf_lex_prod wf_less_than)
qed (auto simp: le_imp_less_or_eq [OF n_transient_chain(4)] n_spawn n_other_less is_transient_def
       dest!: n_spawn(2) sym [of "(_, _)"])

declare svc_mark_stopped.simps [simp del] svc_mark_ready.simps [simp del]
  svc_handle_notif.simps [simp del] svc_handle_on_notif.simps [simp del]
  svc_handle_off_notif.simps [simp del] svc_spawn_start_cmd.simps [simp del]
  svc_spawn_stop_cmd.simps [simp del]

lemmas svc_chain_induct =
  svc_mark_stopped_svc_mark_ready_svc_notify_svc_handle_notif_svc_handle_on_notif_svc_handle_off_notif_svc_spawn_start_cmd_svc_spawn_stop_cmd.induct

section \<open>Starting, stopping, reloading\<close>

definition svc_respawn :: "'k ext \<Rightarrow> svc_id \<Rightarrow> 'k world \<Rightarrow> 'k world" where
  "svc_respawn E i w = svc_spawn_start_cmd E i w"

definition svc_start :: "'k ext \<Rightarrow> svc_id \<Rightarrow> 'k world \<Rightarrow> 'k world" where
  "svc_start E i w =
     (let w1 = tinit_log (Log_starting i) w;
          w2 = upd_svc i (\<lambda>s. s\<lparr>s_handle_evts := Handle_on, s_handle_notif := Handle_on,
                               s_state := TINIT_SVC_STARTING_STAT, s_start_cmd := 0\<rparr>) w1;
          w3 = upd_kern (x_timer_setup E i Svc_expire_on) w2
      in if svc_may_start w3 i then svc_spawn_start_cmd E i w3 else w3)"

definition svc_stop :: "'k ext \<Rightarrow> svc_id \<Rightarrow> 'k world \<Rightarrow> 'k world" where
  "svc_stop E i w =
     (let w1 = tinit_log (Log_stopping i) w;
          w2 = upd_svc i (\<lambda>s. s\<lparr>s_handle_evts := Handle_off, s_handle_notif := Handle_off,
                               s_state := TINIT_SVC_STOPPING_STAT, s_stop_cmd := -1\<rparr>) w1;
          w3 = upd_kern (x_timer_setup E i Svc_expire_off) w2
      in if \<not> svc_may_stop w3 i then w3
         else case svc_kill E i (conf_get_stop_sig (s_conf (svc_at w3 i))) w3 of
                (ret, w4) \<Rightarrow>
                  if ret = 0 then upd_kern (x_timer_arm_sec E i 5) w4
                  else svc_spawn_stop_cmd E i w4)"

definition svc_reload :: "'k ext \<Rightarrow> svc_id \<Rightarrow> 'k world \<Rightarrow> 'k world" where
  "svc_reload E i w =
     (if s_state (svc_at w i) \<noteq> TINIT_SVC_READY_STAT \<or> s_child (svc_at w i) \<le> 0 then fault w
      else snd (svc_kill E i (conf_get_reload_sig (s_conf (svc_at w i)))
                  (tinit_log (Log_reloading i) w)))"

section \<open>Events and timers\<close>

definition svc_handle_off_evts :: "'k ext \<Rightarrow> svc_id \<Rightarrow> svc_evt \<Rightarrow> int \<Rightarrow> 'k world \<Rightarrow> 'k world" where
  "svc_handle_off_evts E i evt status w =
     (case s_state (svc_at w i) of
        TINIT_SVC_STOPPED_STAT \<Rightarrow>
          (case evt of SVC_START_EVT \<Rightarrow> svc_start E i w
                     | SVC_STOP_EVT \<Rightarrow> w
                     | SVC_EXIT_EVT \<Rightarrow> fault w)
      | TINIT_SVC_STOPPING_STAT \<Rightarrow>
          (case evt of SVC_START_EVT \<Rightarrow> svc_start E i w
                     | SVC_STOP_EVT \<Rightarrow> w
                     | SVC_EXIT_EVT \<Rightarrow> svc_spawn_stop_cmd E i w)
      | _ \<Rightarrow> fault w)"

definition svc_handle_on_evts :: "'k ext \<Rightarrow> svc_id \<Rightarrow> svc_evt \<Rightarrow> int \<Rightarrow> 'k world \<Rightarrow> 'k world" where
  "svc_handle_on_evts E i evt status w =
     (case s_state (svc_at w i) of
        TINIT_SVC_STARTING_STAT \<Rightarrow>
          (case evt of SVC_START_EVT \<Rightarrow> w
                     | SVC_STOP_EVT \<Rightarrow> svc_stop E i w
                     | SVC_EXIT_EVT \<Rightarrow>
                         if status = 0 then
                           svc_respawn E i (upd_svc i (\<lambda>s. s\<lparr>s_start_cmd := Suc (s_start_cmd s)\<rparr>) w)
                         else if \<not> x_timer_is_armed E i (w_kern w) then svc_respawn E i w
                         else upd_svc i (\<lambda>s. s\<lparr>s_child := -1\<rparr>) w)
      | TINIT_SVC_READY_STAT \<Rightarrow>
          (case evt of SVC_START_EVT \<Rightarrow> w
                     | SVC_STOP_EVT \<Rightarrow> svc_stop E i w
                     | SVC_EXIT_EVT \<Rightarrow>
                         if \<not> x_timer_is_armed E i (w_kern w) then
                           svc_respawn E i
                             (upd_svc i (\<lambda>s. s\<lparr>s_state := TINIT_SVC_STARTING_STAT\<rparr>) w)
                         else upd_svc i (\<lambda>s. s\<lparr>s_child := -1\<rparr>) w)
      | _ \<Rightarrow> fault w)"

definition svc_handle_evts :: "'k ext \<Rightarrow> svc_id \<Rightarrow> svc_evt \<Rightarrow> int \<Rightarrow> 'k world \<Rightarrow> 'k world" where
  "svc_handle_evts E i evt status w =
     (case s_handle_evts (svc_at w i) of
        Handle_on \<Rightarrow> svc_handle_on_evts E i evt status w
      | Handle_off \<Rightarrow> svc_handle_off_evts E i evt status w)"

definition svc_expire_on :: "'k ext \<Rightarrow> svc_id \<Rightarrow> 'k world \<Rightarrow> 'k world" where
  "svc_expire_on E i w =
     (case s_state (svc_at w i) of
        TINIT_SVC_READY_STAT \<Rightarrow> w
      | TINIT_SVC_STARTING_STAT \<Rightarrow> (if s_child (svc_at w i) < 0 then svc_respawn E i w else w)
      | _ \<Rightarrow> fault w)"

definition svc_expire_off :: "'k ext \<Rightarrow> svc_id \<Rightarrow> 'k world \<Rightarrow> 'k world" where
  "svc_expire_off E i w =
     (case s_state (svc_at w i) of
        TINIT_SVC_STOPPED_STAT \<Rightarrow> w
      | TINIT_SVC_STOPPING_STAT \<Rightarrow>
          (case svc_kill E i SIGKILL w of
             (ret, w1) \<Rightarrow> if ret \<noteq> 0 then svc_spawn_stop_cmd E i w1 else w1)
      | _ \<Rightarrow> fault w)"

text \<open>The callback \<open>utimer_setup\<close> has registered for the service's timer.\<close>

definition svc_expire :: "'k ext \<Rightarrow> expire_cb \<Rightarrow> svc_id \<Rightarrow> 'k world \<Rightarrow> 'k world" where
  "svc_expire E cb i w = (case cb of Svc_expire_on \<Rightarrow> svc_expire_on E i w
                                   | Svc_expire_off \<Rightarrow> svc_expire_off E i w)"

definition svc_is_on :: "'k world \<Rightarrow> svc_id \<Rightarrow> bool" where
  "svc_is_on w i \<longleftrightarrow> s_handle_notif (svc_at w i) = Handle_on"

end
