(* ===== verification/Svc_Step.thy ===== *)
theory Svc_Step imports Svc begin

text \<open>
  The abstract machine of service supervision and the proof that \<open>svc.c\<close> implements it.

  \<open>svc_step\<close> is one atomic action on one service: the start or stop of a sequence, the spawn of a
  command, the change to ready or stopped, a kill. \<open>world_ok\<close> is what the daemon keeps true: no
  assertion has failed, the handlers of a service agree with its state, a stopped service has no
  child, and the notification links are consistent. Every function of \<open>svc.c\<close>, run in such a
  world, is a sequence of steps, so whatever every step keeps, every function keeps: the locale
  \<open>svc_preserved\<close> states this once for all invariants.
\<close>

section \<open>Well-formed worlds\<close>

definition conf_wf :: "conf_svc \<Rightarrow> bool" where
  "conf_wf c \<longleftrightarrow>
     (\<forall>n < conf_get_start_cmd_nr c. cmd_ok (conf_get_start_cmd c n)) \<and>
     (\<forall>n < conf_get_stop_cmd_nr c. cmd_ok (conf_get_stop_cmd c n)) \<and>
     (\<forall>a. conf_get_daemon c = Some a \<longrightarrow> cmd_ok a) \<and>
     conf_get_stop_cmd_nr c < 2 ^ 31"

definition svc_wf :: "svc \<Rightarrow> bool" where
  "svc_wf s \<longleftrightarrow>
     s_handle_evts s = s_handle_notif s \<and>
     (s_handle_notif s = Handle_on \<longleftrightarrow>
        s_state s = TINIT_SVC_STARTING_STAT \<or> s_state s = TINIT_SVC_READY_STAT) \<and>
     s_child s \<noteq> 0 \<and>
     (s_state s = TINIT_SVC_STOPPED_STAT \<longrightarrow> s_child s = -1) \<and>
     (s_state s = TINIT_SVC_STOPPING_STAT \<longrightarrow>
        -1 \<le> s_stop_cmd s \<and> (0 \<le> s_stop_cmd s \<longrightarrow> nat (s_stop_cmd s) < conf_get_stop_cmd_nr (s_conf s))) \<and>
     conf_wf (s_conf s)"

definition obsrv_ok :: "dep \<Rightarrow> 'k world \<Rightarrow> svc_id \<Rightarrow> notif_ref \<Rightarrow> bool" where
  "obsrv_ok d w i r \<longleftrightarrow> is_svc w (notif_get_sink r) \<and> notif_get_src w d r = Some i"

text \<open>A poll knows its sources, each of them has the poll's member among its observers, and the
  members not yet registered have no source.\<close>

definition poll_ok :: "dep \<Rightarrow> 'k world \<Rightarrow> svc_id \<Rightarrow> notif_poll \<Rightarrow> bool" where
  "poll_ok d w i q \<longleftrightarrow>
     p_nr q = length (p_members q) \<and> p_cnt q \<le> p_nr q \<and>
     (\<forall>n \<in> set (p_members q). n_sink n = i) \<and>
     (\<forall>m < p_cnt q. case n_src (p_members q ! m) of
        Some j \<Rightarrow> is_svc w j \<and> (i, m) \<in> set (svc_obsrv d (svc_at w j)) | None \<Rightarrow> False) \<and>
     (\<forall>m < length (p_members q). p_cnt q \<le> m \<longrightarrow> n_src (p_members q ! m) = None)"

definition links_ok :: "'k world \<Rightarrow> bool" where
  "links_ok w \<longleftrightarrow>
     (\<forall>i d. is_svc w i \<longrightarrow>
        (\<forall>r \<in> set (svc_obsrv d (svc_at w i)). obsrv_ok d w i r) \<and>
        (\<forall>q. svc_poll d (svc_at w i) = Some q \<longrightarrow> poll_ok d w i q))"

definition svcs_wf :: "'k world \<Rightarrow> bool" where
  "svcs_wf w \<longleftrightarrow> (\<forall>i. is_svc w i \<longrightarrow> svc_wf (svc_at w i))"

definition world_ok :: "'k world \<Rightarrow> bool" where
  "world_ok w \<longleftrightarrow> \<not> w_fault w \<and> svcs_wf w \<and> links_ok w"

lemma world_okD:
  assumes "world_ok w"
  shows "\<not> w_fault w" "links_ok w" "is_svc w i \<Longrightarrow> svc_wf (svc_at w i)"
  using assms by (auto simp: world_ok_def svcs_wf_def)

section \<open>The part of a service that supervision never writes\<close>

definition svc_static :: "svc \<Rightarrow>
    notif_ref list \<times> notif_poll option \<times> notif_ref list \<times> notif_poll option \<times> conf_svc" where
  "svc_static s =
     (s_starton_obsrv s, s_starton_notif s, s_stopon_obsrv s, s_stopon_notif s, s_conf s)"

definition statics :: "'k world \<Rightarrow>
    (notif_ref list \<times> notif_poll option \<times> notif_ref list \<times> notif_poll option \<times> conf_svc) list" where
  "statics w = map svc_static (w_svcs w)"

lemma statics_simps [simp]:
  "statics (fault w) = statics w" "statics (upd_kern g w) = statics w"
  "statics (tinit_log m w) = statics w"
  by (simp_all add: statics_def)

lemma statics_upd: "(\<And>s. svc_static (f s) = svc_static s) \<Longrightarrow> statics (upd_svc i f w) = statics w"
  by (cases "i < length (w_svcs w)")
    (auto simp: statics_def upd_svc_def map_update list_update_beyond
      intro: list_update_same_conv [THEN iffD2])

lemma statics_spawn: "svc_spawn E i a t w = (p, w') \<Longrightarrow> statics w' = statics w"
  by (simp add: statics_def svc_spawn_svcs)

lemma svc_kill_svcs: "svc_kill E i sig w = (r, w') \<Longrightarrow> w_svcs w' = w_svcs w \<and> w_log w' = w_log w \<and>
    w_fault w' = w_fault w"
  by (auto simp: svc_kill_def split: if_splits prod.splits bool.splits)

lemma statics_is_svc:
  assumes "statics w' = statics w"
  shows "is_svc w' i = is_svc w i"
  using arg_cong [of "statics w'" "statics w" length, OF assms]
  by (simp add: statics_def is_svc_def)

lemma statics_at:
  assumes "statics w' = statics w" "is_svc w i"
  shows "svc_static (svc_at w' i) = svc_static (svc_at w i)"
  using arg_cong [of "statics w'" "statics w" "\<lambda>xs. xs ! i", OF assms(1)]
    statics_is_svc [OF assms(1)] assms(2)
  by (simp add: statics_def is_svc_def svc_at_def)

lemma statics_links:
  assumes "statics w' = statics w" "is_svc w i"
  shows "svc_obsrv d (svc_at w' i) = svc_obsrv d (svc_at w i)"
    and "svc_poll d (svc_at w' i) = svc_poll d (svc_at w i)"
    and "s_conf (svc_at w' i) = s_conf (svc_at w i)"
  using statics_at [OF assms]
  by (auto simp: svc_static_def svc_obsrv_def svc_poll_def split: dep.splits)

lemma statics_src:
  assumes "statics w' = statics w"
  shows "notif_get_src w' d r = notif_get_src w d r"
  by (simp add: notif_get_src_def notif_at_def statics_is_svc [OF assms] statics_links [OF assms])

lemma statics_links_ok:
  assumes "statics w' = statics w"
  shows "links_ok w' = links_ok w"
  by (simp add: links_ok_def obsrv_ok_def poll_ok_def option.case_eq_if
      statics_is_svc [OF assms] statics_links [OF assms] statics_src [OF assms] cong: conj_cong imp_cong)

section \<open>Steps\<close>

text \<open>The command a starting service runs next: its next start command, then its daemon.\<close>

definition svc_next_cmd :: "svc \<Rightarrow> string option list option" where
  "svc_next_cmd s =
     (if s_start_cmd s < conf_get_start_cmd_nr (s_conf s)
      then Some (conf_get_start_cmd (s_conf s) (s_start_cmd s))
      else conf_get_daemon (s_conf s))"

definition start_done :: "svc \<Rightarrow> bool" where
  "start_done s \<longleftrightarrow> \<not> s_start_cmd s < conf_get_start_cmd_nr (s_conf s) \<and>
     (conf_get_daemon (s_conf s) = None \<or> 0 \<le> s_child s)"

definition set_starting :: "svc \<Rightarrow> svc" where
  "set_starting s = s\<lparr>s_handle_evts := Handle_on, s_handle_notif := Handle_on,
     s_state := TINIT_SVC_STARTING_STAT, s_start_cmd := 0\<rparr>"

definition set_stopping :: "svc \<Rightarrow> svc" where
  "set_stopping s = s\<lparr>s_handle_evts := Handle_off, s_handle_notif := Handle_off,
     s_state := TINIT_SVC_STOPPING_STAT, s_stop_cmd := -1\<rparr>"

definition stop_done :: "svc \<Rightarrow> bool" where
  "stop_done s \<longleftrightarrow> conf_get_stop_cmd_nr (s_conf s) \<le> as_unsigned (s_stop_cmd s + 1)"

inductive svc_step :: "'k ext \<Rightarrow> 'k world \<Rightarrow> 'k world \<Rightarrow> bool" for E where
  Start: "is_svc w i \<Longrightarrow> svc_step E w
    (upd_kern (x_timer_setup E i Svc_expire_on) (upd_svc i set_starting (tinit_log (Log_starting i) w)))"
| Spawn_start: "is_svc w i \<Longrightarrow> s_state (svc_at w i) = TINIT_SVC_STARTING_STAT \<Longrightarrow>
    svc_next_cmd (svc_at w i) = Some a \<Longrightarrow> svc_spawn E i a 1 w = (pid, w') \<Longrightarrow>
    svc_step E w (upd_svc i (\<lambda>s. s\<lparr>s_child := pid\<rparr>) w')"
| No_daemon: "is_svc w i \<Longrightarrow> s_state (svc_at w i) = TINIT_SVC_STARTING_STAT \<Longrightarrow>
    svc_next_cmd (svc_at w i) = None \<Longrightarrow> svc_step E w (upd_svc i (\<lambda>s. s\<lparr>s_child := -1\<rparr>) w)"
| Ready: "is_svc w i \<Longrightarrow> s_state (svc_at w i) = TINIT_SVC_STARTING_STAT \<Longrightarrow> start_done (svc_at w i) \<Longrightarrow>
    svc_step E w (tinit_log (Log_ready i) (upd_svc i (\<lambda>s. s\<lparr>s_state := TINIT_SVC_READY_STAT\<rparr>) w))"
| Next: "is_svc w i \<Longrightarrow> s_state (svc_at w i) = TINIT_SVC_STARTING_STAT \<Longrightarrow>
    svc_step E w (upd_svc i (\<lambda>s. s\<lparr>s_start_cmd := Suc (s_start_cmd s)\<rparr>) w)"
| Again: "is_svc w i \<Longrightarrow> s_state (svc_at w i) = TINIT_SVC_READY_STAT \<Longrightarrow>
    svc_step E w (upd_svc i (\<lambda>s. s\<lparr>s_state := TINIT_SVC_STARTING_STAT\<rparr>) w)"
| Lost: "is_svc w i \<Longrightarrow>
    s_state (svc_at w i) = TINIT_SVC_STARTING_STAT \<or> s_state (svc_at w i) = TINIT_SVC_READY_STAT \<Longrightarrow>
    svc_step E w (upd_svc i (\<lambda>s. s\<lparr>s_child := -1\<rparr>) w)"
| Stop: "is_svc w i \<Longrightarrow> svc_step E w
    (upd_kern (x_timer_setup E i Svc_expire_off) (upd_svc i set_stopping (tinit_log (Log_stopping i) w)))"
| Spawn_stop: "is_svc w i \<Longrightarrow> s_state (svc_at w i) = TINIT_SVC_STOPPING_STAT \<Longrightarrow>
    \<not> stop_done (svc_at w i) \<Longrightarrow>
    svc_spawn E i (conf_get_stop_cmd (s_conf (svc_at w i)) (as_unsigned (s_stop_cmd (svc_at w i) + 1))) 5
      (upd_svc i (\<lambda>s. s\<lparr>s_stop_cmd := s_stop_cmd s + 1\<rparr>) w) = (pid, w') \<Longrightarrow>
    svc_step E w (upd_svc i (\<lambda>s. s\<lparr>s_child := pid\<rparr>) w')"
| Stopped: "is_svc w i \<Longrightarrow> s_state (svc_at w i) = TINIT_SVC_STOPPING_STAT \<Longrightarrow> stop_done (svc_at w i) \<Longrightarrow>
    svc_step E w (tinit_log (Log_stopped i)
      (upd_svc i (\<lambda>s. s\<lparr>s_child := -1, s_state := TINIT_SVC_STOPPED_STAT\<rparr>)
        (upd_svc i (\<lambda>s. s\<lparr>s_stop_cmd := s_stop_cmd s + 1\<rparr>) w)))"
| Kill: "is_svc w i \<Longrightarrow> svc_kill E i sig w = (ret, w') \<Longrightarrow> svc_step E w w'"
| Arm: "svc_step E w (upd_kern (x_timer_arm_sec E i n) w)"
| Reloading: "is_svc w i \<Longrightarrow> svc_step E w (tinit_log (Log_reloading i) w)"

abbreviation svc_steps :: "'k ext \<Rightarrow> 'k world \<Rightarrow> 'k world \<Rightarrow> bool" where
  "svc_steps E \<equiv> (svc_step E)\<^sup>*\<^sup>*"

lemma svc_step_statics: "svc_step E w w' \<Longrightarrow> statics w' = statics w"
  by (induction rule: svc_step.induct)
    (simp_all add: statics_upd svc_static_def set_starting_def set_stopping_def statics_spawn,
     simp add: statics_def svc_kill_svcs)

lemma svc_steps_statics: "svc_steps E w w' \<Longrightarrow> statics w' = statics w"
  by (induction rule: rtranclp_induct) (auto dest: svc_step_statics)

section \<open>Steps keep worlds well-formed\<close>

lemma as_unsigned_small: "0 \<le> n \<Longrightarrow> n < 2 ^ 32 \<Longrightarrow> as_unsigned n = nat n"
  unfolding as_unsigned_def unat_eq_nat_uint uint_word_of_int by simp

lemma vfork_result:
  "vfork_ok E \<Longrightarrow> x_vfork E j k = (r, k') \<Longrightarrow> case r of Inl err \<Rightarrow> 0 < err | Inr pid \<Rightarrow> 0 < pid"
  unfolding vfork_ok_def by (metis fst_conv)

lemma svc_spawn_cases:
  assumes "svc_spawn E i a t w = (pid, w')" "cmd_ok a"
  obtains (failed) err k where "x_vfork E \<lparr>job_conf = s_conf (svc_at w i), job_args = a\<rparr> (w_kern w) = (Inl err, k)"
      "pid = - err" "w' = tinit_log (Log_cannot_spawn i a err) (upd_kern (\<lambda>_. k) w)"
  | (spawned) k where "x_vfork E \<lparr>job_conf = s_conf (svc_at w i), job_args = a\<rparr> (w_kern w) = (Inr pid, k)"
      "w' = upd_kern (x_timer_arm_sec E i t) (tinit_log (Log_spawned i a pid) (upd_kern (\<lambda>_. k) w))"
proof -
  obtain r k where v: "x_vfork E \<lparr>job_conf = s_conf (svc_at w i), job_args = a\<rparr> (w_kern w) = (r, k)"
    by fastforce
  show thesis
    using assms v by (cases r) (simp_all add: svc_spawn_def that)
qed

lemma svc_spawn_log_cases:
  assumes "svc_spawn E i a t w = (pid, w')"
  shows "w_log w' = w_log w \<or> w_log w' = Log_cannot_spawn i a (- pid) # w_log w \<or>
    w_log w' = Log_spawned i a pid # w_log w"
proof (cases "cmd_ok a")
  case True
  show ?thesis
    using assms True by (cases rule: svc_spawn_cases) simp_all
next
  case False
  with assms show ?thesis by (auto simp: svc_spawn_def)
qed

lemma svc_spawn_result:
  assumes "vfork_ok E" "cmd_ok a" "svc_spawn E i a t w = (pid, w')"
  shows "pid \<noteq> 0" "w_fault w' = w_fault w"
  using assms by (auto simp: svc_spawn_def split: prod.splits sum.splits dest!: vfork_result)

lemma svc_at_spawn [simp]:
  assumes "svc_spawn E i a t w = (pid, w')"
  shows "svc_at w' j = svc_at w j" "is_svc w' j = is_svc w j"
  using svc_spawn_at [OF assms] by simp_all

lemma svcs_wf_upd:
  "svcs_wf w \<Longrightarrow> (is_svc w i \<Longrightarrow> svc_wf (svc_at w i) \<Longrightarrow> svc_wf (f (svc_at w i))) \<Longrightarrow>
     svcs_wf (upd_svc i f w)"
  by (auto simp: svcs_wf_def svc_at_upd)

lemma svcs_wf_simps [simp]:
  "svcs_wf (upd_kern g w) = svcs_wf w" "svcs_wf (tinit_log m w) = svcs_wf w"
  by (simp_all add: svcs_wf_def)

lemma svcs_wf_spawn: "svc_spawn E i a t w = (pid, w') \<Longrightarrow> svcs_wf w' = svcs_wf w"
  by (simp add: svcs_wf_def)

lemma svc_next_cmd_ok: "svc_wf s \<Longrightarrow> svc_next_cmd s = Some a \<Longrightarrow> cmd_ok a"
  by (auto simp: svc_wf_def conf_wf_def svc_next_cmd_def split: if_splits)

lemma stop_cmd_next:
  assumes "svc_wf s" "s_state s = TINIT_SVC_STOPPING_STAT"
  shows "as_unsigned (s_stop_cmd s + 1) = nat (s_stop_cmd s + 1)"
proof (rule as_unsigned_small)
  show "0 \<le> s_stop_cmd s + 1"
    using assms by (auto simp: svc_wf_def)
  show "s_stop_cmd s + 1 < 2 ^ 32"
    using assms by (auto simp: svc_wf_def conf_wf_def)
qed

lemma stop_cmd_index:
  assumes "svc_wf s" "s_state s = TINIT_SVC_STOPPING_STAT" "\<not> stop_done s"
  shows "nat (s_stop_cmd s + 1) < conf_get_stop_cmd_nr (s_conf s)"
  using assms(3) stop_cmd_next [OF assms(1,2)] by (simp add: stop_done_def)

lemma svc_step_fault:
  assumes "svc_step E w w'" "vfork_ok E" "world_ok w"
  shows "\<not> w_fault w'"
  using assms
proof (induction rule: svc_step.induct)
  case (Spawn_start w i a pid w')
  then have "cmd_ok a"
    by (auto dest: world_okD(3) svc_next_cmd_ok)
  with Spawn_start show ?case
    by (simp add: svc_spawn_result(2) world_okD)
next
  case (Spawn_stop w i pid w')
  then have wf: "svc_wf (svc_at w i)"
    by (auto dest: world_okD(3))
  then have "cmd_ok (conf_get_stop_cmd (s_conf (svc_at w i)) (as_unsigned (s_stop_cmd (svc_at w i) + 1)))"
    using Spawn_stop.hyps stop_cmd_index [OF wf] stop_cmd_next [OF wf]
    by (simp add: svc_wf_def conf_wf_def)
  with Spawn_stop show ?case
    by (simp add: svc_spawn_result(2) world_okD)
qed (auto dest: world_okD(1) svc_kill_svcs)

lemma svc_step_wf:
  assumes "svc_step E w w'" "vfork_ok E" "world_ok w"
  shows "svcs_wf w'"
proof -
  from assms(3) have wf: "svcs_wf w"
    by (simp add: world_ok_def)
  from assms(1,2) wf show ?thesis
  proof (induction rule: svc_step.induct)
    case (Spawn_start w i a pid w')
    then have "cmd_ok a"
      by (auto simp: svcs_wf_def dest: svc_next_cmd_ok)
    with Spawn_start have "pid \<noteq> 0"
      by (auto dest: svc_spawn_result)
    with Spawn_start show ?case
      by (intro svcs_wf_upd) (auto simp: svcs_wf_spawn svc_wf_def)
  next
    case (Spawn_stop w i pid w')
    then have wf: "svc_wf (svc_at w i)"
      by (simp add: svcs_wf_def)
    then have "cmd_ok (conf_get_stop_cmd (s_conf (svc_at w i)) (as_unsigned (s_stop_cmd (svc_at w i) + 1)))"
      using Spawn_stop.hyps stop_cmd_index [OF wf] stop_cmd_next [OF wf]
      by (simp add: svc_wf_def conf_wf_def)
    then have pid: "pid \<noteq> 0"
      using Spawn_stop by (auto dest: svc_spawn_result)
    have ok: "svcs_wf (upd_svc i (\<lambda>s. s\<lparr>s_stop_cmd := s_stop_cmd s + 1\<rparr>) w)"
      using Spawn_stop wf stop_cmd_index [OF wf]
      by (intro svcs_wf_upd) (auto simp: svc_wf_def)
    then have "svcs_wf w'"
      using Spawn_stop by (simp add: svcs_wf_spawn)
    with pid Spawn_stop show ?case
      by (intro svcs_wf_upd) (auto simp: svc_wf_def)
  next
    case (Stopped w i)
    then have "svcs_wf (upd_svc i (\<lambda>s. s\<lparr>s_stop_cmd := s_stop_cmd s + 1, s_child := -1,
        s_state := TINIT_SVC_STOPPED_STAT\<rparr>) w)"
      by (intro svcs_wf_upd) (auto simp: svc_wf_def)
    then show ?case
      by (simp add: upd_svc_twice)
  next
    case (Kill w i sig ret w')
    then show ?case
      by (auto simp: svcs_wf_def is_svc_def svc_at_def dest: svc_kill_svcs)
  qed (auto simp: set_starting_def set_stopping_def upd_svc_def [symmetric]
        svc_wf_def intro!: svcs_wf_upd)
qed

lemma svc_step_ok: "svc_step E w w' \<Longrightarrow> vfork_ok E \<Longrightarrow> world_ok w \<Longrightarrow> world_ok w'"
  using svc_step_fault svc_step_wf statics_links_ok [OF svc_step_statics]
  unfolding world_ok_def by blast

lemma svc_steps_ok: "svc_steps E w w' \<Longrightarrow> vfork_ok E \<Longrightarrow> world_ok w \<Longrightarrow> world_ok w'"
  by (induction rule: rtranclp_induct) (auto intro: svc_step_ok)

section \<open>The functions of svc.c are sequences of steps\<close>

lemmas steps_trans = rtranclp_trans [of "svc_step E" for E]
lemmas steps_one = r_into_rtranclp [of "svc_step E" for E]

lemma links_sink: "links_ok w \<Longrightarrow> is_svc w i \<Longrightarrow> r \<in> set (svc_obsrv d (svc_at w i)) \<Longrightarrow> obsrv_ok d w i r"
  by (auto simp: links_ok_def)

lemma steps_obsrv_ok:
  assumes "svc_steps E w w'"
  shows "obsrv_ok d w' i r = obsrv_ok d w i r" "is_svc w' i = is_svc w i"
  using statics_src [OF svc_steps_statics [OF assms]] statics_is_svc [OF svc_steps_statics [OF assms]]
  by (simp_all add: obsrv_ok_def)

text \<open>The loop: each observer is valid, and handling one keeps the others valid.\<close>

lemma notify_steps:
  assumes step: "svc_steps E w (svc_handle_notif E (notif_get_sink r) i w)"
    and rest: "svc_steps E (svc_handle_notif E (notif_get_sink r) i w)
                 (svc_notify E d rs i (svc_handle_notif E (notif_get_sink r) i w))"
    and "obsrv_ok d w i r"
  shows "svc_steps E w (svc_notify E d (r # rs) i w)"
  using assms by (simp add: obsrv_ok_def)

lemma svc_chain_steps:
  assumes E: "vfork_ok E0"
  shows
  "E = E0 \<Longrightarrow> (\<And>w0. world_ok w0 \<Longrightarrow> is_svc w0 i \<Longrightarrow> s_state (svc_at w0 i) = TINIT_SVC_STOPPING_STAT \<Longrightarrow>
      stop_done (svc_at w0 i) \<Longrightarrow> w = upd_svc i (\<lambda>s. s\<lparr>s_stop_cmd := s_stop_cmd s + 1\<rparr>) w0 \<Longrightarrow>
      svc_steps E w0 (svc_mark_stopped E i w))"
  "E = E0 \<Longrightarrow> world_ok w \<Longrightarrow> is_svc w i \<Longrightarrow> s_state (svc_at w i) = TINIT_SVC_STARTING_STAT \<Longrightarrow>
      start_done (svc_at w i) \<Longrightarrow> svc_steps E w (svc_mark_ready E i w)"
  "E = E0 \<Longrightarrow> world_ok w \<Longrightarrow> is_svc w i \<Longrightarrow> \<forall>r \<in> set obs. obsrv_ok d w i r \<Longrightarrow>
      svc_steps E w (svc_notify E d obs i w)"
  "E = E0 \<Longrightarrow> world_ok w \<Longrightarrow> is_svc w i \<Longrightarrow> svc_steps E w (svc_handle_notif E i src w)"
  "E = E0 \<Longrightarrow> world_ok w \<Longrightarrow> is_svc w i \<Longrightarrow> s_handle_notif (svc_at w i) = Handle_on \<Longrightarrow>
      svc_steps E w (svc_handle_on_notif E i src w)"
  "E = E0 \<Longrightarrow> world_ok w \<Longrightarrow> is_svc w i \<Longrightarrow> s_handle_notif (svc_at w i) = Handle_off \<Longrightarrow>
      svc_steps E w (svc_handle_off_notif E i src w)"
  "E = E0 \<Longrightarrow> world_ok w \<Longrightarrow> is_svc w i \<Longrightarrow> s_state (svc_at w i) = TINIT_SVC_STARTING_STAT \<Longrightarrow>
      svc_steps E w (svc_spawn_start_cmd E i w)"
  "E = E0 \<Longrightarrow> world_ok w \<Longrightarrow> is_svc w i \<Longrightarrow> s_state (svc_at w i) = TINIT_SVC_STOPPING_STAT \<Longrightarrow>
      svc_steps E w (svc_spawn_stop_cmd E i w)"
proof (induction E i w and E i w and E d obs i w and E i src w and E i src w and E i src w
    and E i w and E i w
    rule: svc_chain_induct)
  case (1 E i w)
  let ?w = "tinit_log (Log_stopped i) (upd_svc i (\<lambda>s. s\<lparr>s_child := -1, s_state := TINIT_SVC_STOPPED_STAT\<rparr>) w)"
  have st: "svc_step E w0 ?w"
    using Stopped [of w0 i E] "1.prems" by simp
  then have ok: "world_ok ?w"
    using "1.prems" E svc_step_ok by blast
  have "svc_steps E ?w (svc_notify E Stopon (s_stopon_obsrv (svc_at ?w i)) i ?w)"
    using "1.prems" ok links_sink [OF world_okD(2) [OF ok], of i _ Stopon]
    by (intro "1.IH" [OF refl refl]) (auto simp: svc_obsrv_def)
  with st show ?case
    by (simp add: svc_mark_stopped.simps Let_def converse_rtranclp_into_rtranclp)
next
  case (2 E i w)
  let ?w = "tinit_log (Log_ready i) (upd_svc i (\<lambda>s. s\<lparr>s_state := TINIT_SVC_READY_STAT\<rparr>) w)"
  have st: "svc_step E w ?w"
    using "2.prems" by (intro Ready) simp_all
  then have ok: "world_ok ?w"
    using "2.prems" E svc_step_ok by blast
  have "svc_steps E ?w (svc_notify E Starton (s_starton_obsrv (svc_at ?w i)) i ?w)"
    using "2.prems" ok links_sink [OF world_okD(2) [OF ok], of i _ Starton]
    by (intro "2.IH" [OF refl refl]) (auto simp: svc_obsrv_def)
  with st show ?case
    by (simp add: svc_mark_ready.simps Let_def converse_rtranclp_into_rtranclp)
next
  case (3 E d i w)
  then show ?case by simp
next
  case (4 E d obs rest i w)
  then have one: "svc_steps E w (svc_handle_notif E (notif_get_sink obs) i w)"
    by (intro "4.IH"(1)) (auto simp: obsrv_ok_def)
  have "svc_steps E (svc_handle_notif E (notif_get_sink obs) i w)
      (svc_notify E d rest i (svc_handle_notif E (notif_get_sink obs) i w))"
    using "4.prems" svc_steps_ok [OF one] steps_obsrv_ok [OF one] E
    by (intro "4.IH"(2)) (auto simp: obsrv_ok_def [of d w i obs])
  with one "4.prems" show ?case
    by (intro notify_steps) auto
next
  case (5 E i src w)
  then show ?case
    by (cases "s_handle_notif (svc_at w i)") (simp_all add: svc_handle_notif.simps)
next
  case (6 E i src w)
  then have "svc_wf (svc_at w i)"
    by (simp add: world_okD)
  with 6 show ?case
    by (auto simp: svc_handle_on_notif.simps svc_wf_def svc_may_start_asserts_def)
next
  case (7 E i src w)
  then have "svc_wf (svc_at w i)"
    by (simp add: world_okD)
  with 7 show ?case
    by (cases "s_state (svc_at w i)")
      (auto simp: svc_handle_off_notif.simps svc_wf_def svc_may_stop_asserts_def)
next
  case (8 E i w)
  let ?s = "svc_at w i"
  let ?mark = "\<not> s_start_cmd ?s < conf_get_start_cmd_nr (s_conf ?s)"
  show ?case
  proof (cases "svc_next_cmd ?s")
    case None
    let ?w = "upd_svc i (\<lambda>s. s\<lparr>s_child := -1\<rparr>) w"
    from None have next_cmd: "(if ?mark then conf_get_daemon (s_conf ?s)
        else Some (conf_get_start_cmd (s_conf ?s) (s_start_cmd ?s))) = None" and mark: ?mark
      and d: "conf_get_daemon (s_conf ?s) = None"
      by (auto simp: svc_next_cmd_def split: if_splits)
    have st: "svc_step E w ?w"
      using "8.prems" None by (intro No_daemon)
    have "svc_steps E ?w (svc_mark_ready E i ?w)"
      using "8.prems" E mark d svc_step_ok [OF st]
      by (intro "8.IH"(1) [OF refl refl refl next_cmd refl mark]) (auto simp: start_done_def)
    with st mark d show ?thesis
      by (simp add: svc_spawn_start_cmd.simps Let_def converse_rtranclp_into_rtranclp)
  next
    case (Some a)
    obtain pid w1 where sp: "svc_spawn E i a 1 w = (pid, w1)"
      by fastforce
    let ?w = "upd_svc i (\<lambda>s. s\<lparr>s_child := pid\<rparr>) w1"
    from Some have next_cmd: "(if ?mark then conf_get_daemon (s_conf ?s)
        else Some (conf_get_start_cmd (s_conf ?s) (s_start_cmd ?s))) = Some a"
      by (auto simp: svc_next_cmd_def split: if_splits)
    have st: "svc_step E w ?w"
      using "8.prems" Some sp by (intro Spawn_start)
    have more: "svc_steps E ?w (svc_mark_ready E i ?w)" if mark: ?mark and pid: "\<not> pid < 0"
      using "8.prems" E mark pid svc_step_ok [OF st] sp
      by (intro "8.IH"(2) [OF refl refl refl next_cmd sp [symmetric] refl pid mark])
        (auto simp: start_done_def)
    have eq: "svc_spawn_start_cmd E i w = (if pid < 0 then ?w else if ?mark then svc_mark_ready E i ?w else ?w)"
      using next_cmd sp by (simp add: svc_spawn_start_cmd.simps Let_def split: if_splits)
    show ?thesis
      unfolding eq using st more by (auto intro: converse_rtranclp_into_rtranclp)
  qed
next
  case (9 E i w)
  let ?w = "upd_svc i (\<lambda>s. s\<lparr>s_stop_cmd := s_stop_cmd s + 1\<rparr>) w"
  show ?case
  proof (cases "stop_done (svc_at w i)")
    case True
    then have d: "conf_get_stop_cmd_nr (s_conf (svc_at ?w i)) \<le> as_unsigned (s_stop_cmd (svc_at ?w i))"
      using "9.prems" by (simp add: stop_done_def)
    from "9.IH" [OF refl refl d, of w] "9.prems" True show ?thesis
      using d by (simp add: svc_spawn_stop_cmd.simps Let_def)
  next
    case False
    obtain pid w1 where sp: "svc_spawn E i (conf_get_stop_cmd (s_conf (svc_at w i))
        (as_unsigned (s_stop_cmd (svc_at w i) + 1))) 5 ?w = (pid, w1)"
      by fastforce
    have "svc_step E w (upd_svc i (\<lambda>s. s\<lparr>s_child := pid\<rparr>) w1)"
      using "9.prems" False sp by (intro Spawn_stop)
    with "9.prems" False sp show ?thesis
      by (auto simp: svc_spawn_stop_cmd.simps Let_def stop_done_def)
  qed
qed

text \<open>The two functions that spawn, as their callers use them.\<close>

lemmas svc_spawn_start_cmd_steps = svc_chain_steps(7) [OF _ refl]
  and svc_spawn_stop_cmd_steps = svc_chain_steps(8) [OF _ refl]

definition start_prefix :: "'k ext \<Rightarrow> svc_id \<Rightarrow> 'k world \<Rightarrow> 'k world" where
  "start_prefix E i w =
     upd_kern (x_timer_setup E i Svc_expire_on) (upd_svc i set_starting (tinit_log (Log_starting i) w))"

definition stop_prefix :: "'k ext \<Rightarrow> svc_id \<Rightarrow> 'k world \<Rightarrow> 'k world" where
  "stop_prefix E i w =
     upd_kern (x_timer_setup E i Svc_expire_off) (upd_svc i set_stopping (tinit_log (Log_stopping i) w))"

lemma svc_start_eq:
  "svc_start E i w =
     (if svc_may_start (start_prefix E i w) i then svc_spawn_start_cmd E i (start_prefix E i w)
      else start_prefix E i w)"
  by (simp add: svc_start_def start_prefix_def set_starting_def [abs_def] Let_def)

lemma svc_stop_eq:
  "svc_stop E i w =
     (if \<not> svc_may_stop (stop_prefix E i w) i then stop_prefix E i w
      else case svc_kill E i (conf_get_stop_sig (s_conf (svc_at (stop_prefix E i w) i))) (stop_prefix E i w) of
             (ret, w4) \<Rightarrow> if ret = 0 then upd_kern (x_timer_arm_sec E i 5) w4
                          else svc_spawn_stop_cmd E i w4)"
  by (simp add: svc_stop_def stop_prefix_def set_stopping_def [abs_def] Let_def)

lemma svc_start_steps:
  assumes E: "vfork_ok E" and ok: "world_ok w" and i: "is_svc w i"
  shows "svc_steps E w (svc_start E i w)"
proof -
  let ?w = "start_prefix E i w"
  have st: "svc_step E w ?w"
    unfolding start_prefix_def using i by (rule Start)
  have "svc_steps E ?w (svc_spawn_start_cmd E i ?w)"
    using i svc_step_ok [OF st E ok]
    by (intro svc_spawn_start_cmd_steps [OF E]) (simp_all add: start_prefix_def set_starting_def)
  with st show ?thesis
    by (auto simp: svc_start_eq intro: converse_rtranclp_into_rtranclp)
qed

lemma svc_kill_step: "is_svc w i \<Longrightarrow> svc_kill E i sig w = (r, w') \<Longrightarrow>
    svc_step E w w' \<and> svc_at w' j = svc_at w j \<and> is_svc w' j = is_svc w j"
  by (auto simp: svc_at_def is_svc_def dest: svc_kill_svcs intro: Kill)

lemma svc_stop_steps:
  assumes E: "vfork_ok E" and ok: "world_ok w" and i: "is_svc w i"
  shows "svc_steps E w (svc_stop E i w)"
proof -
  let ?w = "stop_prefix E i w"
  have st: "svc_step E w ?w"
    unfolding stop_prefix_def using i by (rule Stop)
  obtain r w4 where k: "svc_kill E i (conf_get_stop_sig (s_conf (svc_at ?w i))) ?w = (r, w4)"
    by fastforce
  have ki: "svc_step E ?w w4" "svc_at w4 i = svc_at ?w i" "is_svc w4 i"
    using svc_kill_step [OF _ k] i by (auto simp: stop_prefix_def)
  have "svc_steps E w4 (svc_spawn_stop_cmd E i w4)"
    using i ki svc_step_ok [OF ki(1) E svc_step_ok [OF st E ok]]
    by (intro svc_spawn_stop_cmd_steps [OF E]) (simp_all add: stop_prefix_def set_stopping_def)
  moreover have "svc_steps E w4 (upd_kern (x_timer_arm_sec E i 5) w4)"
    by (intro r_into_rtranclp Arm)
  ultimately show ?thesis
    using st ki(1) k
    by (auto simp: svc_stop_eq intro: converse_rtranclp_into_rtranclp)
qed

lemma svc_reload_steps:
  assumes "is_svc w i" "s_state (svc_at w i) = TINIT_SVC_READY_STAT" "0 < s_child (svc_at w i)"
  shows "svc_steps E w (svc_reload E i w)"
proof -
  obtain r w' where k: "svc_kill E i (conf_get_reload_sig (s_conf (svc_at w i)))
      (tinit_log (Log_reloading i) w) = (r, w')"
    by fastforce
  have "svc_step E w (tinit_log (Log_reloading i) w)"
    using assms(1) by (rule Reloading)
  moreover have "svc_step E (tinit_log (Log_reloading i) w) w'"
    using svc_kill_step [OF _ k] assms(1) by simp
  ultimately show ?thesis
    using assms k by (auto simp: svc_reload_def)
qed

lemma svc_respawn_steps:
  "vfork_ok E \<Longrightarrow> world_ok w \<Longrightarrow> is_svc w i \<Longrightarrow> s_state (svc_at w i) = TINIT_SVC_STARTING_STAT \<Longrightarrow>
     svc_steps E w (svc_respawn E i w)"
  unfolding svc_respawn_def by (rule svc_spawn_start_cmd_steps)

lemma svc_respawn_after:
  assumes E: "vfork_ok E" and ok: "world_ok w" and st: "svc_step E w w'"
    and "is_svc w' i" "s_state (svc_at w' i) = TINIT_SVC_STARTING_STAT"
  shows "svc_steps E w (svc_respawn E i w')"
  by (rule converse_rtranclp_into_rtranclp [of "svc_step E", OF st])
    (rule svc_respawn_steps [OF E svc_step_ok [OF st E ok] assms(4,5)])

text \<open>
  An exit event is for a service the repository found by the pid of its child, so never for a
  stopped one.
\<close>

definition evt_expected :: "svc \<Rightarrow> svc_evt \<Rightarrow> bool" where
  "evt_expected s evt \<longleftrightarrow> (evt = SVC_EXIT_EVT \<longrightarrow> s_state s \<noteq> TINIT_SVC_STOPPED_STAT)"

lemma svc_handle_on_evts_steps:
  assumes E: "vfork_ok E" and ok: "world_ok w" and i: "is_svc w i"
    and h: "s_handle_evts (svc_at w i) = Handle_on"
  shows "svc_steps E w (svc_handle_on_evts E i evt status w)"
proof -
  have "svc_wf (svc_at w i)"
    using ok i by (simp add: world_okD)
  then consider (starting) "s_state (svc_at w i) = TINIT_SVC_STARTING_STAT"
    | (ready) "s_state (svc_at w i) = TINIT_SVC_READY_STAT"
    using h by (auto simp: svc_wf_def)
  then show ?thesis
  proof cases
    case starting
    have "svc_steps E w (svc_respawn E i (upd_svc i (\<lambda>s. s\<lparr>s_start_cmd := Suc (s_start_cmd s)\<rparr>) w))"
      using i starting by (intro svc_respawn_after [OF E ok Next]) simp_all
    with starting E ok i show ?thesis
      by (cases evt)
        (simp_all add: svc_handle_on_evts_def svc_stop_steps svc_respawn_steps Lost [THEN steps_one])
  next
    case ready
    have "svc_steps E w (svc_respawn E i (upd_svc i (\<lambda>s. s\<lparr>s_state := TINIT_SVC_STARTING_STAT\<rparr>) w))"
      using i ready by (intro svc_respawn_after [OF E ok Again]) simp_all
    with ready E ok i show ?thesis
      by (cases evt)
        (simp_all add: svc_handle_on_evts_def svc_stop_steps Lost [THEN steps_one])
  qed
qed

lemma svc_handle_off_evts_steps:
  assumes E: "vfork_ok E" and ok: "world_ok w" and i: "is_svc w i"
    and h: "s_handle_evts (svc_at w i) = Handle_off" and evt: "evt_expected (svc_at w i) evt"
  shows "svc_steps E w (svc_handle_off_evts E i evt status w)"
proof -
  have "svc_wf (svc_at w i)"
    using ok i by (simp add: world_okD)
  then consider (stopped) "s_state (svc_at w i) = TINIT_SVC_STOPPED_STAT"
    | (stopping) "s_state (svc_at w i) = TINIT_SVC_STOPPING_STAT"
    using h by (cases "s_state (svc_at w i)") (auto simp: svc_wf_def)
  then show ?thesis
    using E ok i evt
    by cases (cases evt;
        simp add: svc_handle_off_evts_def evt_expected_def svc_start_steps svc_spawn_stop_cmd_steps)+
qed

lemma svc_handle_evts_steps:
  assumes "vfork_ok E" "world_ok w" "is_svc w i" "evt_expected (svc_at w i) evt"
  shows "svc_steps E w (svc_handle_evts E i evt status w)"
  using assms
  by (simp add: svc_handle_evts_def svc_handle_on_evts_steps svc_handle_off_evts_steps split: handler.splits)

text \<open>The registered callback always fits the state: \<open>svc_start\<close> and \<open>svc_stop\<close> set both.\<close>

definition expire_expected :: "svc \<Rightarrow> expire_cb \<Rightarrow> bool" where
  "expire_expected s cb \<longleftrightarrow>
     (cb = Svc_expire_on \<longleftrightarrow> s_handle_notif s = Handle_on)"

lemma svc_expire_steps:
  assumes E: "vfork_ok E" and ok: "world_ok w" and i: "is_svc w i"
    and cb: "expire_expected (svc_at w i) cb"
  shows "svc_steps E w (svc_expire E cb i w)"
proof -
  have wf: "svc_wf (svc_at w i)"
    using ok i by (simp add: world_okD)
  obtain r w1 where k: "svc_kill E i SIGKILL w = (r, w1)"
    by fastforce
  have ki: "svc_step E w w1" "svc_at w1 i = svc_at w i" "is_svc w1 i"
    using svc_kill_step [OF i k] i by auto
  have "svc_steps E w (svc_spawn_stop_cmd E i w1)"
    if "s_state (svc_at w i) = TINIT_SVC_STOPPING_STAT"
    using that ki svc_step_ok [OF ki(1) E ok]
    by (intro converse_rtranclp_into_rtranclp [of "svc_step E", OF ki(1)] svc_spawn_stop_cmd_steps [OF E])
      simp_all
  then show ?thesis
    using wf cb k ki(1) E ok i
    by (cases cb; cases "s_state (svc_at w i)")
      (auto simp: svc_expire_def svc_expire_on_def svc_expire_off_def expire_expected_def svc_wf_def
        svc_respawn_steps)
qed

end
