(* ===== verification/Svc_Inv.thy ===== *)
theory Svc_Inv imports Svc_Step begin

text \<open>
  The interface through which targets, the signal channel and the control server use supervision.
  \<open>svc_ops\<close> states it: a relation between the world before and the world after that every
  operation of \<open>svc.c\<close> respects; the clients extend the locale with their own loops.
  \<open>svc_preserved\<close> gives the contract for whatever every single step keeps. It is interpreted on
  four relations: the frame of what is never written, well-formedness, the truth of the log and the
  completion of the start sequence.
\<close>

section \<open>The contract of the operations\<close>

locale svc_ops =
  fixes laws :: "'k ext \<Rightarrow> bool"
    and R :: "'k ext \<Rightarrow> 'k world \<Rightarrow> 'k world \<Rightarrow> bool"
  assumes laws_vfork: "laws E \<Longrightarrow> vfork_ok E"
    and R_refl: "R E w w"
    and R_trans: "R E w w1 \<Longrightarrow> R E w1 w2 \<Longrightarrow> R E w w2"
    and start: "laws E \<Longrightarrow> world_ok w \<Longrightarrow> is_svc w i \<Longrightarrow> R E w (svc_start E i w)"
    and stop: "laws E \<Longrightarrow> world_ok w \<Longrightarrow> is_svc w i \<Longrightarrow> R E w (svc_stop E i w)"
    and reload: "laws E \<Longrightarrow> world_ok w \<Longrightarrow> is_svc w i \<Longrightarrow>
      s_state (svc_at w i) = TINIT_SVC_READY_STAT \<Longrightarrow> 0 < s_child (svc_at w i) \<Longrightarrow>
      R E w (svc_reload E i w)"
    and evts: "laws E \<Longrightarrow> world_ok w \<Longrightarrow> is_svc w i \<Longrightarrow> evt_expected (svc_at w i) evt \<Longrightarrow>
      R E w (svc_handle_evts E i evt status w)"
    and expire: "laws E \<Longrightarrow> world_ok w \<Longrightarrow> is_svc w i \<Longrightarrow> expire_expected (svc_at w i) cb \<Longrightarrow>
      R E w (svc_expire E cb i w)"

section \<open>What every step keeps\<close>

locale svc_preserved =
  fixes S :: "'k world \<Rightarrow> 'k world \<Rightarrow> bool"
  assumes S_refl: "S w w"
    and S_trans: "S w w1 \<Longrightarrow> S w1 w2 \<Longrightarrow> S w w2"
    and S_step: "vfork_ok E \<Longrightarrow> world_ok w \<Longrightarrow> svc_step E w w' \<Longrightarrow> S w w'"
begin

lemma steps: "svc_steps E w w' \<Longrightarrow> vfork_ok E \<Longrightarrow> world_ok w \<Longrightarrow> S w w'"
proof (induction rule: rtranclp_induct)
  case base
  show ?case by (rule S_refl)
next
  case (step w1 w2)
  then show ?case
    using svc_steps_ok [OF step.hyps(1)] by (blast intro: S_trans S_step)
qed

end

sublocale svc_preserved \<subseteq> ops: svc_ops vfork_ok "\<lambda>_. S"
  by unfold_locales
    (auto intro: S_refl S_trans steps svc_start_steps svc_stop_steps svc_reload_steps
      svc_handle_evts_steps svc_expire_steps)

section \<open>Frame and well-formedness\<close>

interpretation frame: svc_preserved "\<lambda>w w'. statics w' = statics w"
  by unfold_locales (simp_all add: svc_step_statics)

interpretation wf: svc_preserved "\<lambda>w w'. world_ok w \<longrightarrow> world_ok w'"
  by unfold_locales (auto dest: svc_step_ok)

section \<open>The log tells the truth\<close>

fun state_msg :: "log_msg \<Rightarrow> (svc_id \<times> svc_state) option" where
  "state_msg (Log_starting i) = Some (i, TINIT_SVC_STARTING_STAT)"
| "state_msg (Log_ready i) = Some (i, TINIT_SVC_READY_STAT)"
| "state_msg (Log_stopping i) = Some (i, TINIT_SVC_STOPPING_STAT)"
| "state_msg (Log_stopped i) = Some (i, TINIT_SVC_STOPPED_STAT)"
| "state_msg _ = None"

text \<open>The state a reader of the log believes service \<open>i\<close> to be in, and the messages in order.\<close>

fun logged :: "svc_id \<Rightarrow> log_msg list \<Rightarrow> svc_state" where
  "logged i [] = TINIT_SVC_STOPPED_STAT"
| "logged i (m # ms) = (case state_msg m of
      Some (j, st) \<Rightarrow> if j = i then st else logged i ms
    | None \<Rightarrow> logged i ms)"

fun msg_allowed :: "log_msg \<Rightarrow> log_msg list \<Rightarrow> bool" where
  "msg_allowed (Log_ready i) ms =
     (logged i ms = TINIT_SVC_STARTING_STAT \<or> logged i ms = TINIT_SVC_READY_STAT)"
| "msg_allowed (Log_stopped i) ms = (logged i ms = TINIT_SVC_STOPPING_STAT)"
| "msg_allowed _ ms = True"

fun log_ordered :: "log_msg list \<Rightarrow> bool" where
  "log_ordered [] = True"
| "log_ordered (m # ms) = (msg_allowed m ms \<and> log_ordered ms)"

text \<open>A ready service that is respawned is starting again without a message of its own.\<close>

definition state_told :: "svc_state \<Rightarrow> svc_state \<Rightarrow> bool" where
  "state_told st told \<longleftrightarrow> st = told \<or>
     st = TINIT_SVC_STARTING_STAT \<and> told = TINIT_SVC_READY_STAT"

definition log_true :: "'k world \<Rightarrow> bool" where
  "log_true w \<longleftrightarrow> log_ordered (w_log w) \<and>
     (\<forall>i. is_svc w i \<longrightarrow> state_told (s_state (svc_at w i)) (logged i (w_log w)))"

lemma logged_other [simp]:
  "logged j (Log_spawned i a p # ms) = logged j ms"
  "logged j (Log_cannot_spawn i a e # ms) = logged j ms"
  "logged j (Log_reloading i # ms) = logged j ms"
  by simp_all

lemma svc_spawn_log:
  assumes "svc_spawn E i a t w = (pid, w')"
  shows "logged j (w_log w') = logged j (w_log w)" "log_ordered (w_log w') = log_ordered (w_log w)"
  using assms unfolding svc_spawn_def
  by (auto simp del: logged.simps split: if_split_asm prod.split_asm sum.split_asm)

lemma log_true_upd:
  assumes "log_true w" "is_svc w i \<Longrightarrow> state_told (s_state (f (svc_at w i))) (logged i (w_log w))"
  shows "log_true (upd_svc i f w)"
  using assms by (auto simp: log_true_def svc_at_upd)

lemma log_true_spawn: "svc_spawn E i a t w = (pid, w') \<Longrightarrow> log_true w' = log_true w"
  by (simp add: log_true_def svc_spawn_log)

lemma log_true_kern [simp]: "log_true (upd_kern g w) = log_true w"
  by (simp add: log_true_def)

lemma log_true_told:
  "log_true w \<Longrightarrow> is_svc w i \<Longrightarrow> s_state (svc_at w i) = st \<Longrightarrow> state_told st (logged i (w_log w))"
  by (auto simp: log_true_def)

lemma svc_step_log_true: "svc_step E w w' \<Longrightarrow> log_true w \<Longrightarrow> log_true w'"
proof (induction rule: svc_step.induct)
  case (Kill w i sig ret w')
  then show ?case
    by (auto simp: log_true_def is_svc_def svc_at_def dest: svc_kill_svcs)
next
  case (Spawn_start w i a pid w')
  then show ?case
    by (intro log_true_upd) (auto simp: log_true_spawn svc_spawn_log [OF Spawn_start(4)] log_true_told)
next
  case (Spawn_stop w i pid w')
  then have "log_true (upd_svc i (\<lambda>s. s\<lparr>s_stop_cmd := s_stop_cmd s + 1\<rparr>) w)"
    by (intro log_true_upd) (auto simp: log_true_told)
  with Spawn_stop show ?case
    by (intro log_true_upd) (auto simp: log_true_spawn log_true_told svc_spawn_log(1) [OF Spawn_stop(4)])
qed (auto simp: log_true_def svc_at_upd state_told_def set_starting_def set_stopping_def)

interpretation truth: svc_preserved "\<lambda>w w'. log_true w \<longrightarrow> log_true w'"
  by unfold_locales (auto dest: svc_step_log_true)

section \<open>A ready service has been through its start sequence\<close>

definition ready_started :: "'k world \<Rightarrow> bool" where
  "ready_started w \<longleftrightarrow> (\<forall>i. is_svc w i \<longrightarrow> s_state (svc_at w i) = TINIT_SVC_READY_STAT \<longrightarrow>
     conf_get_start_cmd_nr (s_conf (svc_at w i)) \<le> s_start_cmd (svc_at w i))"

lemma ready_started_upd:
  assumes "ready_started w"
    and "is_svc w i \<Longrightarrow> s_state (f (svc_at w i)) = TINIT_SVC_READY_STAT \<Longrightarrow>
      conf_get_start_cmd_nr (s_conf (f (svc_at w i))) \<le> s_start_cmd (f (svc_at w i))"
  shows "ready_started (upd_svc i f w)"
  using assms by (auto simp: ready_started_def svc_at_upd)

lemma ready_startedD:
  "ready_started w \<Longrightarrow> is_svc w i \<Longrightarrow> s_state (svc_at w i) = TINIT_SVC_READY_STAT \<Longrightarrow>
     conf_get_start_cmd_nr (s_conf (svc_at w i)) \<le> s_start_cmd (svc_at w i)"
  by (simp add: ready_started_def)

lemma ready_started_simps [simp]:
  "ready_started (upd_kern g w) = ready_started w" "ready_started (tinit_log m w) = ready_started w"
  by (simp_all add: ready_started_def)

lemma ready_started_spawn: "svc_spawn E i a t w = (pid, w') \<Longrightarrow> ready_started w' = ready_started w"
  by (simp add: ready_started_def)

lemma svc_step_ready_started: "svc_step E w w' \<Longrightarrow> ready_started w \<Longrightarrow> ready_started w'"
proof (induction rule: svc_step.induct)
  case (Kill w i sig ret w')
  then show ?case
    by (auto simp: ready_started_def is_svc_def svc_at_def dest: svc_kill_svcs)
next
  case (Spawn_stop w i pid w')
  then have "ready_started (upd_svc i (\<lambda>s. s\<lparr>s_stop_cmd := s_stop_cmd s + 1\<rparr>) w)"
    by (intro ready_started_upd) auto
  with Spawn_stop show ?case
    by (intro ready_started_upd) (auto simp: ready_started_spawn)
qed (auto simp: ready_started_spawn set_starting_def set_stopping_def start_done_def upd_svc_twice
      intro!: ready_started_upd dest: ready_startedD)

interpretation started: svc_preserved "\<lambda>w w'. ready_started w \<longrightarrow> ready_started w'"
  by unfold_locales (auto dest: svc_step_ready_started)

end
