(* ===== verification/Svc_Chain.thy ===== *)
theory Svc_Chain imports Svc_Step begin

text \<open>
  Induction over a chain of notifications. The equations here restate the mutually recursive
  functions of \<open>svc.c\<close> with their straight-line parts named (one attempt to spawn a start command,
  one step of the stop sequence), and \<open>svc_chain_rule\<close> is the induction rule in the same terms.
  Two first uses: a chain writes no link or configuration, and leaves ready and stopped services
  alone.
\<close>

definition stopped_world :: "svc_id \<Rightarrow> 'k world \<Rightarrow> 'k world" where
  "stopped_world i w =
     tinit_log (Log_stopped i) (upd_svc i (\<lambda>s. s\<lparr>s_child := -1, s_state := TINIT_SVC_STOPPED_STAT\<rparr>) w)"

definition ready_world :: "svc_id \<Rightarrow> 'k world \<Rightarrow> 'k world" where
  "ready_world i w = tinit_log (Log_ready i) (upd_svc i (\<lambda>s. s\<lparr>s_state := TINIT_SVC_READY_STAT\<rparr>) w)"

text \<open>The attempt to spawn the next start command, and whether the service is ready after it.\<close>

definition start_attempt :: "'k ext \<Rightarrow> svc_id \<Rightarrow> 'k world \<Rightarrow> 'k world \<times> bool" where
  "start_attempt E i w = (case svc_next_cmd (svc_at w i) of
       None \<Rightarrow> (upd_svc i (\<lambda>s. s\<lparr>s_child := -1\<rparr>) w, True)
     | Some a \<Rightarrow> (case svc_spawn E i a 1 w of (pid, w1) \<Rightarrow>
         (upd_svc i (\<lambda>s. s\<lparr>s_child := pid\<rparr>) w1,
          0 \<le> pid \<and> \<not> s_start_cmd (svc_at w i) < conf_get_start_cmd_nr (s_conf (svc_at w i)))))"

definition next_stop :: "svc_id \<Rightarrow> 'k world \<Rightarrow> 'k world" where
  "next_stop i w = upd_svc i (\<lambda>s. s\<lparr>s_stop_cmd := s_stop_cmd s + 1\<rparr>) w"

definition stop_over :: "svc_id \<Rightarrow> 'k world \<Rightarrow> bool" where
  "stop_over i w \<longleftrightarrow>
     conf_get_stop_cmd_nr (s_conf (svc_at (next_stop i w) i)) \<le> as_unsigned (s_stop_cmd (svc_at (next_stop i w) i))"

definition stop_attempt :: "'k ext \<Rightarrow> svc_id \<Rightarrow> 'k world \<Rightarrow> 'k world" where
  "stop_attempt E i w =
     (case svc_spawn E i (conf_get_stop_cmd (s_conf (svc_at (next_stop i w) i))
                (as_unsigned (s_stop_cmd (svc_at (next_stop i w) i)))) 5 (next_stop i w) of
        (pid, w1) \<Rightarrow> upd_svc i (\<lambda>s. s\<lparr>s_child := pid\<rparr>) w1)"

lemma svc_chain_eqs:
  "svc_mark_stopped E i w =
     svc_notify E Stopon (s_stopon_obsrv (svc_at (stopped_world i w) i)) i (stopped_world i w)"
  "svc_mark_ready E i w =
     svc_notify E Starton (s_starton_obsrv (svc_at (ready_world i w) i)) i (ready_world i w)"
  "svc_spawn_start_cmd E i w = (case start_attempt E i w of
     (w1, done) \<Rightarrow> if done then svc_mark_ready E i w1 else w1)"
  "svc_spawn_stop_cmd E i w =
     (if stop_over i w then svc_mark_stopped E i (next_stop i w) else stop_attempt E i w)"
  by (simp_all add: svc_mark_stopped.simps svc_mark_ready.simps svc_spawn_start_cmd.simps
      svc_spawn_stop_cmd.simps stopped_world_def ready_world_def start_attempt_def next_stop_def
      stop_over_def stop_attempt_def svc_next_cmd_def Let_def split: prod.splits option.splits)

lemmas svc_notif_simps = svc_handle_notif.simps svc_handle_on_notif.simps svc_handle_off_notif.simps

lemma svc_chain_rule:
  fixes E :: "'k ext"
  assumes
    "\<And>i w. P3 Stopon (s_stopon_obsrv (svc_at (stopped_world i w) i)) i (stopped_world i w) \<Longrightarrow> P1 i w"
    "\<And>i w. P3 Starton (s_starton_obsrv (svc_at (ready_world i w) i)) i (ready_world i w) \<Longrightarrow> P2 i w"
    "\<And>d i w. P3 d [] i w"
    "\<And>d obs rest i w.
      (notif_get_src w d obs = Some i \<Longrightarrow> P4 (notif_get_sink obs) i w) \<Longrightarrow>
      (notif_get_src w d obs = Some i \<Longrightarrow>
        P3 d rest i (svc_handle_notif E (notif_get_sink obs) i w)) \<Longrightarrow>
      P3 d (obs # rest) i w"
    "\<And>i src w. (is_svc w i \<Longrightarrow> s_handle_notif (svc_at w i) = Handle_on \<Longrightarrow> P5 i src w) \<Longrightarrow>
      (is_svc w i \<Longrightarrow> s_handle_notif (svc_at w i) = Handle_off \<Longrightarrow> P6 i src w) \<Longrightarrow> P4 i src w"
    "\<And>i src w. (is_svc w i \<Longrightarrow> s_state (svc_at w i) = TINIT_SVC_STARTING_STAT \<Longrightarrow>
        s_state (svc_at w src) = TINIT_SVC_READY_STAT \<Longrightarrow> svc_may_start_asserts w i \<Longrightarrow>
        svc_may_start w i \<Longrightarrow> P7 i w) \<Longrightarrow>
      P5 i src w"
    "\<And>i src w. (is_svc w i \<Longrightarrow> s_state (svc_at w i) = TINIT_SVC_STOPPING_STAT \<Longrightarrow>
        s_state (svc_at w src) = TINIT_SVC_STOPPED_STAT \<Longrightarrow> svc_may_stop_asserts w i \<Longrightarrow>
        svc_may_stop w i \<Longrightarrow> P8 i w) \<Longrightarrow>
      P6 i src w"
    "\<And>i w. (\<And>w1. start_attempt E i w = (w1, True) \<Longrightarrow> P2 i w1) \<Longrightarrow> P7 i w"
    "\<And>i w. (stop_over i w \<Longrightarrow> P1 i (next_stop i w)) \<Longrightarrow> P8 i w"
  shows "P1 i1 w1" "P2 i2 w2" "P3 d3 obs3 i3 w3" "P4 i4 src4 w4" "P5 i5 src5 w5" "P6 i6 src6 w6"
    "P7 i7 w7" "P8 i8 w8"
proof -
  have "E' = E \<longrightarrow> P1 i1 w1" "E' = E \<longrightarrow> P2 i2 w2" "E' = E \<longrightarrow> P3 d3 obs3 i3 w3"
    "E' = E \<longrightarrow> P4 i4 src4 w4" "E' = E \<longrightarrow> P5 i5 src5 w5" "E' = E \<longrightarrow> P6 i6 src6 w6"
    "E' = E \<longrightarrow> P7 i7 w7" "E' = E \<longrightarrow> P8 i8 w8" for E'
  proof (induction E' i1 w1 and E' i2 w2 and E' d3 obs3 i3 w3 and E' i4 src4 w4 and E' i5 src5 w5
      and E' i6 src6 w6 and E' i7 w7 and E' i8 w8 rule: svc_chain_induct)
    case (1 E' i w)
    then show ?case
      using assms(1) by (simp add: stopped_world_def)
  next
    case (2 E' i w)
    then show ?case
      using assms(2) by (simp add: ready_world_def)
  next
    case (3 E' d i w)
    then show ?case
      using assms(3) by simp
  next
    case (4 E' d obs rest i w)
    then show ?case
      using assms(4) by auto
  next
    case (5 E' i src w)
    then show ?case
      using assms(5) by auto
  next
    case (6 E' i src w)
    have "P5 i src w" if "E' = E"
      by (rule assms(6)) (use 6 that in simp)
    then show ?case by simp
  next
    case (7 E' i src w)
    have "P6 i src w" if "E' = E"
      by (rule assms(7)) (use 7 that in simp)
    then show ?case by simp
  next
    case (8 E' i w)
    have "P7 i w" if E': "E' = E"
    proof (rule assms(8))
      fix w1
      assume w1: "start_attempt E i w = (w1, True)"
      let ?s = "svc_at w i"
      let ?mark = "\<not> s_start_cmd ?s < conf_get_start_cmd_nr (s_conf ?s)"
      have cmd: "(if ?mark then conf_get_daemon (s_conf ?s)
          else Some (conf_get_start_cmd (s_conf ?s) (s_start_cmd ?s))) = svc_next_cmd ?s"
        by (simp add: svc_next_cmd_def)
      show "P2 i w1"
      proof (cases "svc_next_cmd ?s")
        case None
        then have mark: ?mark
          by (auto simp: svc_next_cmd_def)
        show ?thesis
          using 8(1) [OF refl refl refl cmd [unfolded None] refl mark] w1 None E'
          by (simp add: start_attempt_def)
      next
        case (Some a)
        obtain pid w2 where sp: "svc_spawn E i a 1 w = (pid, w2)"
          by fastforce
        from w1 Some sp have mark: ?mark and pid: "\<not> pid < 0" and w1: "w1 = upd_svc i (\<lambda>s. s\<lparr>s_child := pid\<rparr>) w2"
          by (simp_all add: start_attempt_def)
        show ?thesis
          using 8(2) [OF refl refl refl cmd [unfolded Some] sp [folded E', symmetric] refl pid mark] w1 E'
          by simp
      qed
    qed
    then show ?case by simp
  next
    case (9 E' i w)
    have "P8 i w" if "E' = E"
      by (rule assms(9)) (use 9 that in \<open>simp add: stop_over_def next_stop_def\<close>)
    then show ?case by simp
  qed
  from this [of E] show "P1 i1 w1" "P2 i2 w2" "P3 d3 obs3 i3 w3" "P4 i4 src4 w4" "P5 i5 src5 w5"
    "P6 i6 src6 w6" "P7 i7 w7" "P8 i8 w8"
    by simp_all
qed

section \<open>What a chain leaves alone\<close>

lemma statics_attempts:
  "statics (stopped_world i w) = statics w" "statics (ready_world i w) = statics w"
  "statics (fst (start_attempt E i w)) = statics w" "statics (next_stop i w) = statics w"
  "statics (stop_attempt E i w) = statics w"
  by (auto simp: stopped_world_def ready_world_def start_attempt_def next_stop_def stop_attempt_def
      svc_static_def statics_upd statics_spawn split: option.splits prod.splits)

lemma attempts_other:
  assumes "j \<noteq> i"
  shows "svc_at (stopped_world i w) j = svc_at w j" "svc_at (ready_world i w) j = svc_at w j"
    "svc_at (fst (start_attempt E i w)) j = svc_at w j" "svc_at (next_stop i w) j = svc_at w j"
    "svc_at (stop_attempt E i w) j = svc_at w j"
  using assms
  by (auto simp: stopped_world_def ready_world_def start_attempt_def next_stop_def stop_attempt_def
      split: option.splits prod.splits)

lemma is_svc_attempts [simp]:
  "is_svc (stopped_world i w) j = is_svc w j" "is_svc (ready_world i w) j = is_svc w j"
  "is_svc (fst (start_attempt E i w)) j = is_svc w j" "is_svc (next_stop i w) j = is_svc w j"
  "is_svc (stop_attempt E i w) j = is_svc w j"
  by (rule statics_is_svc, rule statics_attempts)+

lemma svc_chain_statics:
  "statics (svc_mark_stopped E i w) = statics w"
  "statics (svc_mark_ready E i w) = statics w"
  "statics (svc_notify E d obs i w) = statics w"
  "statics (svc_handle_notif E i src w) = statics w"
  "statics (svc_handle_on_notif E i src w) = statics w"
  "statics (svc_handle_off_notif E i src w) = statics w"
  "statics (svc_spawn_start_cmd E i w) = statics w"
  "statics (svc_spawn_stop_cmd E i w) = statics w"
proof (induction i w and i w and d obs i w and i src w and i src w and i src w and i w and i w
    rule: svc_chain_rule [where E = E])
  case (8 i w)
  then show ?case
    using statics_attempts(3) [of E i w] by (auto simp: svc_chain_eqs split: prod.splits)
qed (simp_all add: svc_chain_eqs svc_notif_simps statics_attempts split: handler.splits)

text \<open>A service that is ready or stopped is touched only by its own mark.\<close>

lemma svc_chain_quiet:
  "j \<noteq> i \<Longrightarrow> \<not> is_transient (svc_at w j) \<Longrightarrow> svc_at (svc_mark_stopped E i w) j = svc_at w j"
  "j \<noteq> i \<Longrightarrow> \<not> is_transient (svc_at w j) \<Longrightarrow> svc_at (svc_mark_ready E i w) j = svc_at w j"
  "\<not> is_transient (svc_at w j) \<Longrightarrow> svc_at (svc_notify E d obs i w) j = svc_at w j"
  "\<not> is_transient (svc_at w j) \<Longrightarrow> svc_at (svc_handle_notif E i src w) j = svc_at w j"
  "\<not> is_transient (svc_at w j) \<Longrightarrow> svc_at (svc_handle_on_notif E i src w) j = svc_at w j"
  "\<not> is_transient (svc_at w j) \<Longrightarrow> svc_at (svc_handle_off_notif E i src w) j = svc_at w j"
  "j \<noteq> i \<Longrightarrow> \<not> is_transient (svc_at w j) \<Longrightarrow> svc_at (svc_spawn_start_cmd E i w) j = svc_at w j"
  "j \<noteq> i \<Longrightarrow> \<not> is_transient (svc_at w j) \<Longrightarrow> svc_at (svc_spawn_stop_cmd E i w) j = svc_at w j"
proof (induction i w and i w and d obs i w and i src w and i src w and i src w and i w and i w
    rule: svc_chain_rule [where E = E])
  case (6 i src w)
  have "j = i \<Longrightarrow> s_state (svc_at w i) \<noteq> TINIT_SVC_STARTING_STAT"
    using 6(2) by (auto simp: is_transient_def)
  with 6 show ?case
    unfolding svc_handle_on_notif.simps by (simp split: if_split) blast
next
  case (7 i src w)
  have "j = i \<Longrightarrow> s_state (svc_at w i) \<noteq> TINIT_SVC_STOPPING_STAT"
    using 7(2) by (auto simp: is_transient_def)
  with 7 show ?case
    unfolding svc_handle_off_notif.simps by (simp split: if_split) blast
next
  case (8 i w)
  then show ?case
    using attempts_other(3) [of j i E w] by (auto simp: svc_chain_eqs split: prod.splits)
qed (simp_all add: svc_chain_eqs svc_handle_notif.simps attempts_other split: handler.splits)

text \<open>A chain starts no service and turns no handler.\<close>

definition calm :: "'k world \<Rightarrow> 'k world \<Rightarrow> bool" where
  "calm w w' \<longleftrightarrow> (\<forall>j. is_svc w' j = is_svc w j \<and>
     s_handle_evts (svc_at w' j) = s_handle_evts (svc_at w j) \<and>
     s_handle_notif (svc_at w' j) = s_handle_notif (svc_at w j) \<and>
     (s_state (svc_at w' j) = TINIT_SVC_STARTING_STAT \<longrightarrow> s_state (svc_at w j) = TINIT_SVC_STARTING_STAT))"

lemma calm_refl [simp]: "calm w w" "calm w (fault w)"
  by (simp_all add: calm_def)

lemma calm_trans: "calm w w1 \<Longrightarrow> calm w1 w2 \<Longrightarrow> calm w w2"
  by (simp add: calm_def)

lemma calm_attempts:
  "calm w (stopped_world i w)" "calm w (ready_world i w)" "calm w (fst (start_attempt E i w))"
  "calm w (next_stop i w)" "calm w (stop_attempt E i w)"
  by (auto simp: calm_def stopped_world_def ready_world_def start_attempt_def next_stop_def
      stop_attempt_def svc_at_upd split: option.splits prod.splits)

lemma svc_chain_calm:
  "calm w (svc_mark_stopped E i w)" "calm w (svc_mark_ready E i w)"
  "calm w (svc_notify E d obs i w)" "calm w (svc_handle_notif E i src w)"
  "calm w (svc_handle_on_notif E i src w)" "calm w (svc_handle_off_notif E i src w)"
  "calm w (svc_spawn_start_cmd E i w)" "calm w (svc_spawn_stop_cmd E i w)"
proof (induction i w and i w and d obs i w and i src w and i src w and i src w and i w and i w
    rule: svc_chain_rule [where E = E])
  case (1 i w)
  then show ?case
    unfolding svc_chain_eqs by (rule calm_trans [OF calm_attempts(1)])
next
  case (2 i w)
  then show ?case
    unfolding svc_chain_eqs by (rule calm_trans [OF calm_attempts(2)])
next
  case (4 d obs rest i w)
  then show ?case
    using calm_trans by (auto simp del: calm_refl simp: calm_refl(2))
next
  case (8 i w)
  show ?case
  proof (cases "start_attempt E i w")
    case (Pair w1 fin)
    then have "calm w w1"
      using calm_attempts(3) [of w E i] by simp
    with 8 Pair show ?thesis
      using calm_trans [of w w1] by (simp add: svc_chain_eqs)
  qed
next
  case (9 i w)
  then show ?case
    using calm_trans [OF calm_attempts(4)] by (auto simp: svc_chain_eqs(4) calm_attempts)
qed (simp_all add: svc_notif_simps split: handler.split)

end
