(* ===== verification/Svc_Wakeup.thy ===== *)
theory Svc_Wakeup imports Svc_Inv Svc_Chain begin

text \<open>
  No wakeup is lost. A service that is starting may wait for its start-on services, for a child to
  exit or for its timer. \<open>stuck\<close> is a starting service that waits for none of them. No operation
  of \<open>svc.c\<close> leaves a service stuck that was not stuck before: whenever the last awaited service
  becomes ready, the notification reaches the waiting one, whatever chain of notifications runs
  in between, and the timer's callback frees the service whose timer fired.
\<close>

definition stuck :: "'k ext \<Rightarrow> 'k world \<Rightarrow> svc_id \<Rightarrow> bool" where
  "stuck E w i \<longleftrightarrow> is_svc w i \<and> s_state (svc_at w i) = TINIT_SVC_STARTING_STAT \<and>
     s_child (svc_at w i) = -1 \<and> svc_may_start w i \<and> \<not> x_timer_is_armed E i (w_kern w)"

text \<open>
  The laws of the timer library and of \<open>vfork(2)\<close>: arming a timer leaves it armed; nothing disarms
  the timer of another service; a failing \<open>vfork\<close> reports one of its documented errors, none of
  which is 1.
\<close>

definition timer_laws :: "'k ext \<Rightarrow> bool" where
  "timer_laws E \<longleftrightarrow> vfork_ok E \<and>
     (\<forall>j k err k'. x_vfork E j k = (Inl err, k') \<longrightarrow> err \<noteq> EPERM) \<and>
     (\<forall>j k i. x_timer_is_armed E i k \<longrightarrow> x_timer_is_armed E i (snd (x_vfork E j k))) \<and>
     (\<forall>p s k i. x_timer_is_armed E i k \<longrightarrow> x_timer_is_armed E i (snd (x_kill E p s k))) \<and>
     (\<forall>i j cb k. i \<noteq> j \<longrightarrow> x_timer_is_armed E i k \<longrightarrow> x_timer_is_armed E i (x_timer_setup E j cb k)) \<and>
     (\<forall>i j n k. i = j \<or> x_timer_is_armed E i k \<longrightarrow> x_timer_is_armed E i (x_timer_arm_sec E j n k))"

lemma timer_lawsD:
  assumes "timer_laws E"
  shows "vfork_ok E" "x_vfork E jb k = (Inl err, k') \<Longrightarrow> err \<noteq> EPERM"
    "x_timer_is_armed E i k \<Longrightarrow> x_timer_is_armed E i (snd (x_vfork E jb k))"
    "x_timer_is_armed E i k \<Longrightarrow> x_timer_is_armed E i (snd (x_kill E p sig k))"
    "i \<noteq> j \<Longrightarrow> x_timer_is_armed E i k \<Longrightarrow> x_timer_is_armed E i (x_timer_setup E j cb k)"
    "i = j \<or> x_timer_is_armed E i k \<Longrightarrow> x_timer_is_armed E i (x_timer_arm_sec E j n k)"
  using assms by (auto simp: timer_laws_def)

section \<open>What starting waits for\<close>

lemma poll_pending_zero:
  "\<forall>s \<in> set ss. s \<noteq> None \<Longrightarrow>
     poll_pending w st ss n = n - length (filter (\<lambda>s. s_state (svc_at w (the s)) = st) ss)"
  by (induction w st ss n rule: poll_pending.induct) auto

lemma poll_srcs_ok:
  assumes "poll_ok d w i q"
  shows "\<forall>s \<in> set (poll_srcs (Some q)). s \<noteq> None" "length (poll_srcs (Some q)) = p_cnt q"
  using assms by (fastforce simp: poll_ok_def poll_srcs_def in_set_conv_nth split: option.splits)+

lemma filter_all_length: "length xs - length (filter P xs) = 0 \<longleftrightarrow> (\<forall>x \<in> set xs. P x)"
  by (metis diff_is_0_eq filter_True filter_id_conv length_filter_le le_antisym length_filter_less
      linorder_not_le order_refl)

lemma pending_zero_iff:
  assumes "poll_ok d w i q"
  shows "poll_pending w st (poll_srcs (Some q)) (p_cnt q) = 0 \<longleftrightarrow>
         (\<forall>j. Some j \<in> set (poll_srcs (Some q)) \<longrightarrow> s_state (svc_at w j) = st)"
  using poll_pending_zero [OF poll_srcs_ok(1) [OF assms], of w st "p_cnt q"] poll_srcs_ok [OF assms]
    filter_all_length [of "poll_srcs (Some q)" "\<lambda>s. s_state (svc_at w (the s)) = st"]
  by (simp only:) (metis option.collapse option.sel)

lemma pending_none: "poll_pending w st [] n = 0 \<longleftrightarrow> n = 0"
  by simp

definition awaited :: "dep \<Rightarrow> svc \<Rightarrow> svc_id set" where
  "awaited d s = {j. Some j \<in> set (poll_srcs (svc_poll d s))}"

lemma svc_may_start_iff:
  assumes "links_ok w" "is_svc w i"
  shows "svc_may_start w i \<longleftrightarrow>
         (\<forall>j \<in> awaited Starton (svc_at w i). s_state (svc_at w j) = TINIT_SVC_READY_STAT)"
proof (cases "svc_poll Starton (svc_at w i)")
  case None
  then show ?thesis
    by (simp add: svc_may_start_def awaited_def poll_srcs_def svc_poll_def)
next
  case (Some q)
  then have "poll_ok Starton w i q"
    using assms by (simp add: links_ok_def)
  from pending_zero_iff [OF this] Some show ?thesis
    by (auto simp: svc_may_start_def awaited_def svc_poll_def poll_srcs_def)
qed

lemma svc_may_stop_iff:
  assumes "links_ok w" "is_svc w i"
  shows "svc_may_stop w i \<longleftrightarrow>
         (\<forall>j \<in> awaited Stopon (svc_at w i). s_state (svc_at w j) = TINIT_SVC_STOPPED_STAT)"
proof (cases "svc_poll Stopon (svc_at w i)")
  case None
  then show ?thesis
    by (simp add: svc_may_stop_def awaited_def poll_srcs_def svc_poll_def)
next
  case (Some q)
  then have "poll_ok Stopon w i q"
    using assms by (simp add: links_ok_def)
  from pending_zero_iff [OF this] Some show ?thesis
    by (auto simp: svc_may_stop_def awaited_def svc_poll_def poll_srcs_def)
qed

text \<open>Who awaits a service is registered with it.\<close>

lemma awaited_obsrv:
  assumes "links_ok w" "is_svc w i" "j \<in> awaited d (svc_at w i)"
  shows "i \<in> notif_get_sink ` set (svc_obsrv d (svc_at w j))"
proof -
  obtain q where q: "svc_poll d (svc_at w i) = Some q" "Some j \<in> set (poll_srcs (Some q))"
    using assms(3) by (cases "svc_poll d (svc_at w i)") (auto simp: awaited_def poll_srcs_def)
  then have ok: "poll_ok d w i q"
    using assms by (simp add: links_ok_def)
  obtain m where "m < p_cnt q" "n_src (p_members q ! m) = Some j"
    using q(2) ok by (auto simp: poll_srcs_def in_set_conv_nth poll_ok_def)
  then have "(i, m) \<in> set (svc_obsrv d (svc_at w j))"
    using ok by (force simp: poll_ok_def)
  then show ?thesis
    by (force simp: notif_get_sink_def)
qed

lemma awaited_statics:
  assumes "statics w' = statics w" "is_svc w i"
  shows "awaited d (svc_at w' i) = awaited d (svc_at w i)"
  by (simp add: awaited_def statics_links(2) [OF assms])

section \<open>How the set of stuck services changes\<close>

definition confs_wf :: "'k world \<Rightarrow> bool" where
  "confs_wf w \<longleftrightarrow> (\<forall>i. is_svc w i \<longrightarrow> conf_wf (s_conf (svc_at w i)))"

definition links_wf :: "'k world \<Rightarrow> bool" where
  "links_wf w \<longleftrightarrow> links_ok w \<and> confs_wf w"

lemma confs_wf_statics:
  assumes "statics w' = statics w"
  shows "confs_wf w' = confs_wf w"
  by (simp add: confs_wf_def statics_is_svc [OF assms] statics_links(3) [OF assms] cong: imp_cong)

lemma links_wf_statics:
  assumes "statics w' = statics w"
  shows "links_wf w' = links_wf w"
  by (simp add: links_wf_def confs_wf_statics [OF assms] statics_links_ok [OF assms])

lemma world_ok_links_wf: "world_ok w \<Longrightarrow> links_wf w"
  by (auto simp: links_wf_def confs_wf_def world_ok_def svcs_wf_def svc_wf_def)

definition lost :: "'k ext \<Rightarrow> 'k world \<Rightarrow> svc_id set" where
  "lost E w = {i. stuck E w i}"

text \<open>
  The shape of every primitive change: only service \<open>i\<close> is written, no other timer is disarmed,
  and \<open>i\<close> does not become ready.
\<close>

definition local_change :: "'k ext \<Rightarrow> svc_id \<Rightarrow> 'k world \<Rightarrow> 'k world \<Rightarrow> bool" where
  "local_change E i w w' \<longleftrightarrow> statics w' = statics w \<and> (\<forall>j. j \<noteq> i \<longrightarrow> svc_at w' j = svc_at w j) \<and>
     (s_state (svc_at w' i) = TINIT_SVC_READY_STAT \<longrightarrow> s_state (svc_at w i) = TINIT_SVC_READY_STAT) \<and>
     (\<forall>j. j \<noteq> i \<longrightarrow> x_timer_is_armed E j (w_kern w) \<longrightarrow> x_timer_is_armed E j (w_kern w'))"

lemma may_start_mono:
  assumes "statics w' = statics w" "links_ok w" "is_svc w j" "svc_may_start w' j"
    and "\<And>k. k \<in> awaited Starton (svc_at w j) \<Longrightarrow> s_state (svc_at w' k) = TINIT_SVC_READY_STAT \<Longrightarrow>
           s_state (svc_at w k) = TINIT_SVC_READY_STAT"
  shows "svc_may_start w j"
  using assms svc_may_start_iff [of w' j] svc_may_start_iff [of w j] statics_links_ok [OF assms(1)]
    statics_is_svc [OF assms(1)] awaited_statics [OF assms(1,3)]
  by simp

lemma lost_local:
  assumes ch: "local_change E i w w'" and ok: "links_ok w"
  shows "lost E w' \<subseteq> insert i (lost E w)"
proof
  fix j
  assume "j \<in> lost E w'"
  then have st: "stuck E w' j"
    by (simp add: lost_def)
  show "j \<in> insert i (lost E w)"
  proof (cases "j = i")
    case False
    from ch have stat: "statics w' = statics w"
      by (simp add: local_change_def)
    have j: "is_svc w j"
      using st by (simp add: stuck_def statics_is_svc [OF stat])
    have ready: "s_state (svc_at w' k) = TINIT_SVC_READY_STAT \<Longrightarrow> s_state (svc_at w k) = TINIT_SVC_READY_STAT" for k
      using ch by (cases "k = i") (simp_all add: local_change_def)
    have "svc_may_start w j"
      using st by (intro may_start_mono [OF stat ok j _ ready]) (simp_all add: stuck_def)
    with st ch False j show ?thesis
      by (auto simp: lost_def stuck_def local_change_def)
  qed simp
qed

lemma local_upd:
  assumes "\<And>s. svc_static (f s) = svc_static s"
    and "is_svc w i \<Longrightarrow> s_state (f (svc_at w i)) = TINIT_SVC_READY_STAT \<Longrightarrow>
      s_state (svc_at w i) = TINIT_SVC_READY_STAT"
  shows "local_change E i w (upd_svc i f w)"
  using assms by (auto simp: local_change_def statics_upd svc_at_upd)

lemma local_refl [simp]: "local_change E i w w"
  by (simp add: local_change_def)

lemma local_trans:
  "local_change E i w w1 \<Longrightarrow> local_change E i w1 w2 \<Longrightarrow> local_change E i w w2"
  by (simp add: local_change_def)

lemma local_kern:
  "(\<And>j. j \<noteq> i \<Longrightarrow> x_timer_is_armed E j (w_kern w) \<Longrightarrow> x_timer_is_armed E j (g (w_kern w))) \<Longrightarrow>
     local_change E i w (upd_kern g w)"
  by (simp add: local_change_def)

lemma local_log: "local_change E i w (tinit_log m w)"
  by (simp add: local_change_def)

lemma spawn_armed:
  assumes "timer_laws E" "svc_spawn E i a t w = (pid, w')" "j = i \<and> 0 < pid \<or> x_timer_is_armed E j (w_kern w)"
  shows "x_timer_is_armed E j (w_kern w')"
proof -
  obtain r k where v: "x_vfork E \<lparr>job_conf = s_conf (svc_at w i), job_args = a\<rparr> (w_kern w) = (r, k)"
    by fastforce
  then have "x_timer_is_armed E j (w_kern w) \<Longrightarrow> x_timer_is_armed E j k"
    using timer_lawsD(3) [OF assms(1)] by (metis snd_conv)
  moreover have "\<And>e. r = Inl e \<Longrightarrow> 0 < e"
    using vfork_result [OF timer_lawsD(1) [OF assms(1)] v] by simp
  ultimately show ?thesis
    using assms v timer_lawsD(6) [OF assms(1)]
    by (auto simp: svc_spawn_def split: if_split_asm sum.split_asm)
qed

lemma local_spawn: "timer_laws E \<Longrightarrow> svc_spawn E i a t w = (pid, w') \<Longrightarrow> local_change E i w w'"
  by (auto simp: local_change_def statics_spawn svc_spawn_at intro: spawn_armed)

lemma spawn_not_minus1:
  assumes E: "timer_laws E" and "cmd_ok a" "svc_spawn E i a t w = (pid, w')"
  shows "pid \<noteq> -1"
proof -
  obtain r k where v: "x_vfork E \<lparr>job_conf = s_conf (svc_at w i), job_args = a\<rparr> (w_kern w) = (r, k)"
    by fastforce
  show ?thesis
    using assms v vfork_result [OF timer_lawsD(1) [OF E] v] timer_lawsD(2) [OF E]
    by (cases r) (auto simp: svc_spawn_def)
qed

section \<open>A chain of notifications loses nobody\<close>

definition starting_on :: "'k world \<Rightarrow> bool" where
  "starting_on w \<longleftrightarrow> (\<forall>i. is_svc w i \<longrightarrow> s_state (svc_at w i) = TINIT_SVC_STARTING_STAT \<longrightarrow>
     s_handle_evts (svc_at w i) = Handle_on \<and> s_handle_notif (svc_at w i) = Handle_on)"

definition wake_ok :: "'k world \<Rightarrow> bool" where
  "wake_ok w \<longleftrightarrow> links_wf w \<and> starting_on w"

lemma world_ok_wake_ok: "world_ok w \<Longrightarrow> wake_ok w"
  using world_ok_links_wf [of w]
  by (auto simp: wake_ok_def starting_on_def world_ok_def svcs_wf_def svc_wf_def)

lemma wake_ok_calm:
  assumes "wake_ok w" "calm w w'" "statics w' = statics w"
  shows "wake_ok w'"
  using assms(1,2) links_wf_statics [OF assms(3)] by (auto simp: wake_ok_def starting_on_def calm_def)

lemma wake_ok_links: "wake_ok w \<Longrightarrow> links_ok w"
  by (simp add: wake_ok_def links_wf_def)

lemma lost_not_starting: "s_state (svc_at w i) \<noteq> TINIT_SVC_STARTING_STAT \<Longrightarrow> i \<notin> lost E w"
  by (simp add: lost_def stuck_def)

lemma lost_child: "s_child (svc_at w i) \<noteq> -1 \<Longrightarrow> i \<notin> lost E w"
  by (simp add: lost_def stuck_def)

lemma lost_not_svc: "\<not> is_svc w i \<Longrightarrow> i \<notin> lost E w"
  by (simp add: lost_def stuck_def)

lemma lost_fault [simp]: "lost E (fault w) = lost E w"
proof -
  have "poll_pending (fault w) st ss n = poll_pending w st ss n" for st ss n
    by (induction w st ss n rule: poll_pending.induct) simp_all
  then show ?thesis
    by (simp add: lost_def stuck_def svc_may_start_def split: option.split)
qed

lemma lost_stopped_world:
  assumes "links_ok w"
  shows "lost E (stopped_world i w) \<subseteq> lost E w"
proof -
  have "local_change E i w (stopped_world i w)"
    unfolding stopped_world_def
    by (rule local_trans [OF local_upd local_log]) (simp_all add: svc_static_def)
  moreover have "i \<notin> lost E (stopped_world i w)"
    by (cases "is_svc w i") (simp_all add: stopped_world_def lost_not_starting lost_not_svc)
  ultimately show ?thesis
    using lost_local [OF _ assms] by blast
qed

lemma lost_ready_world:
  assumes ok: "links_ok w" and i: "is_svc w i"
  shows "lost E (ready_world i w) \<subseteq> lost E w \<union> notif_get_sink ` set (s_starton_obsrv (svc_at w i)) - {i}"
proof
  fix j
  assume "j \<in> lost E (ready_world i w)"
  then have st: "stuck E (ready_world i w) j"
    by (simp add: lost_def)
  then have j: "is_svc w j" "j \<noteq> i"
    using i by (auto simp: stuck_def ready_world_def)
  show "j \<in> lost E w \<union> notif_get_sink ` set (s_starton_obsrv (svc_at w i)) - {i}"
  proof (cases "i \<in> awaited Starton (svc_at w j)")
    case True
    then show ?thesis
      using awaited_obsrv [OF ok j(1) True] j by (simp add: svc_obsrv_def)
  next
    case False
    have "svc_may_start w j"
      using st False by (intro may_start_mono [OF statics_attempts(2) [of i w] ok j(1)])
        (auto simp: stuck_def ready_world_def svc_at_upd split: if_splits)
    with st j show ?thesis
      by (simp add: lost_def stuck_def ready_world_def)
  qed
qed

lemma lost_start_attempt:
  assumes E: "timer_laws E" and ok: "wake_ok w" and i: "is_svc w i"
    and at: "start_attempt E i w = (w1, done)"
  shows "lost E w1 \<subseteq> insert i (lost E w)" "\<not> done \<Longrightarrow> i \<notin> lost E w1"
proof -
  have upd: "local_change E i v (upd_svc i (\<lambda>s. s\<lparr>s_child := c\<rparr>) v)" for v c
    by (rule local_upd) (simp_all add: svc_static_def)
  show "lost E w1 \<subseteq> insert i (lost E w)"
    using at upd local_trans [OF local_spawn [OF E] upd]
    by (intro lost_local [OF _ wake_ok_links [OF ok]])
      (auto simp: start_attempt_def split: option.splits prod.splits)
  have wf: "conf_wf (s_conf (svc_at w i))"
    using ok i by (simp add: wake_ok_def links_wf_def confs_wf_def)
  have "cmd_ok a" if "svc_next_cmd (svc_at w i) = Some a" for a
    using that wf by (auto simp: conf_wf_def svc_next_cmd_def split: if_splits)
  then show "\<not> done \<Longrightarrow> i \<notin> lost E w1"
    using at i by (intro lost_child)
      (auto simp: start_attempt_def dest: spawn_not_minus1 [OF E] split: option.splits prod.splits)
qed

lemma lost_stop_attempt:
  assumes E: "timer_laws E" and ok: "links_ok w"
  shows "lost E (stop_attempt E i w) \<subseteq> insert i (lost E w)" "lost E (next_stop i w) \<subseteq> insert i (lost E w)"
proof -
  have "local_change E i v (upd_svc i (\<lambda>s. s\<lparr>s_child := c\<rparr>) v)" for v c
    by (rule local_upd) (simp_all add: svc_static_def)
  moreover have next_ch: "local_change E i w (next_stop i w)"
    unfolding next_stop_def by (rule local_upd) (simp_all add: svc_static_def)
  ultimately have "local_change E i w (stop_attempt E i w)"
    unfolding stop_attempt_def
    by (auto intro: local_trans [OF _ local_trans [OF local_spawn [OF E]]] split: prod.split)
  with next_ch show "lost E (stop_attempt E i w) \<subseteq> insert i (lost E w)"
    "lost E (next_stop i w) \<subseteq> insert i (lost E w)"
    using lost_local [OF _ ok] by blast+
qed

lemma wake_ok_attempts:
  assumes "wake_ok w"
  shows "wake_ok (stopped_world i w)" "wake_ok (ready_world i w)"
    "wake_ok (fst (start_attempt E i w))" "wake_ok (next_stop i w)"
  by (rule wake_ok_calm [OF assms calm_attempts(1) statics_attempts(1)],
      rule wake_ok_calm [OF assms calm_attempts(2) statics_attempts(2)],
      rule wake_ok_calm [OF assms calm_attempts(3) statics_attempts(3)],
      rule wake_ok_calm [OF assms calm_attempts(4) statics_attempts(4)])

lemma lost_chain:
  assumes E: "timer_laws E"
  shows
  "wake_ok w \<Longrightarrow> is_svc w i \<Longrightarrow> lost E (svc_mark_stopped E i w) \<subseteq> lost E w"
  "wake_ok w \<Longrightarrow> is_svc w i \<Longrightarrow> lost E (svc_mark_ready E i w) \<subseteq> lost E w - {i}"
  "wake_ok w \<Longrightarrow> is_svc w i \<Longrightarrow> \<forall>r \<in> set obs. obsrv_ok d w i r \<Longrightarrow>
     lost E (svc_notify E d obs i w) \<subseteq> lost E w -
       (if s_state (svc_at w i) = TINIT_SVC_READY_STAT then notif_get_sink ` set obs else {})"
  "wake_ok w \<Longrightarrow> lost E (svc_handle_notif E i src w) \<subseteq> lost E w -
     (if s_state (svc_at w src) = TINIT_SVC_READY_STAT then {i} else {})"
  "wake_ok w \<Longrightarrow> s_handle_notif (svc_at w i) = Handle_on \<Longrightarrow>
     lost E (svc_handle_on_notif E i src w) \<subseteq> lost E w -
     (if s_state (svc_at w src) = TINIT_SVC_READY_STAT then {i} else {})"
  "wake_ok w \<Longrightarrow> s_handle_notif (svc_at w i) = Handle_off \<Longrightarrow>
     lost E (svc_handle_off_notif E i src w) \<subseteq> lost E w - {i}"
  "wake_ok w \<Longrightarrow> is_svc w i \<Longrightarrow> lost E (svc_spawn_start_cmd E i w) \<subseteq> lost E w - {i}"
  "wake_ok w \<Longrightarrow> is_svc w i \<Longrightarrow> s_state (svc_at w i) = TINIT_SVC_STOPPING_STAT \<Longrightarrow>
     lost E (svc_spawn_stop_cmd E i w) \<subseteq> lost E w"
proof (induction i w and i w and d obs i w and i src w and i src w and i src w and i w and i w
    rule: svc_chain_rule [where E = E])
  case (1 i w)
  let ?w = "stopped_world i w"
  have ok: "wake_ok ?w"
    using 1(2) by (rule wake_ok_attempts)
  then have "\<forall>r \<in> set (s_stopon_obsrv (svc_at ?w i)). obsrv_ok Stopon ?w i r"
    using links_sink [OF wake_ok_links [OF ok], of i _ Stopon] 1(3) by (simp add: svc_obsrv_def)
  from 1(1) [OF ok _ this] 1(3) show ?case
    using lost_stopped_world [OF wake_ok_links [OF 1(2)], of E i] by (auto simp: svc_chain_eqs(1))
next
  case (2 i w)
  let ?w = "ready_world i w"
  have ok: "wake_ok ?w"
    using 2(2) by (rule wake_ok_attempts)
  have obs: "s_starton_obsrv (svc_at ?w i) = s_starton_obsrv (svc_at w i)"
    using 2(3) by (simp add: ready_world_def)
  from ok have "\<forall>r \<in> set (s_starton_obsrv (svc_at ?w i)). obsrv_ok Starton ?w i r"
    using links_sink [OF wake_ok_links [OF ok], of i _ Starton] 2(3) by (simp add: svc_obsrv_def)
  from 2(1) [OF ok _ this] 2(3) show ?case
    using lost_ready_world [OF wake_ok_links [OF 2(2)] 2(3), of E] obs
    by (auto simp: svc_chain_eqs(2) ready_world_def)
next
  case (3 d i w)
  then show ?case by simp
next
  case (4 d obs rest i w)
  let ?w = "svc_handle_notif E (notif_get_sink obs) i w"
  have src: "notif_get_src w d obs = Some i"
    using 4(5) by (simp add: obsrv_ok_def)
  have stat: "statics ?w = statics w" and calm: "calm w ?w"
    by (rule svc_chain_statics, rule svc_chain_calm)
  have ok: "wake_ok ?w" and i: "is_svc ?w i"
    using wake_ok_calm [OF 4(3) calm stat] 4(4) statics_is_svc [OF stat] by simp_all
  have "\<forall>r \<in> set rest. obsrv_ok d ?w i r"
    using 4(5) by (simp add: obsrv_ok_def statics_src [OF stat] statics_is_svc [OF stat])
  note rest = 4(2) [OF src ok i this] and one = 4(1) [OF src 4(3)]
  have "s_state (svc_at w i) = TINIT_SVC_READY_STAT \<Longrightarrow> svc_at ?w i = svc_at w i"
    by (rule svc_chain_quiet(4)) (simp add: is_transient_def)
  with rest one src show ?case
    by (auto split: if_splits)
next
  case (5 i src w)
  show ?case
  proof (cases "is_svc w i")
    case True
    with 5 show ?thesis
      by (cases "s_handle_notif (svc_at w i)") (auto simp: svc_handle_notif.simps)
  next
    case False
    then show ?thesis
      by (simp add: svc_handle_notif.simps lost_not_svc)
  qed
next
  case (6 i src w)
  have "svc_may_start_asserts w i" if "is_svc w i" "s_state (svc_at w i) = TINIT_SVC_STARTING_STAT"
    using 6(2) that by (simp add: wake_ok_def starting_on_def svc_may_start_asserts_def)
  moreover have "i \<notin> lost E w" if "\<not> svc_may_start w i"
    using that by (simp add: lost_def stuck_def)
  ultimately show ?case
    using 6(1) 6(2) unfolding svc_handle_on_notif.simps
    by (cases "is_svc w i"; cases "s_state (svc_at w i) = TINIT_SVC_STARTING_STAT")
      (auto simp: lost_not_svc lost_not_starting)
next
  case (7 i src w)
  have "i \<notin> lost E w"
    using 7(2,3) lost_not_svc [of w i E] lost_not_starting [of w i E]
    by (cases "is_svc w i") (auto simp: wake_ok_def starting_on_def)
  with 7(1,2) show ?case
    unfolding svc_handle_off_notif.simps by auto
next
  case (8 i w)
  show ?case
  proof (cases "start_attempt E i w")
    case (Pair w1 fin)
    note lost = lost_start_attempt [OF E 8(2,3) Pair]
    have "wake_ok w1" "is_svc w1 i"
      using wake_ok_attempts(3) [OF 8(2), of E i] is_svc_attempts(3) [of E i w i] Pair 8(3) by simp_all
    with 8(1) Pair lost show ?thesis
      by (cases fin) (auto simp: svc_chain_eqs(3))
  qed
next
  case (9 i w)
  let ?w = "next_stop i w"
  have "i \<notin> lost E (stop_attempt E i w)" "i \<notin> lost E ?w"
    using 9(3,4)
    by (auto intro!: lost_not_starting simp: stop_attempt_def next_stop_def split: prod.split)
  then have "lost E (stop_attempt E i w) \<subseteq> lost E w" "lost E ?w \<subseteq> lost E w"
    using lost_stop_attempt [OF E wake_ok_links [OF 9(2)], of i] by blast+
  with 9(1) [OF _ wake_ok_attempts(4) [OF 9(2)]] 9(3) show ?case
    by (auto simp: svc_chain_eqs(4))
qed

section \<open>No operation loses anybody\<close>

lemma local_kill: "timer_laws E \<Longrightarrow> svc_kill E i sig w = (r, w') \<Longrightarrow> local_change E j w w'"
  using timer_lawsD(4) [of E]
  by (auto simp: local_change_def svc_kill_def statics_def split: if_splits prod.splits bool.splits)
    (metis snd_conv)+

lemma local_arm: "timer_laws E \<Longrightarrow> local_change E j w (upd_kern (x_timer_arm_sec E i n) w)"
  using timer_lawsD(6) [of E] by (intro local_kern) blast

lemma lost_off:
  assumes "local_change E i w w'" "world_ok w" "is_svc w i"
    "s_state (svc_at w' i) \<noteq> TINIT_SVC_STARTING_STAT \<or> s_child (svc_at w' i) \<noteq> -1 \<or>
       \<not> svc_may_start w' i \<or> x_timer_is_armed E i (w_kern w')"
  shows "lost E w' \<subseteq> lost E w - {i}"
  using lost_local [OF assms(1) world_okD(2) [OF assms(2)]] assms(4)
  by (auto simp: lost_def stuck_def)

lemma lost_start:
  assumes E: "timer_laws E" and ok: "world_ok w" and i: "is_svc w i"
  shows "lost E (svc_start E i w) \<subseteq> lost E w - {i}"
proof -
  let ?w = "start_prefix E i w"
  have ok': "world_ok ?w"
    unfolding start_prefix_def using svc_step_ok [OF Start [OF i] timer_lawsD(1) [OF E] ok] .
  have ch: "local_change E i w ?w"
    unfolding start_prefix_def
    by (rule local_trans [OF local_trans [OF local_log local_upd] local_kern])
      (auto simp: svc_static_def set_starting_def timer_lawsD [OF E])
  have "lost E ?w \<subseteq> lost E w - {i}" if "\<not> svc_may_start ?w i"
    using that by (intro lost_off [OF ch ok i]) simp
  moreover have "lost E (svc_spawn_start_cmd E i ?w) \<subseteq> lost E ?w - {i}"
    using i by (intro lost_chain(7) [OF E world_ok_wake_ok [OF ok']]) (simp add: start_prefix_def)
  ultimately show ?thesis
    using lost_local [OF ch world_okD(2) [OF ok]] by (auto simp: svc_start_eq)
qed

lemma lost_respawn:
  assumes E: "timer_laws E" and ok: "world_ok w" and i: "is_svc w i"
    and ch: "local_change E i w w'" and ok': "world_ok w'"
  shows "lost E (svc_respawn E i w') \<subseteq> lost E w - {i}"
proof -
  have "is_svc w' i"
    using ch i statics_is_svc by (auto simp: local_change_def)
  from lost_chain(7) [OF E world_ok_wake_ok [OF ok'] this] lost_local [OF ch world_okD(2) [OF ok]]
  show ?thesis
    by (auto simp: svc_respawn_def)
qed

lemma lost_stop_from:
  assumes E: "timer_laws E" and ok: "world_ok w" and i: "is_svc w i"
    and ch: "local_change E i w w'" and ok': "world_ok w'"
    and st: "s_state (svc_at w' i) = TINIT_SVC_STOPPING_STAT"
  shows "lost E (svc_spawn_stop_cmd E i w') \<subseteq> lost E w - {i}"
proof -
  have i': "is_svc w' i"
    using ch i statics_is_svc by (auto simp: local_change_def)
  have "lost E w' \<subseteq> lost E w - {i}"
    using st by (intro lost_off [OF ch ok i]) simp
  with lost_chain(8) [OF E world_ok_wake_ok [OF ok'] i' st] show ?thesis
    by blast
qed

lemma lost_stop:
  assumes E: "timer_laws E" and ok: "world_ok w" and i: "is_svc w i"
  shows "lost E (svc_stop E i w) \<subseteq> lost E w - {i}"
proof -
  let ?w = "stop_prefix E i w"
  have ok': "world_ok ?w"
    unfolding stop_prefix_def using svc_step_ok [OF Stop [OF i] timer_lawsD(1) [OF E] ok] .
  have ch: "local_change E i w ?w"
    unfolding stop_prefix_def
    by (rule local_trans [OF local_trans [OF local_log local_upd] local_kern])
      (auto simp: svc_static_def set_stopping_def timer_lawsD [OF E])
  have st: "s_state (svc_at ?w i) = TINIT_SVC_STOPPING_STAT" and i': "is_svc ?w i"
    using i by (simp_all add: stop_prefix_def set_stopping_def)
  obtain r w4 where k: "svc_kill E i (conf_get_stop_sig (s_conf (svc_at ?w i))) ?w = (r, w4)"
    by fastforce
  have ki: "svc_step E ?w w4" "svc_at w4 i = svc_at ?w i"
    using svc_kill_step [OF i' k] by simp_all
  have ch4: "local_change E i w w4"
    by (rule local_trans [OF ch local_kill [OF E k]])
  have "lost E ?w \<subseteq> lost E w - {i}"
    using st by (intro lost_off [OF ch ok i]) simp
  moreover have "lost E (upd_kern (x_timer_arm_sec E i 5) w4) \<subseteq> lost E w - {i}"
    using st ki by (intro lost_off [OF local_trans [OF ch4 local_arm [OF E]] ok i]) simp
  moreover have "lost E (svc_spawn_stop_cmd E i w4) \<subseteq> lost E w - {i}"
    using st ki svc_step_ok [OF ki(1) timer_lawsD(1) [OF E] ok']
    by (intro lost_stop_from [OF E ok i ch4]) simp_all
  ultimately show ?thesis
    using k by (simp add: svc_stop_eq)
qed

lemma lost_reload:
  assumes E: "timer_laws E" and ok: "world_ok w"
    and "s_state (svc_at w i) = TINIT_SVC_READY_STAT" "0 < s_child (svc_at w i)" "is_svc w i"
  shows "lost E (svc_reload E i w) \<subseteq> lost E w"
proof -
  obtain r w' where k: "svc_kill E i (conf_get_reload_sig (s_conf (svc_at w i)))
      (tinit_log (Log_reloading i) w) = (r, w')"
    by fastforce
  have "svc_at w' i = svc_at w i"
    using svc_kill_step [OF _ k] assms(5) by simp
  then have "lost E w' \<subseteq> lost E w - {i}"
    using assms by (intro lost_off [OF local_trans [OF local_log local_kill [OF E k]]]) simp_all
  with k assms show ?thesis
    by (auto simp: svc_reload_def)
qed

lemma lost_evts:
  assumes E: "timer_laws E" and ok: "world_ok w" and i: "is_svc w i"
    and evt: "evt_expected (svc_at w i) evt"
  shows "lost E (svc_handle_evts E i evt status w) \<subseteq> lost E w"
proof -
  have wf: "svc_wf (svc_at w i)"
    using ok i by (simp add: world_okD)
  have upd: "local_change E i w (upd_svc i f w)"
    if "\<And>s. svc_static (f s) = svc_static s" "\<And>s. s_state (f s) = TINIT_SVC_READY_STAT \<Longrightarrow>
      s_state s = TINIT_SVC_READY_STAT" for f
    using that by (intro local_upd)
  have step: "svc_step E w w' \<Longrightarrow> world_ok w'" for w'
    using svc_step_ok timer_lawsD(1) [OF E] ok by blast
  have again: "lost E (svc_respawn E i w) \<subseteq> lost E w - {i}"
    by (rule lost_respawn [OF E ok i local_refl ok])
  have next_cmd: "lost E (svc_respawn E i (upd_svc i (\<lambda>s. s\<lparr>s_start_cmd := Suc (s_start_cmd s)\<rparr>) w)) \<subseteq> lost E w - {i}"
    if "s_state (svc_at w i) = TINIT_SVC_STARTING_STAT"
    by (rule lost_respawn [OF E ok i upd step [OF Next [OF i that]]]) (simp_all add: svc_static_def)
  have restart: "lost E (svc_respawn E i (upd_svc i (\<lambda>s. s\<lparr>s_state := TINIT_SVC_STARTING_STAT\<rparr>) w)) \<subseteq> lost E w - {i}"
    if "s_state (svc_at w i) = TINIT_SVC_READY_STAT"
    by (rule lost_respawn [OF E ok i upd step [OF Again [OF i that]]]) (simp_all add: svc_static_def)
  have gone: "lost E (upd_svc i (\<lambda>s. s\<lparr>s_child := -1\<rparr>) w) \<subseteq> lost E w - {i}"
    if "x_timer_is_armed E i (w_kern w)"
    using that by (intro lost_off [OF upd ok i]) (simp_all add: svc_static_def)
  have "lost E (svc_spawn_stop_cmd E i w) \<subseteq> lost E w - {i}"
    if "s_state (svc_at w i) = TINIT_SVC_STOPPING_STAT"
    using that by (intro lost_stop_from [OF E ok i local_refl ok])
  with lost_start [OF E ok i] lost_stop [OF E ok i] next_cmd restart gone again wf show ?thesis
    by (cases "s_state (svc_at w i)"; cases evt)
      (auto simp: svc_handle_evts_def svc_handle_on_evts_def svc_handle_off_evts_def split: handler.split)
qed

text \<open>The callback runs once the timer has fired: whatever else holds, its service is not stuck after.\<close>

lemma lost_expire:
  assumes E: "timer_laws E" and ok: "world_ok w" and i: "is_svc w i"
    and cb: "expire_expected (svc_at w i) cb"
  shows "lost E (svc_expire E cb i w) \<subseteq> lost E w - {i}"
proof -
  have wf: "svc_wf (svc_at w i)"
    using ok i by (simp add: world_okD)
  obtain r w1 where k: "svc_kill E i SIGKILL w = (r, w1)"
    by fastforce
  have ki: "svc_step E w w1" "svc_at w1 i = svc_at w i"
    using svc_kill_step [OF i k] by simp_all
  have ch: "local_change E i w w1"
    by (rule local_kill [OF E k])
  have st: "lost E w1 \<subseteq> lost E w - {i}" "lost E (svc_spawn_stop_cmd E i w1) \<subseteq> lost E w - {i}"
    if "s_state (svc_at w i) = TINIT_SVC_STOPPING_STAT"
    using that ki svc_step_ok [OF ki(1) timer_lawsD(1) [OF E] ok]
    by (auto intro!: lost_off [OF ch ok i] lost_stop_from [OF E ok i ch] del: subsetI)
  have quiet: "lost E w \<subseteq> lost E w - {i}"
    if "s_state (svc_at w i) \<noteq> TINIT_SVC_STARTING_STAT \<or> s_child (svc_at w i) \<noteq> -1"
    using that by (auto simp: lost_def stuck_def)
  have "lost E (svc_respawn E i w) \<subseteq> lost E w - {i}"
    by (rule lost_respawn [OF E ok i local_refl ok])
  with st quiet wf cb k show ?thesis
    by (cases cb; cases "s_state (svc_at w i)")
      (auto simp: svc_expire_def svc_expire_on_def svc_expire_off_def expire_expected_def svc_wf_def)
qed

interpretation wakeup: svc_ops timer_laws "\<lambda>E w w'. lost E w' \<subseteq> lost E w"
proof (unfold_locales, goal_cases)
  case (1 E)
  then show ?case by (rule timer_lawsD)
next
  case (4 E w i)
  then show ?case using lost_start by blast
next
  case (5 E w i)
  then show ?case using lost_stop by blast
next
  case (8 E w i cb)
  then show ?case using lost_expire by blast
qed (use lost_reload lost_evts in blast)+

end
