(* ===== verification/Scenario.thy ===== *)
theory Scenario imports Svc_Wakeup begin

text \<open>
  A concrete kernel and a concrete boot: an instance of the external operations that hands out
  increasing process ids, remembers the armed timers and refuses to signal the processes listed
  as gone, and two services, \<open>net\<close> and \<open>web\<close>, where \<open>web\<close> starts once \<open>net\<close> is ready and \<open>net\<close>
  stops once \<open>web\<close> is stopped. The examples of the development run on them.
\<close>

record sim =
  sim_pids :: nat
  sim_armed :: "svc_id list"
  sim_gone :: "int list"
  sim_full :: bool

definition sim_vfork :: "job \<Rightarrow> sim \<Rightarrow> (int + int) \<times> sim" where
  "sim_vfork j k = (if sim_full k then (Inl EAGAIN, k)
     else (Inr (2 + int (sim_pids k)), k\<lparr>sim_pids := Suc (sim_pids k)\<rparr>))"

definition sim_ext :: "sim ext" where
  "sim_ext = \<lparr>
     x_vfork = sim_vfork,
     x_kill = (\<lambda>pid sig k. (pid \<in> set (sim_gone k), k)),
     x_timer_init = (\<lambda>i k. k),
     x_timer_setup = (\<lambda>i cb k. k),
     x_timer_arm_sec = (\<lambda>i n k. k\<lparr>sim_armed := i # sim_armed k\<rparr>),
     x_timer_is_armed = (\<lambda>i k. i \<in> set (sim_armed k))\<rparr>"

definition sim_start :: sim where
  "sim_start = \<lparr>sim_pids = 0, sim_armed = [], sim_gone = [], sim_full = False\<rparr>"

lemma sim_ext_sel [simp]:
  "x_vfork sim_ext = sim_vfork" "x_kill sim_ext p sig k = (p \<in> set (sim_gone k), k)"
  "x_timer_setup sim_ext i cb k = k" "x_timer_init sim_ext i k = k"
  "x_timer_arm_sec sim_ext i n k = k\<lparr>sim_armed := i # sim_armed k\<rparr>"
  "x_timer_is_armed sim_ext i k = (i \<in> set (sim_armed k))"
  by (simp_all add: sim_ext_def)

lemma sim_vfork_ok [simp]: "vfork_ok sim_ext"
  by (simp add: vfork_ok_def sim_vfork_def)

lemma sim_timer_laws [simp]: "timer_laws sim_ext"
  by (auto simp: timer_laws_def sim_vfork_def split: if_splits)

definition args1 :: "string \<Rightarrow> strarr" where
  "args1 c = \<lparr>sa_nr = 1, sa_strings = [Some c]\<rparr>"

definition seq_of :: "string list \<Rightarrow> conf_seq" where
  "seq_of cs = \<lparr>seq_nr = length cs, seq_cmds = Ptr (map (\<lambda>c. Some (args1 c)) cs)\<rparr>"

definition net_conf :: conf_svc where
  "net_conf = empty_conf\<lparr>c_name := Some ''net'', c_path := Some ''net.conf'',
     c_start := seq_of [''/sbin/ifup''], c_daemon := Some (args1 ''/sbin/netd''),
     c_stop := seq_of [''/sbin/ifdown''], c_stop_sig := SIGTERM\<rparr>"

definition web_conf :: conf_svc where
  "web_conf = empty_conf\<lparr>c_name := Some ''web'', c_path := Some ''web.conf'',
     c_daemon := Some (args1 ''/sbin/httpd''), c_stop_sig := SIGTERM\<rparr>"

definition idle_svc :: "conf_svc \<Rightarrow> svc" where
  "idle_svc c = \<lparr>s_handle_evts = Handle_off, s_child = -1, s_state = TINIT_SVC_STOPPED_STAT,
     s_handle_notif = Handle_off, s_start_cmd = 0, s_starton_obsrv = [], s_starton_notif = None,
     s_stop_cmd = 0, s_stopon_obsrv = [], s_stopon_notif = None, s_conf = c\<rparr>"

definition net_svc :: svc where
  "net_svc = (idle_svc net_conf)\<lparr>s_starton_obsrv := [(1, 0)],
     s_stopon_notif := Some \<lparr>p_cnt = 1, p_nr = 1, p_members = [\<lparr>n_src = Some 1, n_sink = 0\<rparr>]\<rparr>\<rparr>"

definition web_svc :: svc where
  "web_svc = (idle_svc web_conf)\<lparr>s_stopon_obsrv := [(0, 0)],
     s_starton_notif := Some \<lparr>p_cnt = 1, p_nr = 1, p_members = [\<lparr>n_src = Some 0, n_sink = 1\<rparr>]\<rparr>\<rparr>"

definition world_of :: "svc list \<Rightarrow> sim world" where
  "world_of ss = \<lparr>w_svcs = ss, w_kern = sim_start, w_log = [], w_fault = False\<rparr>"

definition boot :: "sim world" where
  "boot = world_of [net_svc, web_svc]"

lemmas scenario_defs =
  boot_def world_of_def net_svc_def web_svc_def idle_svc_def net_conf_def web_conf_def empty_conf_def
  empty_seq_def seq_of_def args1_def sim_start_def sim_vfork_def

lemmas conf_defs =
  conf_get_start_cmd_nr_def conf_get_stop_cmd_nr_def conf_seq_nr_def conf_get_start_cmd_def
  conf_get_stop_cmd_def conf_seq_get_args_def conf_seq_get_cmd_def strarr_get_members_def
  conf_get_daemon_def conf_get_stop_sig_def conf_get_reload_sig_def

lemma is_svc_world_of [simp]: "is_svc (world_of ss) i \<longleftrightarrow> i < length ss"
  by (simp add: is_svc_def world_of_def)

lemma svc_at_world_of [simp]: "svc_at (world_of ss) i = ss ! i"
  by (simp add: svc_at_def world_of_def)

lemma demo_confs_wf [simp]: "conf_wf net_conf" "conf_wf web_conf"
  by (simp_all add: conf_wf_def conf_defs net_conf_def web_conf_def empty_conf_def empty_seq_def
      seq_of_def args1_def cmd_ok_def)

lemma demo_world_ok:
  assumes s: "statics (world_of ss) = statics boot"
    and wf: "\<forall>s \<in> set ss. svc_wf s"
  shows "world_ok (world_of ss)"
proof -
  have "links_ok boot"
    unfolding links_ok_def
  proof (intro allI impI)
    fix i d
    assume "is_svc boot i"
    then have "i = 0 \<or> i = 1"
      by (auto simp: boot_def)
    then show "(\<forall>r \<in> set (svc_obsrv d (svc_at boot i)). obsrv_ok d boot i r) \<and>
        (\<forall>q. svc_poll d (svc_at boot i) = Some q \<longrightarrow> poll_ok d boot i q)"
      by (cases d) (auto simp: boot_def net_svc_def web_svc_def idle_svc_def svc_obsrv_def svc_poll_def
          obsrv_ok_def poll_ok_def notif_get_sink_def notif_get_src_def notif_at_def)
  qed
  then have "links_ok (world_of ss)"
    using statics_links_ok [OF s] by simp
  with wf show ?thesis
    by (simp add: world_ok_def svcs_wf_def) (simp add: world_of_def)
qed

lemma svc_wf_idle [simp]: "conf_wf c \<Longrightarrow> svc_wf (idle_svc c)"
  by (simp add: svc_wf_def idle_svc_def)

lemma svc_wf_demo [simp]: "svc_wf net_svc" "svc_wf web_svc"
  by (simp_all add: svc_wf_def net_svc_def web_svc_def idle_svc_def)

lemma boot_ok [simp]: "world_ok boot"
  unfolding boot_def by (rule demo_world_ok) (simp_all add: boot_def)

text \<open>The same world at a later moment: the state of each service written over.\<close>

definition demo_at :: "(svc \<Rightarrow> svc) \<Rightarrow> (svc \<Rightarrow> svc) \<Rightarrow> sim world" where
  "demo_at f g = world_of [f net_svc, g web_svc]"

lemma demo_at_ok:
  assumes "svc_static (f net_svc) = svc_static net_svc" "svc_static (g web_svc) = svc_static web_svc"
    "svc_wf (f net_svc)" "svc_wf (g web_svc)"
  shows "world_ok (demo_at f g)"
  unfolding demo_at_def
  using assms by (intro demo_world_ok) (simp_all add: statics_def boot_def world_of_def)

definition run_starting :: "int \<Rightarrow> nat \<Rightarrow> svc \<Rightarrow> svc" where
  "run_starting c n s = s\<lparr>s_handle_evts := Handle_on, s_handle_notif := Handle_on,
     s_state := TINIT_SVC_STARTING_STAT, s_child := c, s_start_cmd := n\<rparr>"

definition run_ready :: "int \<Rightarrow> svc \<Rightarrow> svc" where
  "run_ready c s = s\<lparr>s_handle_evts := Handle_on, s_handle_notif := Handle_on,
     s_state := TINIT_SVC_READY_STAT, s_child := c, s_start_cmd := 1\<rparr>"

definition run_stopping :: "int \<Rightarrow> svc \<Rightarrow> svc" where
  "run_stopping c s = s\<lparr>s_handle_evts := Handle_off, s_handle_notif := Handle_off,
     s_state := TINIT_SVC_STOPPING_STAT, s_child := c, s_stop_cmd := -1\<rparr>"

lemma run_static [simp]:
  "svc_static (run_starting c n s) = svc_static s" "svc_static (run_ready c s) = svc_static s"
  "svc_static (run_stopping c s) = svc_static s"
  by (simp_all add: svc_static_def run_starting_def run_ready_def run_stopping_def)

lemma run_wf [simp]:
  "svc_wf s \<Longrightarrow> c \<noteq> 0 \<Longrightarrow> svc_wf (run_starting c n s)" "svc_wf s \<Longrightarrow> c \<noteq> 0 \<Longrightarrow> svc_wf (run_ready c s)"
  "svc_wf s \<Longrightarrow> c \<noteq> 0 \<Longrightarrow> svc_wf (run_stopping c s)"
  by (auto simp: svc_wf_def run_starting_def run_ready_def run_stopping_def)

lemma is_svc_demo [simp]: "is_svc (demo_at f g) i \<longleftrightarrow> i < 2"
  by (simp add: demo_at_def numeral_2_eq_2)

lemma svc_at_demo [simp]: "svc_at (demo_at f g) 0 = f net_svc" "svc_at (demo_at f g) (Suc 0) = g web_svc"
  by (simp_all add: demo_at_def)

end
