(* ===== verification/Svc_Props.thy ===== *)
theory Svc_Props imports Scenario begin

text \<open>
  The properties of service supervision, each with a run on the example services.
\<close>

section \<open>Helper lemmas\<close>

interpretation log_grows: svc_preserved "\<lambda>w w'. \<exists>ms. w_log w' = ms @ w_log w"
proof (unfold_locales, goal_cases)
  case (2 w w1 w2)
  then show ?case by auto
next
  case (3 E w w')
  from 3(3) show ?case
    by (induction rule: svc_step.induct) (auto dest: svc_kill_svcs svc_spawn_log_cases)
qed simp

text \<open>The commands run for a service, oldest first, the spawns that failed included.\<close>

fun spawned_cmds :: "svc_id \<Rightarrow> log_msg list \<Rightarrow> string option list list" where
  "spawned_cmds i [] = []"
| "spawned_cmds i (Log_spawned j a p # ms) = spawned_cmds i ms @ (if j = i then [a] else [])"
| "spawned_cmds i (Log_cannot_spawn j a e # ms) = spawned_cmds i ms @ (if j = i then [a] else [])"
| "spawned_cmds i (_ # ms) = spawned_cmds i ms"

lemma spawn_cmds:
  "cmd_ok a \<Longrightarrow> svc_spawn E i a t w = (pid, w') \<Longrightarrow>
     spawned_cmds i (w_log w') = spawned_cmds i (w_log w) @ [a]"
  by (erule svc_spawn_cases) simp_all

lemma svc_evts_stopping:
  assumes "world_ok w" "is_svc w i" "s_state (svc_at w i) = TINIT_SVC_STOPPING_STAT"
  shows "svc_handle_evts E i SVC_EXIT_EVT st w = svc_spawn_stop_cmd E i w"
  using world_okD(3) [OF assms(1,2)] assms(3)
  by (auto simp: svc_handle_evts_def svc_handle_off_evts_def svc_wf_def split: handler.split)

lemma svc_evts_starting:
  assumes "world_ok w" "is_svc w i" "s_state (svc_at w i) = TINIT_SVC_STARTING_STAT"
  shows "svc_handle_evts E i SVC_EXIT_EVT 0 w =
           svc_spawn_start_cmd E i (upd_svc i (\<lambda>s. s\<lparr>s_start_cmd := Suc (s_start_cmd s)\<rparr>) w)"
  using world_okD(3) [OF assms(1,2)] assms(3)
  by (auto simp: svc_handle_evts_def svc_handle_on_evts_def svc_wf_def svc_respawn_def split: handler.split)

text \<open>One exit while stopping: the next stop command, or the end of the sequence.\<close>

lemma stop_one:
  assumes E: "vfork_ok E" and ok: "world_ok w" and i: "is_svc w i"
    and st: "s_state (svc_at w i) = TINIT_SVC_STOPPING_STAT" and k: "s_stop_cmd (svc_at w i) = int k - 1"
    and w': "w' = svc_handle_evts E i SVC_EXIT_EVT status w"
  shows "world_ok w'" "is_svc w' i" "s_conf (svc_at w' i) = s_conf (svc_at w i)"
    "k < conf_get_stop_cmd_nr (s_conf (svc_at w i)) \<Longrightarrow>
       s_state (svc_at w' i) = TINIT_SVC_STOPPING_STAT \<and> s_stop_cmd (svc_at w' i) = int (Suc k) - 1 \<and>
       spawned_cmds i (w_log w') = spawned_cmds i (w_log w) @ [conf_get_stop_cmd (s_conf (svc_at w i)) k]"
    "k = conf_get_stop_cmd_nr (s_conf (svc_at w i)) \<Longrightarrow>
       s_state (svc_at w' i) = TINIT_SVC_STOPPED_STAT \<and> s_child (svc_at w' i) = -1"
proof -
  have w': "w' = svc_spawn_stop_cmd E i w"
    using w' svc_evts_stopping [OF ok i st] by simp
  have stat: "statics w' = statics w"
    unfolding w' by (rule svc_chain_statics)
  show "is_svc w' i" "s_conf (svc_at w' i) = s_conf (svc_at w i)"
    using i statics_is_svc [OF stat] statics_links(3) [OF stat i] by simp_all
  show "world_ok w'"
    unfolding w' by (rule svc_steps_ok [OF svc_spawn_stop_cmd_steps [OF E ok i st] E ok])
  have wf: "svc_wf (svc_at w i)"
    using ok i by (rule world_okD)
  then have conf: "conf_wf (s_conf (svc_at w i))"
    by (simp add: svc_wf_def)
  then have nr: "conf_get_stop_cmd_nr (s_conf (svc_at w i)) < 2 ^ 31"
    by (simp add: conf_wf_def)
  have un: "as_unsigned (int k) = k" if "k \<le> conf_get_stop_cmd_nr (s_conf (svc_at w i))"
    using that nr by (simp add: as_unsigned_small)
  show "s_state (svc_at w' i) = TINIT_SVC_STOPPED_STAT \<and> s_child (svc_at w' i) = -1"
    if over: "k = conf_get_stop_cmd_nr (s_conf (svc_at w i))"
  proof -
    have "w' = svc_mark_stopped E i (next_stop i w)"
      using i k un over by (simp add: w' svc_chain_eqs(4) stop_over_def next_stop_def)
    moreover have "svc_at (svc_mark_stopped E i (next_stop i w)) i = svc_at (stopped_world i (next_stop i w)) i"
      unfolding svc_chain_eqs(1) using i
      by (intro svc_chain_quiet(3)) (simp add: stopped_world_def is_transient_def next_stop_def)
    ultimately show ?thesis
      using i by (simp add: stopped_world_def next_stop_def)
  qed
  show "s_state (svc_at w' i) = TINIT_SVC_STOPPING_STAT \<and> s_stop_cmd (svc_at w' i) = int (Suc k) - 1 \<and>
       spawned_cmds i (w_log w') = spawned_cmds i (w_log w) @ [conf_get_stop_cmd (s_conf (svc_at w i)) k]"
    if more: "k < conf_get_stop_cmd_nr (s_conf (svc_at w i))"
  proof -
    have "w' = stop_attempt E i w"
      using i k un more by (simp add: w' svc_chain_eqs(4) stop_over_def next_stop_def)
    moreover obtain p w1 where sp: "svc_spawn E i (conf_get_stop_cmd (s_conf (svc_at w i)) k) 5 (next_stop i w) = (p, w1)"
      by fastforce
    moreover have "cmd_ok (conf_get_stop_cmd (s_conf (svc_at w i)) k)"
      using conf more by (simp add: conf_wf_def)
    ultimately show ?thesis
      using i k un more st spawn_cmds [OF _ sp] svc_spawn_at [OF sp, of i]
      by (simp add: stop_attempt_def next_stop_def)
  qed
qed

text \<open>One successful exit while starting: the next start command, or the daemon and readiness.\<close>

lemma start_attempt_cmd:
  assumes "svc_next_cmd (svc_at w i) = Some a" "cmd_ok a"
  shows "spawned_cmds i (w_log (fst (start_attempt E i w))) = spawned_cmds i (w_log w) @ [a]"
proof -
  obtain p w1 where sp: "svc_spawn E i a 1 w = (p, w1)"
    by fastforce
  then show ?thesis
    using assms spawn_cmds [OF assms(2) sp] by (simp add: start_attempt_def)
qed

lemma start_attempt_state:
  "is_svc w i \<Longrightarrow> s_state (svc_at (fst (start_attempt E i w)) i) = s_state (svc_at w i) \<and>
     s_start_cmd (svc_at (fst (start_attempt E i w)) i) = s_start_cmd (svc_at w i)"
  by (auto simp: start_attempt_def svc_spawn_at split: option.splits prod.splits)

lemma start_attempt_child:
  assumes "start_attempt E i w = (w1, fin)" "is_svc w i" "\<not> fin"
    "\<not> s_start_cmd (svc_at w i) < conf_get_start_cmd_nr (s_conf (svc_at w i))"
  shows "s_child (svc_at w1 i) < 0"
  using assms by (auto simp: start_attempt_def svc_spawn_at split: option.splits prod.splits)

lemma mark_ready_ready: "is_svc w i \<Longrightarrow> s_state (svc_at (svc_mark_ready E i w) i) = TINIT_SVC_READY_STAT"
  unfolding svc_chain_eqs(2)
  using svc_chain_quiet(3) [of "ready_world i w" i E] by (simp add: ready_world_def is_transient_def)

lemma next_cmd_ok: "conf_wf (s_conf s) \<Longrightarrow> svc_next_cmd s = Some a \<Longrightarrow> cmd_ok a"
  by (auto simp: conf_wf_def svc_next_cmd_def split: if_splits)

lemma start_one:
  assumes E: "vfork_ok E" and ok: "world_ok w" and i: "is_svc w i"
    and st: "s_state (svc_at w i) = TINIT_SVC_STARTING_STAT" and k: "s_start_cmd (svc_at w i) = k"
    and w': "w' = svc_handle_evts E i SVC_EXIT_EVT 0 w"
  shows "world_ok w'" "is_svc w' i" "s_conf (svc_at w' i) = s_conf (svc_at w i)"
    "Suc k < conf_get_start_cmd_nr (s_conf (svc_at w i)) \<Longrightarrow>
       s_state (svc_at w' i) = TINIT_SVC_STARTING_STAT \<and> s_start_cmd (svc_at w' i) = Suc k \<and>
       spawned_cmds i (w_log w') = spawned_cmds i (w_log w) @ [conf_get_start_cmd (s_conf (svc_at w i)) (Suc k)]"
    "Suc k = conf_get_start_cmd_nr (s_conf (svc_at w i)) \<Longrightarrow>
       s_state (svc_at w' i) = TINIT_SVC_READY_STAT \<or> s_child (svc_at w' i) < 0"
proof -
  let ?v = "upd_svc i (\<lambda>s. s\<lparr>s_start_cmd := Suc (s_start_cmd s)\<rparr>) w"
  have w': "w' = svc_spawn_start_cmd E i ?v"
    using w' svc_evts_starting [OF ok i st] by simp
  have step: "svc_step E w ?v"
    using i st by (rule Next)
  have okv: "world_ok ?v"
    using svc_step_ok [OF step E ok] .
  have stat: "statics w' = statics w"
    unfolding w' by (simp add: svc_chain_statics statics_upd svc_static_def)
  show "is_svc w' i" "s_conf (svc_at w' i) = s_conf (svc_at w i)"
    using i statics_is_svc [OF stat] statics_links(3) [OF stat i] by simp_all
  show "world_ok w'"
    unfolding w' using i st by (intro svc_steps_ok [OF svc_spawn_start_cmd_steps [OF E okv] E okv]) simp_all
  have conf: "conf_wf (s_conf (svc_at w i))"
    using world_okD(3) [OF ok i] by (simp add: svc_wf_def)
  obtain w1 fin where at: "start_attempt E i ?v = (w1, fin)"
    by fastforce
  have w1: "s_state (svc_at w1 i) = TINIT_SVC_STARTING_STAT \<and> s_start_cmd (svc_at w1 i) = Suc k" "is_svc w1 i"
    using start_attempt_state [of ?v i E] is_svc_attempts(3) [of E i ?v i] at i st k by simp_all
  have w'1: "w' = (if fin then svc_mark_ready E i w1 else w1)"
    unfolding w' svc_chain_eqs(3) at by simp
  show "s_state (svc_at w' i) = TINIT_SVC_STARTING_STAT \<and> s_start_cmd (svc_at w' i) = Suc k \<and>
       spawned_cmds i (w_log w') = spawned_cmds i (w_log w) @ [conf_get_start_cmd (s_conf (svc_at w i)) (Suc k)]"
    if more: "Suc k < conf_get_start_cmd_nr (s_conf (svc_at w i))"
  proof -
    have next_cmd: "svc_next_cmd (svc_at ?v i) = Some (conf_get_start_cmd (s_conf (svc_at w i)) (Suc k))"
      using i k more by (simp add: svc_next_cmd_def)
    have "\<not> fin"
      using at next_cmd i k more by (auto simp: start_attempt_def split: prod.splits)
    moreover have "cmd_ok (conf_get_start_cmd (s_conf (svc_at w i)) (Suc k))"
      using conf more by (simp add: conf_wf_def)
    ultimately show ?thesis
      using start_attempt_cmd [OF next_cmd, of E] at w1 w'1 by simp
  qed
  show "s_state (svc_at w' i) = TINIT_SVC_READY_STAT \<or> s_child (svc_at w' i) < 0"
    if over: "Suc k = conf_get_start_cmd_nr (s_conf (svc_at w i))"
    using start_attempt_child [OF at] over i k w'1 mark_ready_ready [OF w1(2), of E] by (cases fin) simp_all
qed

section \<open>Refinement and safety\<close>

text \<open>
  C1. Every entry point of supervision implements the abstract machine: run from a well-formed
  world, \<open>svc_start\<close>, \<open>svc_stop\<close>, \<open>svc_handle_evts\<close> (for the events the daemon can deliver)
  and the timer callback that fits the state are each a finite sequence of machine steps and end
  in a well-formed world; in particular none of their assertions fails, whatever notifications
  they set off.
\<close>

theorem supervision_refines:
  assumes "vfork_ok E" "world_ok w" "is_svc w i"
    and "evt_expected (svc_at w i) evt" "expire_expected (svc_at w i) cb"
    and "w' \<in> {svc_start E i w, svc_stop E i w, svc_handle_evts E i evt status w, svc_expire E cb i w}"
  shows "svc_steps E w w' \<and> world_ok w' \<and> \<not> w_fault w'"
proof -
  have "svc_steps E w w'"
    using assms by (auto intro: svc_start_steps svc_stop_steps svc_handle_evts_steps svc_expire_steps)
  then show ?thesis
    using svc_steps_ok [OF _ assms(1,2)] world_okD(1) by blast
qed

definition demo_starting :: "sim world" where
  "demo_starting = demo_at (run_starting 7 0) (run_starting (-1) 0)"

definition demo_stopping :: "sim world" where
  "demo_stopping = demo_at (run_stopping 7) id"

lemma demo_starting_ok [simp]:
  "world_ok demo_starting" "is_svc demo_starting i \<longleftrightarrow> i < 2"
  "svc_at demo_starting 0 = run_starting 7 0 net_svc"
  "svc_at demo_starting (Suc 0) = run_starting (-1) 0 web_svc"
  by (auto simp: demo_starting_def intro!: demo_at_ok)

lemma demo_stopping_ok [simp]:
  "world_ok demo_stopping" "is_svc demo_stopping i \<longleftrightarrow> i < 2"
  "svc_at demo_stopping 0 = run_stopping 7 net_svc" "svc_at demo_stopping (Suc 0) = web_svc"
  by (auto simp: demo_stopping_def intro!: demo_at_ok)

theorem supervision_refines_witness:
  "svc_steps sim_ext demo_starting (svc_handle_evts sim_ext 0 SVC_EXIT_EVT 0 demo_starting) \<and>
   world_ok (svc_handle_evts sim_ext 0 SVC_EXIT_EVT 0 demo_starting) \<and>
   \<not> w_fault (svc_handle_evts sim_ext 0 SVC_EXIT_EVT 0 demo_starting)"
  by (rule supervision_refines [where cb = Svc_expire_on and evt = SVC_EXIT_EVT and i = 0 and status = 0])
    (simp_all add: evt_expected_def expire_expected_def run_starting_def)



text \<open>
  C5. The log is a true trace. If the messages so far are in order and tell each service's state
  (a respawned ready service being the only one that is starting again without a message), they
  still are and do after any operation: \<open>ready\<close> is only logged for a service that was starting,
  \<open>stopped\<close> for one that was stopping. A service marked ready has run its whole start sequence.
\<close>

theorem log_is_true:
  assumes "vfork_ok E" "world_ok w" "is_svc w i" "log_true w" "ready_started w"
    and "evt_expected (svc_at w i) evt" "expire_expected (svc_at w i) cb"
    and "w' \<in> {svc_start E i w, svc_stop E i w, svc_handle_evts E i evt status w, svc_expire E cb i w}"
  shows "log_true w' \<and> ready_started w'"
  using assms
    truth.ops.start [of E w i] truth.ops.stop [of E w i] truth.ops.evts [of E w i evt status]
    truth.ops.expire [of E w i cb] started.ops.start [of E w i] started.ops.stop [of E w i]
    started.ops.evts [of E w i evt status] started.ops.expire [of E w i cb]
  by auto

theorem log_is_true_witness:
  "log_true (svc_start sim_ext 0 boot) \<and> ready_started (svc_start sim_ext 0 boot)"
proof (rule log_is_true [where E = sim_ext and w = boot and i = 0 and evt = SVC_STOP_EVT
      and cb = Svc_expire_off and status = 0])
  have at: "svc_at boot 0 = net_svc" "svc_at boot (Suc 0) = web_svc" and is_svc: "is_svc boot i \<longleftrightarrow> i < 2" for i
    by (simp_all add: boot_def numeral_2_eq_2)
  have idle: "s_state net_svc = TINIT_SVC_STOPPED_STAT" "s_state web_svc = TINIT_SVC_STOPPED_STAT"
    "s_handle_notif net_svc = Handle_off"
    by (simp_all add: net_svc_def web_svc_def idle_svc_def)
  have two: "i < 2 \<longleftrightarrow> i = 0 \<or> i = Suc 0" for i :: nat
    by auto
  have "w_log boot = []"
    by (simp add: boot_def world_of_def)
  then show "log_true boot" "ready_started boot"
    by (auto simp: log_true_def ready_started_def at idle is_svc two state_told_def)
  show "is_svc boot 0" "evt_expected (svc_at boot 0) SVC_STOP_EVT" "expire_expected (svc_at boot 0) Svc_expire_off"
    by (simp_all add: is_svc evt_expected_def expire_expected_def at idle)
qed simp_all

section \<open>What starting and stopping do\<close>

lemma may_start_prefix:
  assumes "world_ok w" "is_svc w i"
  shows "svc_may_start (start_prefix E i w) i \<longleftrightarrow>
    (\<forall>j \<in> awaited Starton (svc_at w i). j \<noteq> i \<and> s_state (svc_at w j) = TINIT_SVC_READY_STAT)"
proof -
  have stat: "statics (start_prefix E i w) = statics w"
    by (simp add: start_prefix_def statics_upd svc_static_def set_starting_def)
  have "svc_may_start (start_prefix E i w) i \<longleftrightarrow>
      (\<forall>j \<in> awaited Starton (svc_at w i). s_state (svc_at (start_prefix E i w) j) = TINIT_SVC_READY_STAT)"
    using svc_may_start_iff [of "start_prefix E i w" i] assms world_okD(2) [OF assms(1)]
      statics_links_ok [OF stat] statics_is_svc [OF stat] awaited_statics [OF stat assms(2)]
    by simp
  then show ?thesis
    using assms(2) by (auto simp: start_prefix_def svc_at_upd set_starting_def)
qed

lemma start_attempt_step:
  assumes "is_svc w i" "s_state (svc_at w i) = TINIT_SVC_STARTING_STAT" "start_attempt E i w = (w1, fin)"
  shows "svc_step E w w1" "fin \<Longrightarrow> start_done (svc_at w1 i)"
proof -
  show "svc_step E w w1"
  proof (cases "svc_next_cmd (svc_at w i)")
    case None
    then show ?thesis
      using No_daemon [OF assms(1,2) None] assms(3) by (simp add: start_attempt_def)
  next
    case (Some a)
    then show ?thesis
      using Spawn_start [OF assms(1,2) Some] assms(3) by (auto simp: start_attempt_def split: prod.splits)
  qed
  show "fin \<Longrightarrow> start_done (svc_at w1 i)"
    using assms
    by (auto simp: start_attempt_def start_done_def svc_next_cmd_def svc_spawn_at
        split: option.splits prod.splits if_splits)
qed

lemma mark_ready_log:
  assumes E: "vfork_ok E" and ok: "world_ok w" and i: "is_svc w i"
    and st: "s_state (svc_at w i) = TINIT_SVC_STARTING_STAT" and fin: "start_done (svc_at w i)"
  shows "\<exists>ms. w_log (svc_mark_ready E i w) = ms @ Log_ready i # w_log w"
proof -
  have ok1: "world_ok (ready_world i w)"
    unfolding ready_world_def using svc_step_ok [OF Ready [OF i st fin] E ok] .
  have "svc_steps E (ready_world i w) (svc_mark_ready E i w)"
    unfolding svc_chain_eqs(2)
    using i links_sink [OF world_okD(2) [OF ok1], of i _ Starton]
    by (intro svc_chain_steps(3) [OF E refl ok1]) (auto simp: svc_obsrv_def)
  from log_grows.steps [OF this E ok1] show ?thesis
    by (auto simp: ready_world_def)
qed

text \<open>The first message of a spawn attempt.\<close>

lemma spawn_start_cmd_log:
  assumes E: "vfork_ok E" and ok: "world_ok w" and i: "is_svc w i"
    and st: "s_state (svc_at w i) = TINIT_SVC_STARTING_STAT"
  shows "\<exists>ms m. w_log (svc_spawn_start_cmd E i w) = ms @ m # w_log w \<and>
    (case svc_next_cmd (svc_at w i) of
       None \<Rightarrow> m = Log_ready i
     | Some a \<Rightarrow> \<exists>p. m = Log_spawned i a p \<or> m = Log_cannot_spawn i a p)"
proof -
  obtain w1 fin where at: "start_attempt E i w = (w1, fin)"
    by fastforce
  note step = start_attempt_step [OF i st at]
  have w1: "is_svc w1 i" "s_state (svc_at w1 i) = TINIT_SVC_STARTING_STAT" "world_ok w1"
    using is_svc_attempts(3) [of E i w i] start_attempt_state [OF i, of E] at i st
      svc_step_ok [OF step(1) E ok] by simp_all
  have ready: "fin \<Longrightarrow> \<exists>ms. w_log (svc_spawn_start_cmd E i w) = ms @ Log_ready i # w_log w1"
    using mark_ready_log [OF E w1(3,1,2) step(2)] by (simp add: svc_chain_eqs(3) at)
  have grow: "\<exists>ms. w_log (svc_spawn_start_cmd E i w) = ms @ w_log w1"
    using ready by (cases fin) (auto simp: svc_chain_eqs(3) at)
  show ?thesis
  proof (cases "svc_next_cmd (svc_at w i)")
    case None
    then have "w_log w1 = w_log w" fin
      using at by (auto simp: start_attempt_def)
    with ready None show ?thesis
      by auto
  next
    case (Some a)
    obtain p w3 where sp: "svc_spawn E i a 1 w = (p, w3)"
      by fastforce
    have "cmd_ok a"
      by (rule svc_next_cmd_ok [OF world_okD(3) [OF ok i] Some])
    then have "\<exists>m p. w_log w1 = m # w_log w \<and> (m = Log_spawned i a p \<or> m = Log_cannot_spawn i a p)"
      using sp Some at by (auto simp: start_attempt_def elim!: svc_spawn_cases)
    with grow Some show ?thesis
      by auto
  qed
qed

text \<open>
  C15. \<open>svc_start\<close> on every branch: while some service to start after is not ready, nothing is
  spawned, the service is starting and only its timer's callback is registered; once all are
  ready, the next thing logged after the start is the attempt to spawn its first start command,
  its daemon when it has no start command, or its readiness when it has neither.
\<close>

theorem svc_start_spec:
  assumes "vfork_ok E" "world_ok w" "is_svc w i"
  shows "let w' = svc_start E i w in
    if \<exists>j \<in> awaited Starton (svc_at w i). j = i \<or> s_state (svc_at w j) \<noteq> TINIT_SVC_READY_STAT
    then w_log w' = Log_starting i # w_log w \<and> w_kern w' = x_timer_setup E i Svc_expire_on (w_kern w) \<and>
         svc_at w' i = set_starting (svc_at w i)
    else \<exists>ms m. w_log w' = ms @ m # Log_starting i # w_log w \<and>
         (case svc_next_cmd (set_starting (svc_at w i)) of
            None \<Rightarrow> m = Log_ready i
          | Some a \<Rightarrow> \<exists>p. m = Log_spawned i a p \<or> m = Log_cannot_spawn i a p)"
proof -
  let ?v = "start_prefix E i w"
  have v: "w_log ?v = Log_starting i # w_log w" "w_kern ?v = x_timer_setup E i Svc_expire_on (w_kern w)"
    "svc_at ?v i = set_starting (svc_at w i)" "is_svc ?v i"
    using assms(3) by (simp_all add: start_prefix_def)
  have okv: "world_ok ?v"
    unfolding start_prefix_def using svc_step_ok [OF Start [OF assms(3)] assms(1,2)] .
  have st: "s_state (svc_at ?v i) = TINIT_SVC_STARTING_STAT"
    using v by (simp add: set_starting_def)
  show ?thesis
    using spawn_start_cmd_log [OF assms(1) okv v(4) st] may_start_prefix [OF assms(2,3), of E] v
    by (auto simp: Let_def svc_start_eq)
qed

lemma demo_may_start:
  "svc_may_start (start_prefix sim_ext 0 boot) 0" "\<not> svc_may_start (start_prefix sim_ext 1 boot) 1"
  by (simp_all add: start_prefix_def svc_may_start_def boot_def net_svc_def web_svc_def idle_svc_def
      set_starting_def svc_at_upd poll_srcs_def)

lemma boot_sel [simp]:
  "svc_at boot 0 = net_svc" "svc_at boot (Suc 0) = web_svc" "is_svc boot i \<longleftrightarrow> i < 2" "w_log boot = []"
  "w_kern boot = sim_start"
  by (simp_all add: boot_def numeral_2_eq_2) (simp_all add: world_of_def)

lemma awaited_demo [simp]: "awaited Starton net_svc = {}" "awaited Starton web_svc = {0}"
  by (auto simp: awaited_def svc_poll_def poll_srcs_def net_svc_def web_svc_def idle_svc_def)

theorem svc_start_spec_witness:
  "w_log (svc_start sim_ext 1 boot) = [Log_starting 1] \<and>
   (\<exists>ms m p. w_log (svc_start sim_ext 0 boot) = ms @ [m, Log_starting 0] \<and>
      (m = Log_spawned 0 [Some ''/sbin/ifup''] p \<or> m = Log_cannot_spawn 0 [Some ''/sbin/ifup''] p))"
proof
  have idle: "s_state net_svc = TINIT_SVC_STOPPED_STAT"
    by (simp add: net_svc_def idle_svc_def)
  show "w_log (svc_start sim_ext 1 boot) = [Log_starting 1]"
    using svc_start_spec [of sim_ext boot 1] by (simp add: Let_def idle)
  have "svc_next_cmd (set_starting net_svc) = Some [Some ''/sbin/ifup'']"
    by (simp add: svc_next_cmd_def set_starting_def net_svc_def idle_svc_def conf_defs net_conf_def
        seq_of_def args1_def)
  then show "\<exists>ms m p. w_log (svc_start sim_ext 0 boot) = ms @ [m, Log_starting 0] \<and>
      (m = Log_spawned 0 [Some ''/sbin/ifup''] p \<or> m = Log_cannot_spawn 0 [Some ''/sbin/ifup''] p)"
    using svc_start_spec [of sim_ext boot 0] by (auto simp: Let_def)
qed

text \<open>Exits of the child of \<open>i\<close>, one after another.\<close>

definition exits :: "'k ext \<Rightarrow> svc_id \<Rightarrow> int \<Rightarrow> nat \<Rightarrow> 'k world \<Rightarrow> 'k world" where
  "exits E i status n = (svc_handle_evts E i SVC_EXIT_EVT status) ^^ n"

lemma exits_simps [simp]:
  "exits E i status 0 w = w"
  "exits E i status (Suc n) w = svc_handle_evts E i SVC_EXIT_EVT status (exits E i status n w)"
  by (simp_all add: exits_def)

lemma exits_stopping:
  assumes "vfork_ok E" "world_ok w" "is_svc w i" "s_state (svc_at w i) = TINIT_SVC_STOPPING_STAT"
    "s_stop_cmd (svc_at w i) = -1" "k \<le> conf_get_stop_cmd_nr (s_conf (svc_at w i))"
  shows "world_ok (exits E i status k w) \<and> is_svc (exits E i status k w) i \<and>
    s_conf (svc_at (exits E i status k w) i) = s_conf (svc_at w i) \<and>
    s_state (svc_at (exits E i status k w) i) = TINIT_SVC_STOPPING_STAT \<and>
    s_stop_cmd (svc_at (exits E i status k w) i) = int k - 1 \<and>
    spawned_cmds i (w_log (exits E i status k w)) =
      spawned_cmds i (w_log w) @ map (conf_get_stop_cmd (s_conf (svc_at w i))) [0..<k]"
  using assms(6)
proof (induction k)
  case 0
  with assms show ?case by simp
next
  case (Suc k)
  let ?w = "exits E i status k w"
  have "world_ok ?w" "is_svc ?w i" "s_state (svc_at ?w i) = TINIT_SVC_STOPPING_STAT"
    "s_stop_cmd (svc_at ?w i) = int k - 1"
    using Suc by simp_all
  note one = stop_one [OF assms(1) this refl]
  from one(1-3) one(4) [of status] Suc show ?case
    by simp
qed

text \<open>
  C17. The stop sequence. From the moment its stop signal has been sent, each exit of the child of a
  stopping service spawns the next of its stop commands, in the order of the configuration, and
  the exit after the last one marks it stopped, without a child.
\<close>

theorem stop_sequence:
  assumes "vfork_ok E" "world_ok w" "is_svc w i"
    and "s_state (svc_at w i) = TINIT_SVC_STOPPING_STAT" "s_stop_cmd (svc_at w i) = -1"
    and "n = conf_get_stop_cmd_nr (s_conf (svc_at w i))"
  shows "(\<forall>k \<le> n. s_state (svc_at (exits E i status k w) i) = TINIT_SVC_STOPPING_STAT \<and>
      spawned_cmds i (w_log (exits E i status k w)) =
        spawned_cmds i (w_log w) @ map (conf_get_stop_cmd (s_conf (svc_at w i))) [0..<k]) \<and>
    s_state (svc_at (exits E i status (Suc n) w) i) = TINIT_SVC_STOPPED_STAT \<and>
    s_child (svc_at (exits E i status (Suc n) w) i) = -1"
proof -
  let ?w = "exits E i status n w"
  note n = exits_stopping [OF assms(1-5), of n status]
  have "world_ok ?w" "is_svc ?w i" "s_state (svc_at ?w i) = TINIT_SVC_STOPPING_STAT"
    "s_stop_cmd (svc_at ?w i) = int n - 1"
    using n assms(6) by simp_all
  from stop_one(5) [OF assms(1) this refl, of status] n assms(6) exits_stopping [OF assms(1-5)]
  show ?thesis
    by simp
qed

theorem stop_sequence_witness:
  "spawned_cmds 0 (w_log (exits sim_ext 0 0 1 demo_stopping)) = [[Some ''/sbin/ifdown'']] \<and>
   s_state (svc_at (exits sim_ext 0 0 2 demo_stopping) 0) = TINIT_SVC_STOPPED_STAT"
proof -
  have "spawned_cmds 0 (w_log demo_stopping) = []"
    by (simp add: demo_stopping_def demo_at_def world_of_def)
  moreover have "conf_get_stop_cmd_nr (s_conf (svc_at demo_stopping 0)) = 1"
    "conf_get_stop_cmd (s_conf (svc_at demo_stopping 0)) 0 = [Some ''/sbin/ifdown'']"
    by (simp_all add: run_stopping_def net_svc_def idle_svc_def net_conf_def conf_defs seq_of_def args1_def)
  ultimately show ?thesis
    using stop_sequence [of sim_ext demo_stopping 0 1 0]
    by (simp add: run_stopping_def numeral_2_eq_2 del: exits_simps)
qed

lemma exits_starting:
  assumes "vfork_ok E" "world_ok w" "is_svc w i" "s_state (svc_at w i) = TINIT_SVC_STARTING_STAT"
    "s_start_cmd (svc_at w i) = 0" "k < conf_get_start_cmd_nr (s_conf (svc_at w i))"
  shows "world_ok (exits E i 0 k w) \<and> is_svc (exits E i 0 k w) i \<and>
    s_conf (svc_at (exits E i 0 k w) i) = s_conf (svc_at w i) \<and>
    s_state (svc_at (exits E i 0 k w) i) = TINIT_SVC_STARTING_STAT \<and>
    s_start_cmd (svc_at (exits E i 0 k w) i) = k \<and>
    spawned_cmds i (w_log (exits E i 0 k w)) =
      spawned_cmds i (w_log w) @ map (conf_get_start_cmd (s_conf (svc_at w i))) [1..<Suc k]"
  using assms(6)
proof (induction k)
  case 0
  with assms show ?case by simp
next
  case (Suc k)
  let ?w = "exits E i 0 k w"
  have "world_ok ?w" "is_svc ?w i" "s_state (svc_at ?w i) = TINIT_SVC_STARTING_STAT"
    "s_start_cmd (svc_at ?w i) = k"
    using Suc by simp_all
  note one = start_one [OF assms(1) this refl]
  from one(1-3) one(4) Suc show ?case
    by simp
qed



text \<open>
  C36. A daemon that dies within the delay of its timer is not run again: the exit of a ready
  service with its timer armed forgets the child and leaves the service ready, and the timer's
  callback finds it ready and does nothing.
\<close>

theorem early_exit_not_respawned:
  assumes "world_ok w" "is_svc w i" "s_state (svc_at w i) = TINIT_SVC_READY_STAT"
    and "x_timer_is_armed E i (w_kern w)"
  shows "svc_expire E Svc_expire_on i (svc_handle_evts E i SVC_EXIT_EVT status w) =
         upd_svc i (\<lambda>s. s\<lparr>s_child := -1\<rparr>) w"
  using world_okD(3) [OF assms(1,2)] assms
  by (auto simp: svc_handle_evts_def svc_handle_on_evts_def svc_wf_def svc_expire_def svc_expire_on_def)

definition demo_ready :: "sim world" where
  "demo_ready = upd_kern (x_timer_arm_sec sim_ext 0 1) (demo_at (run_ready 7) (run_ready 8))"

theorem early_exit_not_respawned_witness:
  "s_state (svc_at (svc_expire sim_ext Svc_expire_on 0 (svc_handle_evts sim_ext 0 SVC_EXIT_EVT 256 demo_ready)) 0)
     = TINIT_SVC_READY_STAT \<and>
   s_child (svc_at (svc_expire sim_ext Svc_expire_on 0 (svc_handle_evts sim_ext 0 SVC_EXIT_EVT 256 demo_ready)) 0)
     = -1"
proof -
  have ok: "world_ok (demo_at (run_ready 7) (run_ready 8))"
    by (rule demo_at_ok) simp_all
  have "svc_step sim_ext (demo_at (run_ready 7) (run_ready 8)) demo_ready"
    unfolding demo_ready_def by (rule Arm)
  then have "world_ok demo_ready"
    using svc_step_ok ok sim_vfork_ok by blast
  then show ?thesis
    using early_exit_not_respawned [of demo_ready 0 sim_ext 256]
    by (simp add: demo_ready_def run_ready_def)
qed

end
