(* ===== verification/Observers.thy ===== *)
theory Observers imports Svc_Props begin

text \<open>
  Notification links (\<open>notif.c\<close>) and the part of \<open>svc.c\<close> that builds and takes down a service:
  creation with its polls, registration of observers with the detection of loops, destruction.
  The start-on and the stop-on relation share one definition each here, indexed by \<open>dep\<close>.

  The locale \<open>notifier_graph\<close> is what the repository relies on when it links services: whatever is
  registered, in whatever order, the relation has no cycle. It is interpreted for both relations.
\<close>

definition upd_poll :: "dep \<Rightarrow> (notif_poll \<Rightarrow> notif_poll) \<Rightarrow> svc \<Rightarrow> svc" where
  "upd_poll d f s = (case d of
      Starton \<Rightarrow> s\<lparr>s_starton_notif := map_option f (s_starton_notif s)\<rparr>
    | Stopon \<Rightarrow> s\<lparr>s_stopon_notif := map_option f (s_stopon_notif s)\<rparr>)"

definition upd_obsrv :: "dep \<Rightarrow> (notif_ref list \<Rightarrow> notif_ref list) \<Rightarrow> svc \<Rightarrow> svc" where
  "upd_obsrv d f s = (case d of
      Starton \<Rightarrow> s\<lparr>s_starton_obsrv := f (s_starton_obsrv s)\<rparr>
    | Stopon \<Rightarrow> s\<lparr>s_stopon_obsrv := f (s_stopon_obsrv s)\<rparr>)"

section \<open>notif.c\<close>

text \<open>
  A member's list node and its source are set together: the member goes to the back of the
  source's observer list.
\<close>

definition notif_register_sink :: "dep \<Rightarrow> notif_ref \<Rightarrow> svc_id \<Rightarrow> 'k world \<Rightarrow> 'k world" where
  "notif_register_sink d r src w =
     (if notif_get_src w d r \<noteq> None then fault w
      else upd_svc src (upd_obsrv d (\<lambda>l. l @ [r]))
             (upd_svc (fst r)
               (upd_poll d (\<lambda>q. q\<lparr>p_members := (p_members q)[snd r := (p_members q ! snd r)\<lparr>n_src := Some src\<rparr>]\<rparr>)) w))"

definition notif_unregister_sink :: "dep \<Rightarrow> notif_ref \<Rightarrow> 'k world \<Rightarrow> 'k world" where
  "notif_unregister_sink d r w = (case notif_get_src w d r of
      None \<Rightarrow> w
    | Some src \<Rightarrow>
        upd_svc (fst r)
          (upd_poll d (\<lambda>q. q\<lparr>p_members := (p_members q)[snd r := (p_members q ! snd r)\<lparr>n_src := None\<rparr>]\<rparr>))
          (upd_svc src (upd_obsrv d (filter (\<lambda>x. x \<noteq> r))) w))"

text \<open>
  Registering with a full poll writes behind its members; the assertion allows \<open>cnt = nr\<close>, so the
  model raises the fault itself.
\<close>

definition notif_register_poll_sink :: "dep \<Rightarrow> svc_id \<Rightarrow> svc_id \<Rightarrow> 'k world \<Rightarrow> 'k world" where
  "notif_register_poll_sink d obsrv src w = (case svc_poll d (svc_at w obsrv) of
      None \<Rightarrow> fault w
    | Some q \<Rightarrow>
        (if p_nr q = 0 \<or> p_nr q \<le> p_cnt q then fault w
         else upd_svc obsrv (upd_poll d (\<lambda>q. q\<lparr>p_cnt := Suc (p_cnt q)\<rparr>))
                (notif_register_sink d (obsrv, p_cnt q) src w)))"

definition notif_unregister_poll_sinks :: "dep \<Rightarrow> svc_id \<Rightarrow> 'k world \<Rightarrow> 'k world" where
  "notif_unregister_poll_sinks d i w = (case svc_poll d (svc_at w i) of
      None \<Rightarrow> w
    | Some q \<Rightarrow>
        upd_svc i (upd_poll d (\<lambda>q. q\<lparr>p_cnt := 0\<rparr>))
          (fold (\<lambda>m. notif_unregister_sink d (i, m)) [0..<p_cnt q] w))"

definition notif_create_sink_poll :: "svc_id \<Rightarrow> nat \<Rightarrow> mem \<Rightarrow> notif_poll option \<times> mem" where
  "notif_create_sink_poll sink nr m = (case mem_alloc m of
      (False, m') \<Rightarrow> (None, m')
    | (True, m') \<Rightarrow>
        (Some \<lparr>p_cnt = 0, p_nr = nr, p_members = replicate nr \<lparr>n_src = None, n_sink = sink\<rparr>\<rparr>, m'))"

text \<open>Destroying the poll frees it; the service's pointer to it is left dangling and goes with it.\<close>

definition notif_destroy_sink_poll :: "dep \<Rightarrow> svc_id \<Rightarrow> 'k world \<Rightarrow> 'k world" where
  "notif_destroy_sink_poll d i w = notif_unregister_poll_sinks d i w"

section \<open>Creating and destroying services\<close>

definition svc_init_notif_obsrv ::
  "svc_id \<Rightarrow> strarr option \<Rightarrow> mem \<Rightarrow> int \<times> notif_poll option \<times> mem" where
  "svc_init_notif_obsrv i conf m = (case conf of
      None \<Rightarrow> (0, None, m)
    | Some a \<Rightarrow> (case notif_create_sink_poll i (strarr_nr a) m of
          (None, m') \<Rightarrow> (- ENOMEM, None, m')
        | (Some q, m') \<Rightarrow> (0, Some q, m')))"

text \<open>
  \<open>svc_init\<close> for the service that is number \<open>i\<close>: the initialised descriptor, or an error that
  leaves the descriptor as \<open>malloc\<close> returned it. \<open>start_cmd\<close> and \<open>stop_cmd\<close> are not written; both
  are set before they are read, and are zero here.
\<close>

definition svc_init :: "svc_id \<Rightarrow> conf_svc \<Rightarrow> mem \<Rightarrow> (int + svc) \<times> mem" where
  "svc_init i conf m = (case svc_init_notif_obsrv i (conf_get_starton conf) m of
      (err, starton, m1) \<Rightarrow>
        if err \<noteq> 0 then (Inl err, m1)
        else case svc_init_notif_obsrv i (conf_get_stopon conf) m1 of
          (err, stopon, m2) \<Rightarrow>
            if err \<noteq> 0 then (Inl err, if starton = None then m2 else mem_free 1 m2)
            else (Inr \<lparr>s_handle_evts = Handle_off, s_child = -1, s_state = TINIT_SVC_STOPPED_STAT,
                    s_handle_notif = Handle_off, s_start_cmd = 0, s_starton_obsrv = [],
                    s_starton_notif = starton, s_stop_cmd = 0, s_stopon_obsrv = [],
                    s_stopon_notif = stopon, s_conf = conf\<rparr>, m2))"

text \<open>
  \<open>svc_create\<close> looks at \<open>malloc\<close> only: when \<open>svc_init\<close> fails, it returns the descriptor it could
  not initialise (\<open>Dangling\<close>).
\<close>

definition svc_create :: "svc_id \<Rightarrow> conf_svc \<Rightarrow> mem \<Rightarrow> svc ptr \<times> mem" where
  "svc_create i conf m = (case mem_alloc m of
      (False, m') \<Rightarrow> (Null, m')
    | (True, m') \<Rightarrow> (case svc_init i conf m' of
          (Inl err, m'') \<Rightarrow> (Dangling, m'')
        | (Inr s, m'') \<Rightarrow> (Ptr s, m'')))"

text \<open>The loop empties the list: every turn unregisters, and so removes, its first element.\<close>

definition svc_unregister_notif_obsrv :: "dep \<Rightarrow> svc_id \<Rightarrow> 'k world \<Rightarrow> 'k world" where
  "svc_unregister_notif_obsrv d i w =
     notif_destroy_sink_poll d i
       (fold (\<lambda>r. notif_unregister_sink d r) (svc_obsrv d (svc_at w i)) w)"

definition svc_fini :: "svc_id \<Rightarrow> 'k world \<Rightarrow> 'k world" where
  "svc_fini i w = svc_unregister_notif_obsrv Stopon i (svc_unregister_notif_obsrv Starton i w)"

section \<open>Registering observers\<close>

text \<open>
  The search recurses along the sources, with fuel: the depth of the C recursion. \<open>None\<close> is a
  search that does not end within it (or meets a NULL source).
\<close>

fun svc_has_notifier :: "nat \<Rightarrow> dep \<Rightarrow> 'k world \<Rightarrow> svc_id \<Rightarrow> svc_id \<Rightarrow> bool option"
  and svc_any_notifier :: "nat \<Rightarrow> dep \<Rightarrow> 'k world \<Rightarrow> svc_id option list \<Rightarrow> svc_id \<Rightarrow> bool option" where
  "svc_has_notifier 0 d w i match = None"
| "svc_has_notifier (Suc n) d w i match =
     (if i = match then Some True
      else svc_any_notifier n d w (poll_srcs (svc_poll d (svc_at w i))) match)"
| "svc_any_notifier n d w [] match = Some False"
| "svc_any_notifier n d w (None # r) match = None"
| "svc_any_notifier n d w (Some i # r) match =
     (case svc_has_notifier n d w i match of
        Some False \<Rightarrow> svc_any_notifier n d w r match
      | x \<Rightarrow> x)"

definition svc_has_starton_notifier :: "'k world \<Rightarrow> svc_id \<Rightarrow> svc_id \<Rightarrow> bool option" where
  "svc_has_starton_notifier w = svc_has_notifier (Suc (length (w_svcs w))) Starton w"

definition svc_has_stopon_notifier :: "'k world \<Rightarrow> svc_id \<Rightarrow> svc_id \<Rightarrow> bool option" where
  "svc_has_stopon_notifier w = svc_has_notifier (Suc (length (w_svcs w))) Stopon w"

text \<open>\<open>obsrv\<close> asks to be notified by \<open>i\<close>. The messages, errors included, only go to the log.\<close>

definition svc_register_starton_obsrv :: "svc_id \<Rightarrow> svc_id \<Rightarrow> 'k world \<Rightarrow> 'k world" where
  "svc_register_starton_obsrv i obsrv w =
     (if svc_poll Starton (svc_at w obsrv) = None then fault w
      else case svc_has_starton_notifier w i obsrv of
        None \<Rightarrow> fault w
      | Some True \<Rightarrow> w
      | Some False \<Rightarrow> notif_register_poll_sink Starton obsrv i w)"

definition svc_register_stopon_obsrv :: "svc_id \<Rightarrow> svc_id \<Rightarrow> 'k world \<Rightarrow> 'k world" where
  "svc_register_stopon_obsrv i obsrv w =
     (if svc_poll Stopon (svc_at w obsrv) = None then fault w
      else case svc_has_stopon_notifier w i obsrv of
        None \<Rightarrow> fault w
      | Some True \<Rightarrow> w
      | Some False \<Rightarrow> notif_register_poll_sink Stopon obsrv i w)"

section \<open>The search for a notifier\<close>

definition edges :: "dep \<Rightarrow> 'k world \<Rightarrow> (svc_id \<times> svc_id) set" where
  "edges d w = {(i, j). is_svc w i \<and> j \<in> awaited d (svc_at w i)}"

lemma awaited_svc:
  assumes "links_ok w" "is_svc w i" "j \<in> awaited d (svc_at w i)"
  shows "is_svc w j"
proof -
  obtain q where q: "svc_poll d (svc_at w i) = Some q" "Some j \<in> set (poll_srcs (Some q))"
    using assms(3) by (cases "svc_poll d (svc_at w i)") (auto simp: awaited_def poll_srcs_def)
  then have ok: "poll_ok d w i q"
    using assms by (simp add: links_ok_def)
  obtain m where "m < p_cnt q" "n_src (p_members q ! m) = Some j"
    using q(2) ok by (auto simp: poll_srcs_def in_set_conv_nth poll_ok_def)
  then show ?thesis
    using ok by (force simp: poll_ok_def)
qed

lemma edges_svc: "links_ok w \<Longrightarrow> (i, j) \<in> edges d w \<Longrightarrow> is_svc w i \<and> is_svc w j"
  by (auto simp: edges_def intro: awaited_svc)

lemma reach_svc: "(i, j) \<in> (edges d w)\<^sup>* \<Longrightarrow> links_ok w \<Longrightarrow> is_svc w i \<Longrightarrow> is_svc w j"
  by (induction rule: rtrancl_induct) (auto dest: edges_svc)

lemma srcs_some:
  assumes "links_ok w" "is_svc w i"
  shows "\<forall>s \<in> set (poll_srcs (svc_poll d (svc_at w i))). s \<noteq> None"
proof (cases "svc_poll d (svc_at w i)")
  case (Some q)
  then have "poll_ok d w i q"
    using assms by (simp add: links_ok_def)
  with Some show ?thesis
    using poll_srcs_ok(1) by metis
qed (simp add: poll_srcs_def)

text \<open>The answer, when there is one, is reachability.\<close>

lemma has_notifier_sound:
  "svc_has_notifier n d w i match = Some b \<Longrightarrow> links_ok w \<Longrightarrow> is_svc w i \<Longrightarrow>
     b = ((i, match) \<in> (edges d w)\<^sup>*)"
  "svc_any_notifier n d w ss match = Some b \<Longrightarrow> links_ok w \<Longrightarrow> \<forall>s \<in> set ss. \<exists>j. s = Some j \<and> is_svc w j \<Longrightarrow>
     b = (\<exists>j. Some j \<in> set ss \<and> (j, match) \<in> (edges d w)\<^sup>*)"
proof (induction n d w i match and n d w ss match arbitrary: b and b
    rule: svc_has_notifier_svc_any_notifier.induct)
  case (2 n d w i match)
  have srcs: "\<forall>s \<in> set (poll_srcs (svc_poll d (svc_at w i))). \<exists>j. s = Some j \<and> is_svc w j"
  proof
    fix s
    assume s: "s \<in> set (poll_srcs (svc_poll d (svc_at w i)))"
    then obtain j where "s = Some j"
      using srcs_some [OF "2.prems"(2,3)] by blast
    with s show "\<exists>j. s = Some j \<and> is_svc w j"
      using awaited_svc [OF "2.prems"(2,3), of j d] by (auto simp: awaited_def)
  qed
  have step: "(\<exists>j. Some j \<in> set (poll_srcs (svc_poll d (svc_at w i))) \<and> (j, match) \<in> (edges d w)\<^sup>*) \<longleftrightarrow>
      (i, match) \<in> (edges d w)\<^sup>*" if ne: "i \<noteq> match"
  proof
    assume "\<exists>j. Some j \<in> set (poll_srcs (svc_poll d (svc_at w i))) \<and> (j, match) \<in> (edges d w)\<^sup>*"
    then obtain j where "(i, j) \<in> edges d w" "(j, match) \<in> (edges d w)\<^sup>*"
      using "2.prems" by (auto simp: edges_def awaited_def)
    then show "(i, match) \<in> (edges d w)\<^sup>*"
      by (rule converse_rtrancl_into_rtrancl)
  next
    assume "(i, match) \<in> (edges d w)\<^sup>*"
    then obtain j where "(i, j) \<in> edges d w" "(j, match) \<in> (edges d w)\<^sup>*"
      using ne by (cases rule: converse_rtranclE) auto
    then show "\<exists>j. Some j \<in> set (poll_srcs (svc_poll d (svc_at w i))) \<and> (j, match) \<in> (edges d w)\<^sup>*"
      by (auto simp: edges_def awaited_def)
  qed
  show ?case
    using "2.IH" [of b] "2.prems" srcs step by (cases "i = match") simp_all
next
  case (5 n d w i r match)
  have i: "is_svc w i" "\<forall>s \<in> set r. \<exists>j. s = Some j \<and> is_svc w j"
    using "5.prems"(3) by simp_all
  show ?case
    using "5.prems" "5.IH"(1) [OF _ "5.prems"(2) i(1)] "5.IH"(2) [OF _ _ _ "5.prems"(2) i(2)]
    by (auto split: option.splits bool.splits)
qed auto

lemma finite_reach: "links_ok w \<Longrightarrow> is_svc w i \<Longrightarrow> finite {j. (i, j) \<in> (edges d w)\<^sup>*}"
  by (rule finite_subset [of _ "{..<length (w_svcs w)}"]) (auto dest: reach_svc simp: is_svc_def)

lemma reach_less:
  assumes ac: "acyclic (edges d w)" and ok: "links_ok w" and e: "(i, j) \<in> edges d w"
  shows "card {k. (j, k) \<in> (edges d w)\<^sup>*} < card {k. (i, k) \<in> (edges d w)\<^sup>*}"
proof (rule psubset_card_mono)
  show "finite {k. (i, k) \<in> (edges d w)\<^sup>*}"
    using finite_reach [OF ok] edges_svc [OF ok e] by blast
  have "(j, i) \<notin> (edges d w)\<^sup>*"
    using ac e by (meson acyclic_def rtrancl_into_trancl2)
  then show "{k. (j, k) \<in> (edges d w)\<^sup>*} \<subset> {k. (i, k) \<in> (edges d w)\<^sup>*}"
    using e by (auto intro: converse_rtrancl_into_rtrancl)
qed

text \<open>Fuel: one unit per service that can be reached. With no cycle the search ends within it.\<close>

lemma has_notifier_total:
  "links_ok w \<Longrightarrow> acyclic (edges d w) \<Longrightarrow> is_svc w i \<Longrightarrow> card {k. (i, k) \<in> (edges d w)\<^sup>*} < n \<Longrightarrow>
     svc_has_notifier n d w i match \<noteq> None"
  "links_ok w \<Longrightarrow> acyclic (edges d w) \<Longrightarrow>
     \<forall>s \<in> set ss. \<exists>j. s = Some j \<and> is_svc w j \<and> card {k. (j, k) \<in> (edges d w)\<^sup>*} < n \<Longrightarrow>
     svc_any_notifier n d w ss match \<noteq> None"
proof (induction n d w i match and n d w ss match rule: svc_has_notifier_svc_any_notifier.induct)
  case (1 d w i match)
  from "1.prems"(4) show ?case by simp
next
  case (3 n d w match)
  show ?case by simp
next
  case (4 n d w r match)
  from "4.prems"(3) show ?case by simp
next
  case (2 n d w i match)
  have "\<exists>j. s = Some j \<and> is_svc w j \<and> card {k. (j, k) \<in> (edges d w)\<^sup>*} < n"
    if s: "s \<in> set (poll_srcs (svc_poll d (svc_at w i)))" for s
  proof -
    obtain j where j: "s = Some j"
      using srcs_some [OF "2.prems"(1,3)] s by blast
    then have "(i, j) \<in> edges d w"
      using s "2.prems" by (simp add: edges_def awaited_def)
    with j show ?thesis
      using reach_less [OF "2.prems"(2,1), of i j] edges_svc [OF "2.prems"(1), of i j] "2.prems"(4) by auto
  qed
  with "2.IH" "2.prems" show ?case by auto
next
  case (5 n d w i r match)
  then obtain b where "svc_has_notifier n d w i match = Some b"
    by auto
  with 5 show ?case
    by (cases b) simp_all
qed

lemma has_notifier_iff:
  assumes "links_ok w" "acyclic (edges d w)" "is_svc w i"
  shows "svc_has_notifier (Suc (length (w_svcs w))) d w i match = Some ((i, match) \<in> (edges d w)\<^sup>*)"
proof -
  have "card {k. (i, k) \<in> (edges d w)\<^sup>*} \<le> card {..<length (w_svcs w)}"
    using assms by (intro card_mono) (auto dest: reach_svc simp: is_svc_def)
  then have "svc_has_notifier (Suc (length (w_svcs w))) d w i match \<noteq> None"
    using assms by (intro has_notifier_total(1)) simp_all
  then obtain b where b: "svc_has_notifier (Suc (length (w_svcs w))) d w i match = Some b"
    by blast
  show ?thesis
    unfolding b using has_notifier_sound(1) [OF b assms(1,3)] by (rule arg_cong)
qed

section \<open>Registering keeps the links consistent\<close>

lemma upd_links [simp]:
  "svc_poll e (upd_poll d f s) = (if e = d then map_option f (svc_poll e s) else svc_poll e s)"
  "svc_obsrv e (upd_poll d f s) = svc_obsrv e s"
  "svc_obsrv e (upd_obsrv d g s) = (if e = d then g (svc_obsrv e s) else svc_obsrv e s)"
  "svc_poll e (upd_obsrv d g s) = svc_poll e s"
  by (cases d; cases e; simp add: upd_poll_def upd_obsrv_def svc_poll_def svc_obsrv_def)+

lemma upd_links_wf [simp]: "svc_wf (upd_poll d f s) = svc_wf s" "svc_wf (upd_obsrv d g s) = svc_wf s"
  by (cases d; simp add: upd_poll_def upd_obsrv_def svc_wf_def)+

lemma upd_links_conf [simp]: "s_conf (upd_poll d f s) = s_conf s" "s_conf (upd_obsrv d g s) = s_conf s"
  by (cases d; simp add: upd_poll_def upd_obsrv_def)+

definition poll_add :: "svc_id \<Rightarrow> notif_poll \<Rightarrow> notif_poll" where
  "poll_add src q = q\<lparr>p_members := (p_members q)[p_cnt q := (p_members q ! p_cnt q)\<lparr>n_src := Some src\<rparr>],
     p_cnt := Suc (p_cnt q)\<rparr>"

text \<open>A registration as the search for loops lets it through, and its effect.\<close>

definition registers :: "dep \<Rightarrow> svc_id \<Rightarrow> svc_id \<Rightarrow> notif_poll \<Rightarrow> 'k world \<Rightarrow> 'k world \<Rightarrow> bool" where
  "registers d ob s q w w' \<longleftrightarrow>
     links_ok w \<and> is_svc w ob \<and> is_svc w s \<and> svc_poll d (svc_at w ob) = Some q \<and> p_cnt q < p_nr q \<and>
     w' = notif_register_poll_sink d ob s w"

lemma registersD:
  assumes "registers d ob s q w w'"
  shows "links_ok w" "is_svc w ob" "is_svc w s" "svc_poll d (svc_at w ob) = Some q" "p_cnt q < p_nr q"
    "w' = notif_register_poll_sink d ob s w"
  using assms by (simp_all add: registers_def)

lemma reg_poll_ok:
  assumes reg: "registers d ob s q w w'"
  shows "poll_ok d w ob q"
  using registersD [OF reg] by (simp add: links_ok_def)

lemma reg_fresh:
  assumes reg: "registers d ob s q w w'"
  shows "notif_get_src w d (ob, p_cnt q) = None"
  using reg_poll_ok [OF reg] registersD(1-5) [OF reg] by (simp add: notif_get_src_def notif_at_def poll_ok_def)

lemma reg_eq:
  assumes reg: "registers d ob s q w w'"
  shows "w' = upd_svc ob (upd_poll d (\<lambda>q. q\<lparr>p_cnt := Suc (p_cnt q)\<rparr>))
     (upd_svc s (upd_obsrv d (\<lambda>l. l @ [(ob, p_cnt q)]))
       (upd_svc ob (upd_poll d (\<lambda>p. p\<lparr>p_members := (p_members p)[p_cnt q := (p_members p ! p_cnt q)\<lparr>n_src := Some s\<rparr>]\<rparr>)) w))"
  using registersD [OF reg] reg_fresh [OF reg] by (simp add: notif_register_poll_sink_def notif_register_sink_def)

lemma reg_svc:
  assumes reg: "registers d ob s q w w'"
  shows "is_svc w' j = is_svc w j"
  by (simp add: reg_eq [OF reg])

lemma reg_poll:
  assumes reg: "registers d ob s q w w'"
  shows "svc_poll e (svc_at w' j) = (if e = d \<and> j = ob then Some (poll_add s q) else svc_poll e (svc_at w j))"
  using registersD(1-5) [OF reg] by (auto simp: reg_eq [OF reg] svc_at_upd poll_add_def)

lemma reg_obsrv:
  assumes reg: "registers d ob s q w w'"
  shows "svc_obsrv e (svc_at w' j) =
    (if e = d \<and> j = s then svc_obsrv e (svc_at w j) @ [(ob, p_cnt q)] else svc_obsrv e (svc_at w j))"
  using registersD(1-5) [OF reg] by (simp add: reg_eq [OF reg] svc_at_upd)

lemma reg_world:
  assumes reg: "registers d ob s q w w'"
  shows "svcs_wf w \<Longrightarrow> svcs_wf w'" "w_fault w' = w_fault w" "w_log w' = w_log w"
    "s_conf (svc_at w' j) = s_conf (svc_at w j)" "length (w_svcs w') = length (w_svcs w)"
  using registersD(1-5) [OF reg] by (auto simp: reg_eq [OF reg] svc_at_upd svcs_wf_def)

lemma reg_src:
  assumes reg: "registers d ob s q w w'"
  shows "notif_get_src w' e r = (if e = d \<and> r = (ob, p_cnt q) then Some s else notif_get_src w e r)"
proof -
  have "p_cnt q < length (p_members q)"
    using reg_poll_ok [OF reg] registersD(1-5) [OF reg] by (simp add: poll_ok_def)
  then show ?thesis
    using registersD(1-5) [OF reg]
    by (cases r) (auto simp: notif_get_src_def notif_at_def reg_svc [OF reg] reg_poll [OF reg] poll_add_def nth_list_update)
qed

lemma reg_links:
  assumes reg: "registers d ob s q w w'"
  shows "links_ok w'"
  unfolding links_ok_def
proof (intro allI impI conjI ballI)
  fix i e r
  assume i: "is_svc w' i" and r: "r \<in> set (svc_obsrv e (svc_at w' i))"
  show "obsrv_ok e w' i r"
  proof (cases "e = d \<and> r = (ob, p_cnt q)")
    case True
    have "(ob, p_cnt q) \<notin> set (svc_obsrv d (svc_at w i))"
      using registersD(1-5) [OF reg] i reg_fresh [OF reg] by (auto simp: links_ok_def obsrv_ok_def reg_svc [OF reg])
    with True r have "i = s"
      by (auto simp: reg_obsrv [OF reg] split: if_splits)
    with True show ?thesis
      using registersD(1-5) [OF reg] by (simp add: obsrv_ok_def reg_svc [OF reg] reg_src [OF reg] notif_get_sink_def)
  next
    case False
    then have "r \<in> set (svc_obsrv e (svc_at w i))"
      using r by (auto simp: reg_obsrv [OF reg] split: if_splits)
    then have "obsrv_ok e w i r"
      using registersD(1-5) [OF reg] i by (simp add: links_ok_def reg_svc [OF reg])
    with False show ?thesis
      by (auto simp: obsrv_ok_def reg_svc [OF reg] reg_src [OF reg])
  qed
next
  fix i e p
  assume i: "is_svc w' i" and p: "svc_poll e (svc_at w' i) = Some p"
  have grow: "set (svc_obsrv e (svc_at w j)) \<subseteq> set (svc_obsrv e (svc_at w' j))" for e j
    by (auto simp: reg_obsrv [OF reg])
  have keep: "poll_ok e w' i' p'" if "poll_ok e w i' p'" for e i' p'
    using that grow by (fastforce simp: poll_ok_def reg_svc [OF reg] split: option.splits)
  show "poll_ok e w' i p"
  proof (cases "e = d \<and> i = ob")
    case False
    then show ?thesis
      using i p registersD(1-5) [OF reg] by (intro keep) (auto simp: reg_poll [OF reg] reg_svc [OF reg] links_ok_def)
  next
    case True
    have len: "p_cnt q < length (p_members q)"
      using reg_poll_ok [OF reg] registersD(1-5) [OF reg] by (simp add: poll_ok_def)
    have new: "(ob, p_cnt q) \<in> set (svc_obsrv d (svc_at w' s))"
      by (simp add: reg_obsrv [OF reg])
    have "poll_ok d w' ob q"
      using keep reg_poll_ok [OF reg] by blast
    then have old: "p_nr q = length (p_members q)" "\<forall>n \<in> set (p_members q). n_sink n = ob"
      "\<And>m. m < p_cnt q \<Longrightarrow> case n_src (p_members q ! m) of
        Some j \<Rightarrow> is_svc w' j \<and> (ob, m) \<in> set (svc_obsrv d (svc_at w' j)) | None \<Rightarrow> False"
      "\<And>m. m < length (p_members q) \<Longrightarrow> p_cnt q \<le> m \<Longrightarrow> n_src (p_members q ! m) = None"
      by (simp_all add: poll_ok_def)
    have "\<forall>n \<in> set (p_members (poll_add s q)). n_sink n = ob"
      using old(2) len by (auto simp: poll_add_def dest!: set_update_subset_insert [THEN subsetD])
    moreover have "case n_src (p_members (poll_add s q) ! m) of
        Some j \<Rightarrow> is_svc w' j \<and> (ob, m) \<in> set (svc_obsrv d (svc_at w' j)) | None \<Rightarrow> False"
      if "m < p_cnt (poll_add s q)" for m
      using that old(3) [of m] new len registersD(3) [OF reg]
      by (cases "m = p_cnt q") (simp_all add: poll_add_def reg_svc [OF reg])
    ultimately have "poll_ok d w' ob (poll_add s q)"
      using len old(1,4) by (simp add: poll_ok_def) (simp add: poll_add_def)
    with True p show ?thesis
      by (simp add: reg_poll [OF reg])
  qed
qed

lemma reg_edges:
  assumes reg: "registers d ob s q w w'"
  shows "edges d w' = insert (ob, s) (edges d w)" "e \<noteq> d \<Longrightarrow> edges e w' = edges e w"
proof -
  have len: "p_cnt q < length (p_members q)"
    using reg_poll_ok [OF reg] registersD(1-5) [OF reg] by (simp add: poll_ok_def)
  have "set (poll_srcs (Some (poll_add s q))) = insert (Some s) (set (poll_srcs (Some q)))"
    using len by (simp add: poll_srcs_def poll_add_def take_Suc_conv_app_nth)
  then have "awaited d (svc_at w' ob) = insert s (awaited d (svc_at w ob))"
    using registersD(1-5) [OF reg] by (auto simp: awaited_def reg_poll [OF reg])
  then have "awaited d (svc_at w' j) =
      (if j = ob then insert s (awaited d (svc_at w j)) else awaited d (svc_at w j))" for j
    by (simp add: awaited_def reg_poll [OF reg])
  then show "edges d w' = insert (ob, s) (edges d w)"
    using registersD(1-5) [OF reg] by (auto simp: edges_def reg_svc [OF reg] split: if_splits)
  show "e \<noteq> d \<Longrightarrow> edges e w' = edges e w"
    by (simp add: edges_def reg_svc [OF reg] awaited_def reg_poll [OF reg])
qed

section \<open>The contract of registration\<close>

locale notifier_graph =
  fixes ok :: "'w \<Rightarrow> bool"
    and confs :: "'w \<Rightarrow> conf_svc list"
    and room :: "'w \<Rightarrow> svc_id \<Rightarrow> nat"
    and rel :: "'w \<Rightarrow> (svc_id \<times> svc_id) set"
    and other :: "'w \<Rightarrow> 'o"
    and register :: "svc_id \<Rightarrow> svc_id \<Rightarrow> 'w \<Rightarrow> 'w"
  assumes acyclic_rel: "ok w \<Longrightarrow> acyclic (rel w)"
    and register: "ok w \<Longrightarrow> s < length (confs w) \<Longrightarrow> ob < length (confs w) \<Longrightarrow> 0 < room w ob \<Longrightarrow>
      ok (register s ob w) \<and> (confs (register s ob w) = confs w \<and> other (register s ob w) = other w) \<and>
      rel (register s ob w) = (if (s, ob) \<in> (rel w)\<^sup>* then rel w else insert (ob, s) (rel w)) \<and>
      (\<forall>x. room w x \<le> room (register s ob w) x + (if x = ob then 1 else 0))"
begin

text \<open>A link that closes no cycle is made; one that would is refused. Links are never removed.\<close>

lemma register_link:
  assumes "ok w" "s < length (confs w)" "ob < length (confs w)" "0 < room w ob"
  shows "rel w \<subseteq> rel (register s ob w)"
    "(ob, s) \<in> rel (register s ob w) \<or> (s, ob) \<in> (rel (register s ob w))\<^sup>*"
  using register [OF assms] by auto

lemma register_all:
  assumes "ok w" "\<forall>s \<in> set ss. s < length (confs w)" "ob < length (confs w)" "length ss \<le> room w ob"
  shows "ok (fold (\<lambda>s. register s ob) ss w) \<and> (confs (fold (\<lambda>s. register s ob) ss w) = confs w \<and>
      other (fold (\<lambda>s. register s ob) ss w) = other w) \<and>
    rel w \<subseteq> rel (fold (\<lambda>s. register s ob) ss w) \<and>
    (\<forall>x. x \<noteq> ob \<longrightarrow> room w x \<le> room (fold (\<lambda>s. register s ob) ss w) x) \<and>
    (\<forall>s \<in> set ss. (ob, s) \<in> rel (fold (\<lambda>s. register s ob) ss w) \<or>
      (s, ob) \<in> (rel (fold (\<lambda>s. register s ob) ss w))\<^sup>*)"
  using assms
proof (induction ss arbitrary: w)
  case Nil
  then show ?case by simp
next
  case (Cons s ss)
  let ?w = "register s ob w"
  have pos: "0 < room w ob" "s < length (confs w)"
    using Cons.prems by simp_all
  note reg = register [OF Cons.prems(1) pos(2) Cons.prems(3) pos(1)]
    and link = register_link [OF Cons.prems(1) pos(2) Cons.prems(3) pos(1)]
  have "room w ob \<le> Suc (room ?w ob)"
    using reg [THEN conjunct2, THEN conjunct2, THEN conjunct2, THEN spec, of ob] by simp
  then have "length ss \<le> room ?w ob"
    using Cons.prems by simp
  note IH = Cons.IH [of ?w, OF _ _ _ this]
  have all: "ok ?w" "\<forall>s \<in> set ss. s < length (confs ?w)" "ob < length (confs ?w)"
    using reg Cons.prems by simp_all
  let ?v = "fold (\<lambda>s. register s ob) ss ?w"
  have sub: "rel ?w \<subseteq> rel ?v" and IH': "ok ?v" "confs ?v = confs w" "other ?v = other w"
    "\<forall>x. x \<noteq> ob \<longrightarrow> room ?w x \<le> room ?v x" "\<forall>s \<in> set ss. (ob, s) \<in> rel ?v \<or> (s, ob) \<in> (rel ?v)\<^sup>*"
    using IH [OF all] reg [THEN conjunct2, THEN conjunct1] by (elim conjE, simp)+
  have "(ob, s) \<in> rel ?v \<or> (s, ob) \<in> (rel ?v)\<^sup>*"
    using link(2) sub rtrancl_mono [OF sub] by blast
  moreover have "\<forall>x. x \<noteq> ob \<longrightarrow> room w x \<le> room ?v x"
  proof (intro allI impI)
    fix x
    assume x: "x \<noteq> ob"
    have "room w x \<le> room ?w x"
      using reg [THEN conjunct2, THEN conjunct2, THEN conjunct2, THEN spec, of x] x by simp
    with x IH'(4) show "room w x \<le> room ?v x"
      using order_trans by blast
  qed
  moreover have "rel w \<subseteq> rel ?v"
    using link(1) sub by (rule order_trans)
  ultimately show ?case
    using IH' by simp
qed

end

definition graph_ok :: "'k world \<Rightarrow> bool" where
  "graph_ok w \<longleftrightarrow> world_ok w \<and> acyclic (edges Starton w) \<and> acyclic (edges Stopon w)"

definition world_confs :: "'k world \<Rightarrow> conf_svc list" where
  "world_confs w = map s_conf (w_svcs w)"

definition poll_room :: "dep \<Rightarrow> 'k world \<Rightarrow> svc_id \<Rightarrow> nat" where
  "poll_room d w i = (case svc_poll d (svc_at w i) of None \<Rightarrow> 0 | Some q \<Rightarrow> p_nr q - p_cnt q)"

lemma poll_room_pos:
  assumes "0 < poll_room d w i"
  obtains q where "svc_poll d (svc_at w i) = Some q" "p_cnt q < p_nr q"
  using assms by (cases "svc_poll d (svc_at w i)") (simp_all add: poll_room_def)

lemma confs_svc: "i < length (world_confs w) \<longleftrightarrow> is_svc w i"
  by (simp add: world_confs_def is_svc_def)

lemma reg_confs:
  assumes reg: "registers d ob s q w w'"
  shows "world_confs w' = world_confs w"
  using reg_world(4,5) [OF reg] by (auto simp: world_confs_def svc_at_def intro: nth_equalityI)

lemma register_graph:
  assumes ok: "graph_ok w" and s: "is_svc w s" and ob: "is_svc w ob" and room: "0 < poll_room d w ob"
    and w': "w' = (case svc_has_notifier (Suc (length (w_svcs w))) d w s ob of
        None \<Rightarrow> fault w | Some True \<Rightarrow> w | Some False \<Rightarrow> notif_register_poll_sink d ob s w)"
  shows "graph_ok w' \<and> world_confs w' = world_confs w \<and>
      edges d w' = (if (s, ob) \<in> (edges d w)\<^sup>* then edges d w else insert (ob, s) (edges d w)) \<and>
      (\<forall>x. poll_room d w x \<le> poll_room d w' x + (if x = ob then 1 else 0)) \<and>
      (\<forall>e x. e \<noteq> d \<longrightarrow> poll_room e w' x = poll_room e w x) \<and> (\<forall>e. e \<noteq> d \<longrightarrow> edges e w' = edges e w) \<and>
      w_log w' = w_log w"
proof -
  have wok: "world_ok w" and links: "links_ok w" and ac: "\<And>e. acyclic (edges e w)"
    using ok by (auto simp: graph_ok_def world_ok_def) (metis dep.exhaust)
  have has: "svc_has_notifier (Suc (length (w_svcs w))) d w s ob = Some ((s, ob) \<in> (edges d w)\<^sup>*)"
    by (rule has_notifier_iff [OF links ac s])
  show ?thesis
  proof (cases "(s, ob) \<in> (edges d w)\<^sup>*")
    case True
    then show ?thesis
      using w' has ok by simp
  next
    case False
    obtain q where q: "svc_poll d (svc_at w ob) = Some q" "p_cnt q < p_nr q"
      using room by (rule poll_room_pos)
    have reg: "registers d ob s q w w'"
      using w' has False q links s ob by (simp add: registers_def)
    have "acyclic (edges d w')"
      using ac [of d] False by (simp add: reg_edges(1) [OF reg])
    moreover have "acyclic (edges e w')" if "e \<noteq> d" for e
      using ac that by (simp add: reg_edges(2) [OF reg])
    ultimately have "acyclic (edges e w')" for e
      by (cases "e = d") simp_all
    moreover have "world_ok w'"
      using wok reg_links [OF reg] reg_world(1,2) [OF reg] by (simp add: world_ok_def)
    ultimately have "graph_ok w'"
      by (simp add: graph_ok_def)
    moreover have "poll_room d w x \<le> poll_room d w' x + (if x = ob then 1 else 0)" for x
      using q by (auto simp: poll_room_def reg_poll [OF reg] poll_add_def)
    ultimately show ?thesis
      using False reg_edges [OF reg] reg_confs [OF reg] reg_world(3) [OF reg]
      by (simp add: poll_room_def reg_poll [OF reg])
  qed
qed

lemma register_starton_graph:
  assumes "graph_ok w" "is_svc w s" "is_svc w ob" "0 < poll_room Starton w ob"
  shows "svc_register_starton_obsrv s ob w = (case svc_has_notifier (Suc (length (w_svcs w))) Starton w s ob of
        None \<Rightarrow> fault w | Some True \<Rightarrow> w | Some False \<Rightarrow> notif_register_poll_sink Starton ob s w)"
  using assms(4) by (rule poll_room_pos) (simp add: svc_register_starton_obsrv_def svc_has_starton_notifier_def)

lemma register_stopon_graph:
  assumes "graph_ok w" "is_svc w s" "is_svc w ob" "0 < poll_room Stopon w ob"
  shows "svc_register_stopon_obsrv s ob w = (case svc_has_notifier (Suc (length (w_svcs w))) Stopon w s ob of
        None \<Rightarrow> fault w | Some True \<Rightarrow> w | Some False \<Rightarrow> notif_register_poll_sink Stopon ob s w)"
  using assms(4) by (rule poll_room_pos) (simp add: svc_register_stopon_obsrv_def svc_has_stopon_notifier_def)

interpretation starton: notifier_graph graph_ok world_confs "poll_room Starton" "edges Starton"
  "\<lambda>w. (poll_room Stopon w, edges Stopon w)" svc_register_starton_obsrv
proof (unfold_locales, goal_cases)
  case (2 w s ob)
  then show ?case
    using register_graph [of w s ob Starton, OF _ _ _ _ register_starton_graph [of w s ob]]
    by (simp add: confs_svc fun_eq_iff)
qed (simp add: graph_ok_def)

interpretation stopon: notifier_graph graph_ok world_confs "poll_room Stopon" "edges Stopon"
  "\<lambda>w. (poll_room Starton w, edges Starton w)" svc_register_stopon_obsrv
proof (unfold_locales, goal_cases)
  case (2 w s ob)
  then show ?case
    using register_graph [of w s ob Stopon, OF _ _ _ _ register_stopon_graph [of w s ob]]
    by (simp add: confs_svc fun_eq_iff)
qed (simp add: graph_ok_def)

section \<open>Destroying a service\<close>

text \<open>
  What holds at any moment while services are taken down: an element is in the list of \<open>i\<close> exactly
  when its source is \<open>i\<close>, and members beyond the count have no source.
\<close>

definition refs_ok :: "'k world \<Rightarrow> bool" where
  "refs_ok w \<longleftrightarrow>
     (\<forall>d i r. is_svc w i \<longrightarrow> (r \<in> set (svc_obsrv d (svc_at w i)) \<longleftrightarrow> notif_get_src w d r = Some i)) \<and>
     (\<forall>d r i. notif_get_src w d r = Some i \<longrightarrow> is_svc w i) \<and>
     (\<forall>d i q. is_svc w i \<longrightarrow> svc_poll d (svc_at w i) = Some q \<longrightarrow>
        (\<forall>m. p_cnt q \<le> m \<longrightarrow> notif_get_src w d (i, m) = None))"

lemma refs_okD:
  assumes "refs_ok w"
  shows "is_svc w i \<Longrightarrow> r \<in> set (svc_obsrv d (svc_at w i)) \<longleftrightarrow> notif_get_src w d r = Some i"
    "notif_get_src w d r = Some i \<Longrightarrow> is_svc w i"
    "is_svc w i \<Longrightarrow> svc_poll d (svc_at w i) = Some q \<Longrightarrow> p_cnt q \<le> m \<Longrightarrow> notif_get_src w d (i, m) = None"
  using assms unfolding refs_ok_def by blast+

lemma notif_get_src_Some:
  "notif_get_src w d (i, m) = Some j \<longleftrightarrow> is_svc w i \<and> (\<exists>q. svc_poll d (svc_at w i) = Some q \<and>
     m < length (p_members q) \<and> n_src (p_members q ! m) = Some j)"
  by (auto simp: notif_get_src_def notif_at_def split: option.splits)

lemma links_refs_ok:
  assumes ok: "links_ok w"
  shows "refs_ok w"
proof -
  have cnt: "m < p_cnt q \<and> poll_ok d w i q"
    if "notif_get_src w d (i, m) = Some j" "svc_poll d (svc_at w i) = Some q" for d i m j q
  proof -
    have "poll_ok d w i q"
      using ok that by (auto simp: links_ok_def notif_get_src_Some)
    with that show ?thesis
      by (auto simp: notif_get_src_Some poll_ok_def not_less [symmetric])
  qed
  have reg: "is_svc w j \<and> r \<in> set (svc_obsrv d (svc_at w j))" if src: "notif_get_src w d r = Some j" for d r j
  proof -
    obtain i m q where r: "r = (i, m)" "svc_poll d (svc_at w i) = Some q" "n_src (p_members q ! m) = Some j"
      using src by (cases r) (auto simp: notif_get_src_Some)
    with cnt [of d i m j q] src show ?thesis
      by (auto simp: poll_ok_def split: option.splits)
  qed
  have "notif_get_src w d (i, m) = None" if "svc_poll d (svc_at w i) = Some q" "p_cnt q \<le> m" for d i m q
    using cnt [OF _ that(1), of m] that(2) by (cases "notif_get_src w d (i, m)") force+
  moreover have "notif_get_src w d r = Some i" if "is_svc w i" "r \<in> set (svc_obsrv d (svc_at w i))" for d i r
    using ok that by (simp add: links_ok_def obsrv_ok_def)
  ultimately show ?thesis
    using reg unfolding refs_ok_def by blast
qed

text \<open>One member unregistered.\<close>

definition unlinked :: "dep \<Rightarrow> notif_ref set \<Rightarrow> 'k world \<Rightarrow> 'k world \<Rightarrow> bool" where
  "unlinked d R w w' \<longleftrightarrow> (\<forall>i. is_svc w' i = is_svc w i) \<and>
     (\<forall>e r. notif_get_src w' e r = (if e = d \<and> r \<in> R then None else notif_get_src w e r)) \<and>
     (\<forall>e i. is_svc w i \<longrightarrow> set (svc_obsrv e (svc_at w' i)) =
        (if e = d then set (svc_obsrv e (svc_at w i)) - R else set (svc_obsrv e (svc_at w i)))) \<and>
     (\<forall>e i. map_option p_cnt (svc_poll e (svc_at w' i)) = map_option p_cnt (svc_poll e (svc_at w i)))"

lemma unlinked_refs_ok:
  assumes un: "unlinked d R w w'" and ok: "refs_ok w"
  shows "refs_ok w'"
proof -
  have "notif_get_src w' e (i, m) = None"
    if "is_svc w' i" "svc_poll e (svc_at w' i) = Some q" "p_cnt q \<le> m" for e i q m
  proof -
    have "map_option p_cnt (svc_poll e (svc_at w i)) = Some (p_cnt q)"
      using un that(2) unfolding unlinked_def by (metis option.simps(9))
    then obtain q' where "svc_poll e (svc_at w i) = Some q'" "p_cnt q' = p_cnt q"
      by auto
    then have "notif_get_src w e (i, m) = None"
      using ok that un by (simp add: refs_ok_def unlinked_def)
    with un show ?thesis
      by (simp add: unlinked_def)
  qed
  with un ok show ?thesis
    unfolding refs_ok_def by (auto simp: unlinked_def split: if_splits)
qed

lemma unlinked_trans:
  assumes "unlinked d R w w1" "unlinked d S w1 w2"
  shows "unlinked d (R \<union> S) w w2"
  using assms by (auto simp: unlinked_def)

lemma unregister_unlinked:
  assumes ok: "refs_ok w"
  shows "unlinked d {r} w (notif_unregister_sink d r w)"
proof (cases "notif_get_src w d r")
  case None
  then have "r \<notin> set (svc_obsrv d (svc_at w i))" if "is_svc w i" for i
    using refs_okD(1) [OF ok that] None by simp
  with None show ?thesis
    by (auto simp: unlinked_def notif_unregister_sink_def)
next
  case (Some src)
  define v where "v = notif_unregister_sink d r w"
  obtain i m q where r: "r = (i, m)" "is_svc w i" "svc_poll d (svc_at w i) = Some q" "m < length (p_members q)"
    using Some by (cases r) (auto simp: notif_get_src_Some)
  have src: "is_svc w src"
    using refs_okD(2) [OF ok Some] .
  have only: "r \<in> set (svc_obsrv d (svc_at w j)) \<longleftrightarrow> j = src" if "is_svc w j" for j
    using refs_okD(1) [OF ok that] Some by auto
  have w': "v = upd_svc i
      (upd_poll d (\<lambda>q. q\<lparr>p_members := (p_members q)[m := (p_members q ! m)\<lparr>n_src := None\<rparr>]\<rparr>))
      (upd_svc src (upd_obsrv d (filter (\<lambda>x. x \<noteq> r))) w)"
    using Some r by (simp add: v_def notif_unregister_sink_def)
  have same: "is_svc v j = is_svc w j" for j
    by (simp add: w')
  have polls: "svc_poll e (svc_at v j) = (if e = d \<and> j = i
      then Some (q\<lparr>p_members := (p_members q)[m := (p_members q ! m)\<lparr>n_src := None\<rparr>]\<rparr>)
      else svc_poll e (svc_at w j))" for e j
    using r(2-4) src by (auto simp: w' svc_at_upd)
  have "notif_get_src v e x = (if e = d \<and> x \<in> {r} then None else notif_get_src w e x)" for e x
    using r polls by (cases x) (auto simp: notif_get_src_def notif_at_def same nth_list_update)
  moreover have "set (svc_obsrv e (svc_at v j)) =
      (if e = d then set (svc_obsrv e (svc_at w j)) - {r} else set (svc_obsrv e (svc_at w j)))"
    if "is_svc w j" for e j
    using only [OF that] that src by (auto simp: w' svc_at_upd)
  moreover have "map_option p_cnt (svc_poll e (svc_at v j)) = map_option p_cnt (svc_poll e (svc_at w j))" for e j
    using r polls by simp
  ultimately show ?thesis
    by (simp add: unlinked_def same v_def [symmetric])
qed

lemma unregister_all_unlinked:
  "refs_ok w \<Longrightarrow> unlinked d (set rs) w (fold (notif_unregister_sink d) rs w) \<and>
     refs_ok (fold (notif_unregister_sink d) rs w)"
proof (induction rs arbitrary: w)
  case Nil
  then show ?case by (simp add: unlinked_def)
next
  case (Cons r rs)
  have one: "unlinked d {r} w (notif_unregister_sink d r w)" "refs_ok (notif_unregister_sink d r w)"
    using unregister_unlinked unlinked_refs_ok Cons.prems by blast+
  with Cons.IH [OF one(2)] unlinked_trans [OF one(1), of "set rs"] show ?case
    by simp
qed

text \<open>Taking down a service's own poll, then one whole relation.\<close>

lemma unregister_poll:
  fixes d :: dep and w :: "'k world"
  assumes ok: "refs_ok w" and i: "is_svc w i"
  defines "w' \<equiv> notif_destroy_sink_poll d i w"
  shows "refs_ok w'" "is_svc w' j = is_svc w j"
    "notif_get_src w' e r = (if e = d \<and> fst r = i then None else notif_get_src w e r)"
proof -
  have "refs_ok w' \<and> (\<forall>j. is_svc w' j = is_svc w j) \<and>
    (\<forall>e r. notif_get_src w' e r = (if e = d \<and> fst r = i then None else notif_get_src w e r))"
  proof (cases "svc_poll d (svc_at w i)")
    case None
    then have "w' = w"
      by (simp add: w'_def notif_destroy_sink_poll_def notif_unregister_poll_sinks_def)
    with None ok show ?thesis
      by (auto simp: notif_get_src_def notif_at_def)
  next
    case (Some q)
    let ?rs = "map (Pair i) [0..<p_cnt q]"
    define v where "v = fold (notif_unregister_sink d) ?rs w"
    have un: "unlinked d (set ?rs) w v" and okv: "refs_ok v"
      using unregister_all_unlinked [OF ok] by (simp_all only: v_def)
    have w': "w' = upd_svc i (upd_poll d (\<lambda>q. q\<lparr>p_cnt := 0\<rparr>)) v"
      using Some by (simp add: w'_def notif_destroy_sink_poll_def notif_unregister_poll_sinks_def
          v_def fold_map comp_def)
    have cnt: "notif_get_src w d (i, m) = None" if "\<not> m < p_cnt q" for m
      using refs_okD(3) [OF ok i Some] that by simp
    have src': "notif_get_src w' e r = notif_get_src v e r" for e r
      by (cases r) (auto simp: w' notif_get_src_def notif_at_def svc_at_upd split: option.splits)
    have get: "notif_get_src v e r = (if e = d \<and> r \<in> set ?rs then None else notif_get_src w e r)" for e r
      using un unfolding unlinked_def by blast
    have src: "notif_get_src w' e r = (if e = d \<and> fst r = i then None else notif_get_src w e r)" for e r
    proof (cases "e = d \<and> fst r = i \<and> r \<notin> set ?rs")
      case True
      then have "notif_get_src w d r = None"
        using cnt [of "snd r"] by (cases r) (force simp: image_iff)
      with True show ?thesis
        by (simp add: src' get)
    next
      case False
      then show ?thesis
        unfolding src' get by (cases r) auto
    qed
    have is_svc: "is_svc w' j = is_svc w j" for j
      using un by (simp add: w' unlinked_def)
    have "refs_ok w'"
      unfolding refs_ok_def
    proof (intro conjI allI impI)
      fix e j r
      assume "is_svc w' j"
      then show "r \<in> set (svc_obsrv e (svc_at w' j)) \<longleftrightarrow> notif_get_src w' e r = Some j"
        using refs_okD(1) [OF okv, of j r e] by (auto simp: w' svc_at_upd src' [unfolded w'])
    next
      fix e r j
      assume "notif_get_src w' e r = Some j"
      then show "is_svc w' j"
        using refs_okD(2) [OF okv] by (simp add: src') (simp add: w')
    next
      fix e j p m
      assume p: "is_svc w' j" "svc_poll e (svc_at w' j) = Some p" "p_cnt p \<le> m"
      show "notif_get_src w' e (j, m) = None"
      proof (cases "e = d \<and> j = i")
        case True
        then show ?thesis by (simp add: src)
      next
        case False
        with p have "is_svc v j" "svc_poll e (svc_at v j) = Some p"
          by (auto simp: w' svc_at_upd split: if_splits)
        then show ?thesis
          unfolding src' using refs_okD(3) [OF okv] p(3) by blast
      qed
    qed
    with src is_svc show ?thesis by blast
  qed
  then show "refs_ok w'" "is_svc w' j = is_svc w j"
    "notif_get_src w' e r = (if e = d \<and> fst r = i then None else notif_get_src w e r)"
    by blast+
qed

lemma unregister_obsrv:
  fixes d :: dep and w :: "'k world"
  assumes ok: "refs_ok w" and i: "is_svc w i"
  defines "w' \<equiv> svc_unregister_notif_obsrv d i w"
  shows "refs_ok w'" "is_svc w' j = is_svc w j"
    "notif_get_src w' e r =
       (if e = d \<and> (fst r = i \<or> notif_get_src w d r = Some i) then None else notif_get_src w e r)"
proof -
  define v where "v = fold (notif_unregister_sink d) (svc_obsrv d (svc_at w i)) w"
  have un: "unlinked d (set (svc_obsrv d (svc_at w i))) w v" and okv: "refs_ok v"
    using unregister_all_unlinked [OF ok] by (simp_all add: v_def)
  have v: "is_svc v k = is_svc w k" for k
    using un by (simp add: unlinked_def)
  then have iv: "is_svc v i"
    using i by simp
  have w': "w' = notif_destroy_sink_poll d i v"
    by (simp add: w'_def svc_unregister_notif_obsrv_def v_def)
  note poll = unregister_poll [OF okv iv, of d, folded w']
  show "refs_ok w'" "is_svc w' j = is_svc w j"
    using poll(1) poll(2) v by simp_all
  show "notif_get_src w' e r =
       (if e = d \<and> (fst r = i \<or> notif_get_src w d r = Some i) then None else notif_get_src w e r)"
  proof -
    have "notif_get_src v e r = (if e = d \<and> r \<in> set (svc_obsrv d (svc_at w i)) then None else notif_get_src w e r)"
      using un unfolding unlinked_def by blast
    then show ?thesis
      using poll(3) [of e r] refs_okD(1) [OF ok i, of r d] by (cases "e = d") simp_all
  qed
qed

lemma svc_fini_src:
  assumes ok: "refs_ok w" and i: "is_svc w i"
  shows "refs_ok (svc_fini i w)" "is_svc (svc_fini i w) j = is_svc w j"
    "notif_get_src (svc_fini i w) d r =
       (if fst r = i \<or> notif_get_src w d r = Some i then None else notif_get_src w d r)"
proof -
  note a = unregister_obsrv [OF ok i, of Starton]
  have ia: "is_svc (svc_unregister_notif_obsrv Starton i w) i"
    using a(2) i by simp
  note b = unregister_obsrv [OF a(1) ia, of Stopon]
  show "refs_ok (svc_fini i w)" "is_svc (svc_fini i w) j = is_svc w j"
    using b(1) a(2) b(2) by (simp_all add: svc_fini_def)
  show "notif_get_src (svc_fini i w) d r =
       (if fst r = i \<or> notif_get_src w d r = Some i then None else notif_get_src w d r)"
    using a(3) [of d r] a(3) [of Stopon r] b(3) [of d r] by (cases d) (auto simp: svc_fini_def)
qed

text \<open>
  C13. Registration never creates a loop. From consistent links without a cycle, registering an
  observer keeps them so: the search for a loop ends, no assertion fails and no poll overflows as
  long as it has room; the observer is linked unless the notifier already depends on it, and then
  the relation is left as it was. This holds of start-on and stop-on alike.
\<close>

theorem registration_keeps_order:
  assumes "graph_ok w" "is_svc w s" "is_svc w ob" "0 < poll_room Starton w ob" "0 < poll_room Stopon w ob"
  shows "graph_ok (svc_register_starton_obsrv s ob w) \<and>
    edges Starton (svc_register_starton_obsrv s ob w) =
      (if (s, ob) \<in> (edges Starton w)\<^sup>* then edges Starton w else insert (ob, s) (edges Starton w)) \<and>
    graph_ok (svc_register_stopon_obsrv s ob w) \<and>
    edges Stopon (svc_register_stopon_obsrv s ob w) =
      (if (s, ob) \<in> (edges Stopon w)\<^sup>* then edges Stopon w else insert (ob, s) (edges Stopon w))"
  using starton.register [of w s ob] stopon.register [of w s ob] assms by (simp add: confs_svc)

definition unlinked_demo :: "sim world" where
  "unlinked_demo = world_of
     (map (\<lambda>c. (idle_svc c)\<lparr>s_starton_notif := Some \<lparr>p_cnt = 0, p_nr = 1, p_members = [\<lparr>n_src = None, n_sink = 0\<rparr>]\<rparr>,
        s_stopon_notif := Some \<lparr>p_cnt = 0, p_nr = 1, p_members = [\<lparr>n_src = None, n_sink = 0\<rparr>]\<rparr>\<rparr>) [net_conf] @
      [idle_svc web_conf])"

lemma unlinked_demo_edges: "edges d unlinked_demo = {}"
proof -
  have two: "is_svc unlinked_demo i \<longleftrightarrow> i = 0 \<or> i = 1" for i
    by (auto simp: unlinked_demo_def)
  have "awaited d (svc_at unlinked_demo 0) = {}" "awaited d (svc_at unlinked_demo 1) = {}"
    by (cases d; simp add: unlinked_demo_def awaited_def svc_poll_def poll_srcs_def idle_svc_def)+
  then show ?thesis
    unfolding edges_def two by blast
qed

lemma unlinked_demo_graph: "graph_ok unlinked_demo"
proof -
  have two: "is_svc unlinked_demo i \<longleftrightarrow> i = 0 \<or> i = 1" for i
    by (auto simp: unlinked_demo_def)
  have "links_ok unlinked_demo"
    unfolding links_ok_def two
    by (auto simp: unlinked_demo_def svc_obsrv_def svc_poll_def idle_svc_def poll_ok_def split: dep.splits)
  moreover have "svcs_wf unlinked_demo"
    unfolding svcs_wf_def two by (auto simp: unlinked_demo_def svc_wf_def idle_svc_def)
  ultimately show ?thesis
    by (simp add: graph_ok_def world_ok_def unlinked_demo_edges acyclic_def) (simp add: unlinked_demo_def world_of_def)
qed

theorem registration_keeps_order_witness:
  "edges Starton (svc_register_starton_obsrv 1 0 unlinked_demo) = {(0, 1)} \<and>
   edges Starton (svc_register_starton_obsrv 0 0 unlinked_demo) = {}"
proof -
  have room: "0 < poll_room Starton unlinked_demo 0" "0 < poll_room Stopon unlinked_demo 0"
    by (simp_all add: poll_room_def svc_poll_def unlinked_demo_def)
  have "is_svc unlinked_demo 0" "is_svc unlinked_demo 1"
    by (simp_all add: unlinked_demo_def)
  with room show ?thesis
    using registration_keeps_order [OF unlinked_demo_graph, of 1 0]
      registration_keeps_order [OF unlinked_demo_graph, of 0 0]
    by (simp add: unlinked_demo_edges)
qed

text \<open>
  C32. A destroyed service is forgotten: after \<open>svc_fini\<close> no observer list of any service holds a
  member of its polls, no member of any poll has it as its source, its own lists are empty, and
  the remaining links are as before, so that destroying the services one after another never
  follows a link to one that is gone.
\<close>

theorem fini_forgets:
  assumes "refs_ok w" "is_svc w i"
  shows "refs_ok (svc_fini i w) \<and>
    (\<forall>d. svc_obsrv d (svc_at (svc_fini i w) i) = []) \<and>
    (\<forall>d j. is_svc w j \<longrightarrow> (\<forall>r \<in> set (svc_obsrv d (svc_at (svc_fini i w) j)). notif_get_sink r \<noteq> i)) \<and>
    (\<forall>d r. notif_get_src (svc_fini i w) d r =
      (if notif_get_sink r = i \<or> notif_get_src w d r = Some i then None else notif_get_src w d r))"
proof -
  note f = svc_fini_src [OF assms]
  have mem: "r \<in> set (svc_obsrv d (svc_at (svc_fini i w) j)) \<longleftrightarrow> notif_get_src (svc_fini i w) d r = Some j"
    if "is_svc w j" for d r j
    using refs_okD(1) [OF f(1)] f(2) that by simp
  have keep: "notif_get_src (svc_fini i w) d r = Some j \<Longrightarrow> j \<noteq> i \<and> fst r \<noteq> i" for d r j
    using f(3) [of d r] by (simp split: if_splits)
  have "svc_obsrv d (svc_at (svc_fini i w) i) = []" for d
  proof -
    have "r \<notin> set (svc_obsrv d (svc_at (svc_fini i w) i))" for r
      using mem [OF assms(2), of r d] keep [of d r i] by blast
    then show ?thesis
      by (metis last_in_set)
  qed
  then show ?thesis
    unfolding notif_get_sink_def using f(1,3) mem keep by blast
qed

theorem fini_forgets_witness:
  "svc_obsrv Starton (svc_at (svc_fini 1 boot) 0) = [] \<and> notif_get_src (svc_fini 0 boot) Starton (1, 0) = None"
proof -
  have only: "notif_get_src boot Starton r = Some 0 \<Longrightarrow> fst r = 1" for r
    by (cases r) (auto simp: notif_get_src_Some svc_poll_def net_svc_def idle_svc_def less_2_cases_iff)
  have refs: "refs_ok boot"
    using links_refs_ok world_okD(2) [OF boot_ok] by blast
  have i: "is_svc boot 0" "is_svc boot 1"
    by simp_all
  have "notif_get_src boot Starton (1, 0) = Some 0"
    by (simp add: notif_get_src_Some svc_poll_def web_svc_def)
  then have gone: "notif_get_src (svc_fini 0 boot) Starton (1, 0) = None"
    using fini_forgets [OF refs i(1)] by simp
  have "svc_obsrv Starton (svc_at (svc_fini 1 boot) 0) = []"
  proof (rule ccontr)
    assume "svc_obsrv Starton (svc_at (svc_fini 1 boot) 0) \<noteq> []"
    then obtain r where r: "r \<in> set (svc_obsrv Starton (svc_at (svc_fini 1 boot) 0))"
      by (meson last_in_set)
    then have "notif_get_src (svc_fini 1 boot) Starton r = Some 0" "notif_get_sink r \<noteq> 1"
      using fini_forgets [OF refs i(2)] i refs_okD(1) svc_fini_src(2) [OF refs i(2)] by blast+
    then have "notif_get_src boot Starton r = Some 0" "fst r \<noteq> 1"
      using svc_fini_src(3) [OF refs i(2), of Starton r] by (simp_all add: notif_get_sink_def split: if_splits)
    then show False
      using only by blast
  qed
  with gone show ?thesis by simp
qed

end
