(* ===== verification/Names.thy ===== *)
theory Names imports Prelude begin

text \<open>
  Service names (\<open>common.c\<close>): the character check \<open>tinit_probe_inval_char\<close> and the validator
  \<open>tinit_check_svc_name\<close>, with the set of names they accept. \<open>tinit_load_comm_bypid\<close>
  reads \<open>/proc\<close> and is modelled from the bytes \<open>read\<close> returns.
\<close>

abbreviation (input) TINIT_ARG_MAX :: nat where "TINIT_ARG_MAX \<equiv> 256"
abbreviation (input) TINIT_COMM_MAX :: nat where "TINIT_COMM_MAX \<equiv> 16"
abbreviation (input) TINIT_SVC_NAME_MAX :: nat where "TINIT_SVC_NAME_MAX \<equiv> 32"

text \<open>
  The C function returns the offending byte as an \<open>int\<close>, zero when the name is valid. \<open>name\<close> is
  a C string of \<open>len\<close> bytes; reading \<open>name[len]\<close> gives its terminator.
\<close>

definition char_at :: "string \<Rightarrow> nat \<Rightarrow> char" where
  "char_at s i = (if i < length s then s ! i else NUL)"

definition tinit_probe_inval_char :: "string \<Rightarrow> nat \<Rightarrow> nat" where
  "tinit_probe_inval_char name len =
     (let chr = (if \<not> isalnum (char_at name 0) then 0
                 else if \<not> isalnum (char_at name (len - 1)) then len - 1
                 else strspn name (ALNUM_CHARSET @ ''-_.@''))
      in if chr \<noteq> len then of_char (char_at name chr) else 0)"

definition tinit_check_svc_name :: "string \<Rightarrow> nat \<Rightarrow> int" where
  "tinit_check_svc_name name len =
     (if len = 0 then - ENODATA
      else if len \<ge> TINIT_SVC_NAME_MAX then - ENAMETOOLONG
      else if tinit_probe_inval_char name len \<noteq> 0 then - EINVAL
      else 0)"

text \<open>\<open>sz\<close> is what \<open>read\<close> returned (negative errno on failure), \<open>data\<close> the bytes it stored.\<close>

definition tinit_load_comm_bypid :: "int + int \<Rightarrow> int \<Rightarrow> char list \<Rightarrow> int \<times> char list" where
  "tinit_load_comm_bypid opened sz comm =
     (case opened of
        Inl err \<Rightarrow> (- err, comm)
      | Inr fd \<Rightarrow>
          if sz < 0 then (sz, comm)
          else if sz \<le> 1 \<or> sz > int TINIT_COMM_MAX then (- EBADMSG, comm)
          else (0, comm[nat sz - 1 := NUL]))"

text \<open>
  The two validators the clients and the daemon share (\<open>lib.c\<close>). \<open>upath_validate_path\<close> is
  the argument \<open>validate\<close>: the length of a path shorter than the limit, or a negative error.
  \<open>fnmatch\<close> is the argument \<open>fnm\<close>; the flags of the call are those of the source.
\<close>

definition tinit_parse_svc_name :: "(string \<Rightarrow> nat \<Rightarrow> int) \<Rightarrow> string \<Rightarrow> int" where
  "tinit_parse_svc_name validate name =
     (let len = validate name TINIT_SVC_NAME_MAX
      in if len < 0 then len
         else if tinit_probe_inval_char name (nat len) \<noteq> 0 then - EINVAL
         else len)"

abbreviation (input) TINIT_SVC_PATTERN_MAX :: nat where "TINIT_SVC_PATTERN_MAX \<equiv> 256"
abbreviation (input) FNM_NOMATCH :: int where "FNM_NOMATCH \<equiv> 1"

definition tinit_parse_svc_pattern :: "(string \<Rightarrow> string \<Rightarrow> int) \<Rightarrow> string \<Rightarrow> int" where
  "tinit_parse_svc_pattern fnm pattern =
     (let len = strnlen pattern TINIT_SVC_PATTERN_MAX
      in if len \<ge> TINIT_SVC_PATTERN_MAX then - ENAMETOOLONG
         else if len = 0 then - ENODATA
         else let ret = fnm pattern []
              in if ret \<noteq> 0 \<and> ret \<noteq> FNM_NOMATCH then - EINVAL
                 else int len)"

section \<open>What the validators accept\<close>

definition svc_name_ok :: "string \<Rightarrow> bool" where
  "svc_name_ok s \<longleftrightarrow>
     s \<noteq> [] \<and> length s < TINIT_SVC_NAME_MAX \<and> isalnum (hd s) \<and> isalnum (last s) \<and>
     set s \<subseteq> set (ALNUM_CHARSET @ ''-_.@'')"

lemma of_char_eq_0 [simp]: "(of_char c = (0::nat)) \<longleftrightarrow> c = NUL"
proof -
  have "(of_char c = (0::nat)) \<longleftrightarrow> of_char c = (of_char NUL :: nat)"
    by simp
  also have "\<dots> \<longleftrightarrow> c = NUL"
    by (simp only: of_char_eq_iff)
  finally show ?thesis .
qed

lemma char_at_NUL: "is_cstr s \<Longrightarrow> i < length s \<Longrightarrow> char_at s i \<noteq> NUL"
  by (simp add: char_at_def is_cstr_def) (metis nth_mem)

lemma probe_inval_char_zero:
  assumes s: "is_cstr s" and ne: "s \<noteq> []"
  shows "tinit_probe_inval_char s (length s) = 0 \<longleftrightarrow>
         isalnum (hd s) \<and> isalnum (last s) \<and> set s \<subseteq> set (ALNUM_CHARSET @ ''-_.@'')"
proof -
  define cs where "cs = ALNUM_CHARSET @ ''-_.@''"
  have pos: "0 < length s" "length s - 1 \<noteq> length s"
    using ne by (cases s; simp)+
  have hd: "char_at s 0 = hd s" and last: "char_at s (length s - 1) = last s"
    using ne by (simp_all add: char_at_def hd_conv_nth last_conv_nth)
  have all: "strspn s cs = length s \<longleftrightarrow> set s \<subseteq> set cs"
    using s by (rule strspn_full)
  have nz: "strspn s cs \<noteq> length s \<Longrightarrow> char_at s (strspn s cs) \<noteq> NUL"
    using strspn_le [of s cs] s by (intro char_at_NUL) simp_all
  have ends: "hd s \<noteq> NUL" "last s \<noteq> NUL"
    using s ne by (auto simp: is_cstr_def) (metis list.set_sel(1), metis last_in_set)
  show ?thesis
    using pos nz ends
    unfolding tinit_probe_inval_char_def Let_def cs_def [symmetric] all [symmetric]
    by (simp add: hd last flip: One_nat_def)
qed

lemma check_svc_name_zero:
  assumes "is_cstr s"
  shows "tinit_check_svc_name s (length s) = 0 \<longleftrightarrow> svc_name_ok s"
  using assms probe_inval_char_zero [of s]
  by (cases "s = []") (auto simp: tinit_check_svc_name_def svc_name_ok_def)

text \<open>
  C40. The service name validator accepts exactly the non-empty names of at most 31 characters
  drawn from letters, digits and \<open>- _ . @\<close> that start and end with a letter or a digit, and
  otherwise returns \<open>-ENODATA\<close> for the empty name, \<open>-ENAMETOOLONG\<close> for a long one and
  \<open>-EINVAL\<close> for a bad character, in that order.
\<close>

theorem check_svc_name_spec:
  assumes "is_cstr s"
  shows "tinit_check_svc_name s (length s) =
     (if s = [] then - ENODATA
      else if length s \<ge> TINIT_SVC_NAME_MAX then - ENAMETOOLONG
      else if svc_name_ok s then 0 else - EINVAL)"
proof (cases "s = [] \<or> length s \<ge> TINIT_SVC_NAME_MAX")
  case True
  then show ?thesis by (auto simp: tinit_check_svc_name_def)
next
  case False
  then show ?thesis
    using check_svc_name_zero [OF assms] by (auto simp: tinit_check_svc_name_def split: if_splits)
qed

theorem check_svc_name_spec_witness:
  "is_cstr ''tty@1'' \<and> tinit_check_svc_name ''tty@1'' (length ''tty@1'') = 0 \<and> svc_name_ok ''tty@1''"
proof -
  have c: "is_cstr ''tty@1''"
    by (simp add: is_cstr_def)
  have ok: "svc_name_ok ''tty@1''"
    by (simp add: svc_name_ok_def isalnum_def charset_defs)
  show ?thesis
    using check_svc_name_spec [OF c] c ok by (simp only: if_True if_False list.distinct) simp
qed

end
