(* ===== verification/Conf.thy ===== *)
theory Conf imports Names Conf_Types begin

text \<open>
  Loading a service configuration (\<open>conf.c\<close>). libconfig is an argument: the record \<open>libcfg\<close> holds
  the accessors the loader calls on a parsed setting, of a type of their own, and \<open>config_read_file\<close>
  is a function from the path to a root setting or an error. What is allocated is counted in the
  store \<open>mem\<close> of the prelude; a use of a pointer that was never set or is already freed raises its
  flag. Messages to \<open>stderr\<close> are left out.
\<close>

section \<open>libconfig\<close>

record 's libcfg =
  cfg_is_int :: "'s \<Rightarrow> bool"                 \<comment> \<open>\<open>config_setting_type\<close> is \<open>CONFIG_TYPE_INT\<close>\<close>
  cfg_is_array :: "'s \<Rightarrow> bool"
  cfg_is_list :: "'s \<Rightarrow> bool"
  cfg_is_group :: "'s \<Rightarrow> bool"
  cfg_get_int :: "'s \<Rightarrow> int"
  cfg_get_string :: "'s \<Rightarrow> string option"
  cfg_length :: "'s \<Rightarrow> nat"
  cfg_get_elem :: "'s \<Rightarrow> nat \<Rightarrow> 's"
  cfg_name :: "'s \<Rightarrow> string"

datatype 's cfg_read = Read_root 's | Read_io int | Read_parse

abbreviation (input) SVC_DESC_MAX :: nat where "SVC_DESC_MAX \<equiv> 128"
abbreviation (input) SVC_ENV_NAME_MAX :: nat where "SVC_ENV_NAME_MAX \<equiv> 64"
abbreviation (input) SVC_ENV_VALUE_MAX :: nat where "SVC_ENV_VALUE_MAX \<equiv> 1024"
abbreviation (input) SVC_ARG_MAX :: nat where "SVC_ARG_MAX \<equiv> 1024"
abbreviation (input) CONF_PATH_MAX :: nat where "CONF_PATH_MAX \<equiv> 4096"

section \<open>Command sequences\<close>

definition conf_seq_put_cmd :: "conf_seq \<Rightarrow> nat \<Rightarrow> strarr \<Rightarrow> conf_seq" where
  "conf_seq_put_cmd s c args = (case seq_cmds s of
      Ptr cmds \<Rightarrow> s\<lparr>seq_cmds := Ptr (cmds[c := Some args])\<rparr>
    | _ \<Rightarrow> s)"

definition conf_seq_setup :: "conf_seq \<Rightarrow> nat \<Rightarrow> mem \<Rightarrow> int \<times> conf_seq \<times> mem" where
  "conf_seq_setup s nr m = (case mem_alloc m of
      (False, m') \<Rightarrow> (- ENOMEM, s\<lparr>seq_cmds := Null\<rparr>, m')
    | (True, m') \<Rightarrow> (0, \<lparr>seq_nr = nr, seq_cmds = Ptr (replicate nr None)\<rparr>, m'))"

text \<open>The arrays are destroyed up to the first NULL; the structure keeps its count and its pointer.\<close>

definition seq_owned :: "nat \<Rightarrow> strarr option list \<Rightarrow> strarr list" where
  "seq_owned nr cmds = map the (takeWhile (\<lambda>a. a \<noteq> None) (take nr cmds))"

definition conf_seq_release :: "conf_seq \<Rightarrow> mem \<Rightarrow> conf_seq \<times> mem" where
  "conf_seq_release s m =
     (if seq_nr s = 0 then (s, m)
      else case seq_cmds s of
        Ptr cmds \<Rightarrow> (s\<lparr>seq_cmds := Dangling\<rparr>, mem_free 1 (fold strarr_destroy (seq_owned (seq_nr s) cmds) m))
      | _ \<Rightarrow> (s, mem_fault m))"

section \<open>Parsers\<close>

text \<open>\<open>Inl\<close> is the negative error; a string comes with its length.\<close>

definition conf_parse_int_setting :: "'s libcfg \<Rightarrow> 's \<Rightarrow> int + int" where
  "conf_parse_int_setting C s = (if \<not> cfg_is_int C s then Inl (- EBADMSG) else Inr (cfg_get_int C s))"

definition conf_parse_signo_setting :: "'s libcfg \<Rightarrow> 's \<Rightarrow> int + int" where
  "conf_parse_signo_setting C s = (case conf_parse_int_setting C s of
      Inl err \<Rightarrow> Inl err
    | Inr val \<Rightarrow>
        (if val \<le> 0 \<or> (val > SIGSYS \<and> val < SIGRTMIN) \<or> val > SIGRTMAX then Inl (- ERANGE)
         else Inr val))"

definition conf_parse_string_setting :: "'s libcfg \<Rightarrow> 's \<Rightarrow> nat \<Rightarrow> int + string \<times> nat" where
  "conf_parse_string_setting C s max_size = (case cfg_get_string C s of
      None \<Rightarrow> Inl (- EBADMSG)
    | Some str \<Rightarrow>
        (let len = strnlen str max_size
         in if len = 0 then Inl (- ENODATA)
            else if len \<ge> max_size then Inl (- EMSGSIZE)
            else Inr (str, len)))"

definition conf_parse_name_setting :: "'s libcfg \<Rightarrow> 's \<Rightarrow> int + string \<times> nat" where
  "conf_parse_name_setting C s = (case conf_parse_string_setting C s TINIT_SVC_NAME_MAX of
      Inl err \<Rightarrow> Inl err
    | Inr (str, len) \<Rightarrow>
        (if tinit_probe_inval_char str len \<noteq> 0 then Inl (- EINVAL) else Inr (str, len)))"

definition conf_parse_cmd_arg :: "'s libcfg \<Rightarrow> 's \<Rightarrow> int + string \<times> nat" where
  "conf_parse_cmd_arg C s = (case conf_parse_string_setting C s SVC_ARG_MAX of
      Inl err \<Rightarrow> Inl err
    | Inr (str, len) \<Rightarrow>
        (if strspn str PRINT_CHARSET \<noteq> len then Inl (- EINVAL) else Inr (str, len)))"

text \<open>The loop of \<open>conf_load_strarr_setting\<close>, from element \<open>e\<close>, \<open>n\<close> elements to go.\<close>

fun load_strarr :: "'s libcfg \<Rightarrow> 's \<Rightarrow> ('s libcfg \<Rightarrow> 's \<Rightarrow> int + string \<times> nat) \<Rightarrow> nat \<Rightarrow> nat \<Rightarrow> strarr \<Rightarrow> mem \<Rightarrow>
    (int + strarr) \<times> mem" where
  "load_strarr C s parse e 0 arr m = (Inr arr, m)"
| "load_strarr C s parse e (Suc n) arr m = (case parse C (cfg_get_elem C s e) of
      Inl err \<Rightarrow> (Inl err, strarr_destroy arr m)
    | Inr (str, len) \<Rightarrow> (case strarr_rep arr e str len m of
        (err, arr1, m1) \<Rightarrow>
          if err \<noteq> 0 then (Inl err, strarr_destroy arr1 m1)
          else load_strarr C s parse (Suc e) n arr1 m1))"

definition conf_load_strarr_setting :: "'s libcfg \<Rightarrow> 's \<Rightarrow> ('s libcfg \<Rightarrow> 's \<Rightarrow> int + string \<times> nat) \<Rightarrow> bool \<Rightarrow>
    mem \<Rightarrow> (int + strarr) \<times> mem" where
  "conf_load_strarr_setting C s parse marker m =
     (if \<not> cfg_is_array C s then (Inl (- EBADMSG), m)
      else let nr = cfg_length C s
      in if nr = 0 then (Inl (- ENODATA), m)
         else case strarr_create (nr + (if marker then 1 else 0)) m of
           (None, m1) \<Rightarrow> (Inl (- ENOMEM), m1)
         | (Some arr, m1) \<Rightarrow> load_strarr C s parse 0 nr arr m1)"

text \<open>The loop of \<open>conf_load_seq_setting\<close>, likewise.\<close>

fun load_seq :: "'s libcfg \<Rightarrow> 's \<Rightarrow> nat \<Rightarrow> nat \<Rightarrow> conf_seq \<Rightarrow> mem \<Rightarrow> int \<times> conf_seq \<times> mem" where
  "load_seq C s c 0 seq m = (0, seq, m)"
| "load_seq C s c (Suc n) seq m =
     (case conf_load_strarr_setting C (cfg_get_elem C s c) conf_parse_cmd_arg True m of
        (Inl err, m1) \<Rightarrow> (case conf_seq_release seq m1 of (seq1, m2) \<Rightarrow> (err, seq1, m2))
      | (Inr args, m1) \<Rightarrow> load_seq C s (Suc c) n (conf_seq_put_cmd seq c args) m1)"

definition conf_load_seq_setting :: "'s libcfg \<Rightarrow> 's \<Rightarrow> conf_seq \<Rightarrow> mem \<Rightarrow> int \<times> conf_seq \<times> mem" where
  "conf_load_seq_setting C s seq m =
     (if \<not> cfg_is_list C s then (- EBADMSG, seq, m)
      else let nr = cfg_length C s
      in if nr = 0 then (- ENODATA, seq, m)
         else case conf_seq_setup seq nr m of
           (err, seq1, m1) \<Rightarrow>
             if err \<noteq> 0 then (- ENOMEM, seq1, m1) else load_seq C s 0 nr seq1 m1)"

section \<open>Loaders of the top-level settings\<close>

text \<open>Each takes the configuration built so far and returns an error, 0 when it succeeds.\<close>

definition conf_load_name :: "'s libcfg \<Rightarrow> conf_svc \<Rightarrow> 's \<Rightarrow> mem \<Rightarrow> int \<times> conf_svc \<times> mem" where
  "conf_load_name C conf s m = (case conf_parse_name_setting C s of
      Inl err \<Rightarrow> (err, conf, m)
    | Inr (str, len) \<Rightarrow> (case strrep str len m of
        (None, m1) \<Rightarrow> (- ENOMEM, conf\<lparr>c_name := None\<rparr>, m1)
      | (Some n, m1) \<Rightarrow> (0, conf\<lparr>c_name := Some n\<rparr>, m1)))"

definition conf_load_desc :: "'s libcfg \<Rightarrow> conf_svc \<Rightarrow> 's \<Rightarrow> mem \<Rightarrow> int \<times> conf_svc \<times> mem" where
  "conf_load_desc C conf s m = (case conf_parse_string_setting C s SVC_DESC_MAX of
      Inl err \<Rightarrow> (err, conf, m)
    | Inr (str, len) \<Rightarrow>
        (if strspn str (GRAPH_CHARSET @ '' '') \<noteq> len then (- EINVAL, conf, m)
         else case strrep str len m of
           (None, m1) \<Rightarrow> (- ENOMEM, conf\<lparr>c_desc := None\<rparr>, m1)
         | (Some d, m1) \<Rightarrow> (0, conf\<lparr>c_desc := Some d\<rparr>, m1)))"

text \<open>
  The caller's \<open>path\<close> is only written on success: it is \<open>Dangling\<close>, a pointer that was never set,
  otherwise. A string that does not parse is reported by a positive number.
\<close>

definition conf_load_stdio :: "'s libcfg \<Rightarrow> 's \<Rightarrow> int \<times> string ptr" where
  "conf_load_stdio C s = (case conf_parse_string_setting C s CONF_PATH_MAX of
      Inl err \<Rightarrow> (- err, Dangling)
    | Inr (str, len) \<Rightarrow>
        (if strspn str (ALNUM_CHARSET @ ''/._-'') \<noteq> len then (- EINVAL, Dangling)
         else (int len, Ptr str)))"

definition conf_load_stdin :: "'s libcfg \<Rightarrow> conf_svc \<Rightarrow> 's \<Rightarrow> mem \<Rightarrow> int \<times> conf_svc \<times> mem" where
  "conf_load_stdin C conf s m = (case conf_load_stdio C s of
      (len, path) \<Rightarrow>
        if len < 0 then (len, conf, m)
        else if nat len \<le> length ''/dev/'' then (- ENOTTY, conf, case path of Ptr _ \<Rightarrow> m | _ \<Rightarrow> mem_fault m)
        else case path of
          Ptr p \<Rightarrow>
            (if take (length ''/dev/'') p \<noteq> ''/dev/'' then (- ENOTTY, conf, m)
             else case strrep p (nat len) m of
               (None, m1) \<Rightarrow> (- ENOMEM, conf\<lparr>c_stdin := None\<rparr>, m1)
             | (Some d, m1) \<Rightarrow> (0, conf\<lparr>c_stdin := Some d\<rparr>, m1))
        | _ \<Rightarrow> (- ENOTTY, conf, mem_fault m))"

definition conf_load_stdout :: "'s libcfg \<Rightarrow> conf_svc \<Rightarrow> 's \<Rightarrow> mem \<Rightarrow> int \<times> conf_svc \<times> mem" where
  "conf_load_stdout C conf s m = (case conf_load_stdio C s of
      (len, path) \<Rightarrow>
        if len < 0 then (len, conf, m)
        else case path of
          Ptr p \<Rightarrow> (case strrep p (nat len) m of
               (None, m1) \<Rightarrow> (- ENOMEM, conf\<lparr>c_stdout := None\<rparr>, m1)
             | (Some d, m1) \<Rightarrow> (0, conf\<lparr>c_stdout := Some d\<rparr>, m1))
        | _ \<Rightarrow> (- ENOMEM, conf, mem_fault m))"

subsection \<open>Environment\<close>

definition conf_parse_env_var :: "'s libcfg \<Rightarrow> 's \<Rightarrow> int + string \<times> nat" where
  "conf_parse_env_var C s =
     (let str = cfg_name C s;
          len = strnlen str SVC_ENV_NAME_MAX
      in if len \<ge> SVC_ENV_NAME_MAX then Inl (- EMSGSIZE)
         else let chr = (if isdigit (char_at str 0) then 0 else strspn str (ALNUM_CHARSET @ ''_''))
         in if chr \<noteq> len then Inl (- EINVAL) else Inr (str, len))"

definition ENV_VALUE_CHARSET :: string where
  "ENV_VALUE_CHARSET = ALNUM_CHARSET @ [CHR 0x09] @ '' _,-./:=@'' @ [CHR 0x5C]"

definition conf_parse_env_val :: "'s libcfg \<Rightarrow> 's \<Rightarrow> int + string \<times> nat" where
  "conf_parse_env_val C s = (case conf_parse_string_setting C s SVC_ENV_VALUE_MAX of
      Inl err \<Rightarrow> Inl err
    | Inr (str, len) \<Rightarrow>
        (if strspn str ENV_VALUE_CHARSET \<noteq> len then Inl (- EINVAL) else Inr (str, len)))"

text \<open>\<open>Inl\<close> is the (positive) \<open>errno\<close> left with a NULL result.\<close>

definition conf_build_env_expr :: "'s libcfg \<Rightarrow> 's \<Rightarrow> mem \<Rightarrow> (int + string) \<times> mem" where
  "conf_build_env_expr C s m = (case conf_parse_env_var C s of
      Inl err \<Rightarrow> (Inl (- err), m)
    | Inr (var, var_len) \<Rightarrow> (case conf_parse_env_val C s of
        Inl err \<Rightarrow> (Inl (- err), m)
      | Inr (val, val_len) \<Rightarrow> (case mem_alloc m of
          (False, m1) \<Rightarrow> (Inl ENOMEM, m1)
        | (True, m1) \<Rightarrow> (Inr (take var_len var @ ''='' @ take val_len val), m1))))"

fun load_env :: "'s libcfg \<Rightarrow> 's \<Rightarrow> nat \<Rightarrow> nat \<Rightarrow> strarr \<Rightarrow> mem \<Rightarrow> (int + strarr) \<times> mem" where
  "load_env C s e 0 env m = (Inr env, m)"
| "load_env C s e (Suc n) env m = (case conf_build_env_expr C (cfg_get_elem C s e) m of
      (Inl errno, m1) \<Rightarrow> (Inl (- errno), strarr_destroy env m1)
    | (Inr expr, m1) \<Rightarrow> load_env C s (Suc e) n (strarr_put env e (Some expr)) m1)"

definition conf_load_env :: "'s libcfg \<Rightarrow> conf_svc \<Rightarrow> 's \<Rightarrow> mem \<Rightarrow> int \<times> conf_svc \<times> mem" where
  "conf_load_env C conf s m =
     (if \<not> cfg_is_group C s then (- EBADMSG, conf, m)
      else let nr = cfg_length C s
      in if nr = 0 then (- ENODATA, conf, m)
         else case strarr_create (nr + 1) m of
           (None, m1) \<Rightarrow> (- ENOMEM, conf, m1)
         | (Some env, m1) \<Rightarrow> (case load_env C s 0 nr env m1 of
             (Inl err, m2) \<Rightarrow> (err, conf, m2)
           | (Inr env1, m2) \<Rightarrow> (0, conf\<lparr>c_env := Some env1\<rparr>, m2)))"

subsection \<open>Dependencies, commands, signals\<close>

definition conf_load_starton :: "'s libcfg \<Rightarrow> conf_svc \<Rightarrow> 's \<Rightarrow> mem \<Rightarrow> int \<times> conf_svc \<times> mem" where
  "conf_load_starton C conf s m = (case conf_load_strarr_setting C s conf_parse_name_setting False m of
      (Inl err, m1) \<Rightarrow> (err, conf, m1)
    | (Inr a, m1) \<Rightarrow> (0, conf\<lparr>c_starton := Some a\<rparr>, m1))"

definition conf_load_stopon :: "'s libcfg \<Rightarrow> conf_svc \<Rightarrow> 's \<Rightarrow> mem \<Rightarrow> int \<times> conf_svc \<times> mem" where
  "conf_load_stopon C conf s m = (case conf_load_strarr_setting C s conf_parse_name_setting False m of
      (Inl err, m1) \<Rightarrow> (err, conf, m1)
    | (Inr a, m1) \<Rightarrow> (0, conf\<lparr>c_stopon := Some a\<rparr>, m1))"

definition conf_load_start :: "'s libcfg \<Rightarrow> conf_svc \<Rightarrow> 's \<Rightarrow> mem \<Rightarrow> int \<times> conf_svc \<times> mem" where
  "conf_load_start C conf s m = (case conf_load_seq_setting C s (c_start conf) m of
      (err, seq, m1) \<Rightarrow> (err, conf\<lparr>c_start := seq\<rparr>, m1))"

definition conf_load_stop :: "'s libcfg \<Rightarrow> conf_svc \<Rightarrow> 's \<Rightarrow> mem \<Rightarrow> int \<times> conf_svc \<times> mem" where
  "conf_load_stop C conf s m = (case conf_load_seq_setting C s (c_stop conf) m of
      (err, seq, m1) \<Rightarrow> (err, conf\<lparr>c_stop := seq\<rparr>, m1))"

definition conf_load_sig_setting :: "'s libcfg \<Rightarrow> conf_svc \<Rightarrow> 's \<Rightarrow> int \<times> conf_svc" where
  "conf_load_sig_setting C conf s =
     (if cfg_name C s = ''stop'' then
        (case conf_parse_signo_setting C s of
           Inl err \<Rightarrow> (err, conf) | Inr sig \<Rightarrow> (0, conf\<lparr>c_stop_sig := sig\<rparr>))
      else if cfg_name C s = ''reload'' then
        (case conf_parse_signo_setting C s of
           Inl err \<Rightarrow> (err, conf) | Inr sig \<Rightarrow> (0, conf\<lparr>c_reload_sig := sig\<rparr>))
      else (- EINVAL, conf))"

fun load_signals :: "'s libcfg \<Rightarrow> 's \<Rightarrow> nat \<Rightarrow> nat \<Rightarrow> conf_svc \<Rightarrow> int \<times> conf_svc" where
  "load_signals C s e 0 conf = (0, conf)"
| "load_signals C s e (Suc n) conf = (case conf_load_sig_setting C conf (cfg_get_elem C s e) of
      (err, conf1) \<Rightarrow> if err \<noteq> 0 then (err, conf1) else load_signals C s (Suc e) n conf1)"

definition conf_load_signal :: "'s libcfg \<Rightarrow> conf_svc \<Rightarrow> 's \<Rightarrow> mem \<Rightarrow> int \<times> conf_svc \<times> mem" where
  "conf_load_signal C conf s m =
     (if \<not> cfg_is_group C s then (- EBADMSG, conf, m)
      else let nr = cfg_length C s
      in if nr = 0 then (- ENODATA, conf, m)
         else case load_signals C s 0 nr conf of (err, conf1) \<Rightarrow> (err, conf1, m))"

definition conf_load_daemon :: "'s libcfg \<Rightarrow> conf_svc \<Rightarrow> 's \<Rightarrow> mem \<Rightarrow> int \<times> conf_svc \<times> mem" where
  "conf_load_daemon C conf s m = (case conf_load_strarr_setting C s conf_parse_cmd_arg True m of
      (Inl err, m1) \<Rightarrow> (err, conf, m1)
    | (Inr a, m1) \<Rightarrow> (0, conf\<lparr>c_daemon := Some a\<rparr>, m1))"

type_synonym 's loader = "'s libcfg \<Rightarrow> conf_svc \<Rightarrow> 's \<Rightarrow> mem \<Rightarrow> int \<times> conf_svc \<times> mem"

definition conf_loaders :: "(string \<times> 's loader) list" where
  "conf_loaders = [
     (''name'', conf_load_name),
     (''description'', conf_load_desc),
     (''stdin'', conf_load_stdin),
     (''stdout'', conf_load_stdout),
     (''environ'', conf_load_env),
     (''starton'', conf_load_starton),
     (''start'', conf_load_start),
     (''stopon'', conf_load_stopon),
     (''stop'', conf_load_stop),
     (''signal'', conf_load_signal),
     (''daemon'', conf_load_daemon)]"

section \<open>The configuration as a whole\<close>

definition destroy_opt :: "strarr option \<Rightarrow> mem \<Rightarrow> mem" where
  "destroy_opt a m = (case a of Some a \<Rightarrow> strarr_destroy a m | None \<Rightarrow> m)"

definition free_opt :: "string option \<Rightarrow> mem \<Rightarrow> mem" where
  "free_opt s m = (case s of Some _ \<Rightarrow> mem_free 1 m | None \<Rightarrow> m)"

definition conf_fini :: "conf_svc \<Rightarrow> mem \<Rightarrow> mem" where
  "conf_fini conf m =
     (let m1 = destroy_opt (c_env conf) m;
          m2 = snd (conf_seq_release (c_start conf) m1);
          m3 = snd (conf_seq_release (c_stop conf) m2);
          m4 = destroy_opt (c_daemon conf) m3;
          m5 = free_opt (c_name conf) m4;
          m6 = free_opt (c_path conf) m5;
          m7 = free_opt (c_desc conf) m6;
          m8 = destroy_opt (c_starton conf) m7
      in destroy_opt (c_stopon conf) m8)"

text \<open>The two loops of \<open>conf_strarr_has_dups\<close>: one against \<open>ref\<close>, one over all pairs.\<close>

definition conf_strarr_has_dups :: "strarr \<Rightarrow> string \<Rightarrow> bool" where
  "conf_strarr_has_dups a ref \<longleftrightarrow>
     (\<exists>s \<in> set [0..<strarr_nr a]. strarr_get a s = Some ref) \<or>
     (\<exists>s \<in> set [0..<strarr_nr a - 1]. \<exists>c \<in> set [Suc s..<strarr_nr a]. strarr_get a s = strarr_get a c)"

text \<open>
  The loop over the settings of the root. The result starts as whatever the uninitialised variable
  holds, \<open>junk\<close>, and keeps it while every setting is unknown.
\<close>

fun load_settings :: "'s libcfg \<Rightarrow> 's \<Rightarrow> nat \<Rightarrow> nat \<Rightarrow> int \<Rightarrow> conf_svc \<Rightarrow> mem \<Rightarrow> int \<times> conf_svc \<times> mem" where
  "load_settings C root s 0 ret conf m = (ret, conf, m)"
| "load_settings C root s (Suc n) ret conf m =
     (let set = cfg_get_elem C root s
      in case map_of conf_loaders (cfg_name C set) of
           None \<Rightarrow> load_settings C root (Suc s) n ret conf m
         | Some load \<Rightarrow> (case load C conf set m of
             (ret1, conf1, m1) \<Rightarrow>
               if ret1 \<noteq> 0 then (ret1, conf1, m1) else load_settings C root (Suc s) n ret1 conf1 m1))"

definition conf_load_root :: "'s libcfg \<Rightarrow> int \<Rightarrow> 's \<Rightarrow> conf_svc \<Rightarrow> mem \<Rightarrow> int \<times> conf_svc \<times> mem" where
  "conf_load_root C junk root conf m =
     (let nr = cfg_length C root
      in if nr = 0 then (- ENODATA, conf, m)
         else case load_settings C root 0 nr junk conf m of (ret, conf1, m1) \<Rightarrow>
           if ret \<noteq> 0 then (ret, conf1, conf_fini conf1 m1)
           else case c_name conf1 of
             None \<Rightarrow> (- EPROTO, conf1, conf_fini conf1 m1)
           | Some name \<Rightarrow>
               if conf_seq_nr (c_start conf1) = 0 \<and> conf_seq_nr (c_stop conf1) = 0 \<and> c_daemon conf1 = None
               then (- EPROTO, conf1, conf_fini conf1 m1)
               else if (\<exists>a \<in> set_option (c_starton conf1). conf_strarr_has_dups a name)
               then (- EPROTO, conf1, conf_fini conf1 m1)
               else if (\<exists>a \<in> set_option (c_stopon conf1). conf_strarr_has_dups a name)
               then (- EPROTO, conf1, conf_fini conf1 m1)
               else (0, conf1\<lparr>c_stop_sig := (if c_stop_sig conf1 = 0 then SIGTERM else c_stop_sig conf1),
                     c_reload_sig := (if c_reload_sig conf1 = 0 then SIGTERM else c_reload_sig conf1)\<rparr>, m1))"

text \<open>\<open>basename\<close> of the GNU C library, as \<open>string.h\<close> declares it.\<close>

definition path_basename :: "string \<Rightarrow> string" where
  "path_basename p = rev (takeWhile (\<lambda>c. c \<noteq> CHR ''/'') (rev p))"

definition conf_load_file :: "'s libcfg \<Rightarrow> (string \<Rightarrow> 's cfg_read) \<Rightarrow> int \<Rightarrow> conf_svc \<Rightarrow> string \<Rightarrow> mem \<Rightarrow>
    int \<times> conf_svc \<times> mem" where
  "conf_load_file C read junk conf path m = (case read path of
      Read_io err \<Rightarrow> (- err, conf, m)
    | Read_parse \<Rightarrow> (- EBADMSG, conf, m)
    | Read_root root \<Rightarrow> (case conf_load_root C junk root conf m of
        (ret, conf1, m1) \<Rightarrow>
          if ret \<noteq> 0 then (ret, conf1, m1)
          else case mem_alloc m1 of
            (False, m2) \<Rightarrow> (- ENOMEM, conf1\<lparr>c_path := None\<rparr>, m2)
          | (True, m2) \<Rightarrow> (0, conf1\<lparr>c_path := Some (path_basename path)\<rparr>, m2)))"

text \<open>\<open>Inl\<close> is the \<open>errno\<close> left with a NULL result.\<close>

definition conf_create_from_file :: "'s libcfg \<Rightarrow> (string \<Rightarrow> 's cfg_read) \<Rightarrow> int \<Rightarrow> string \<Rightarrow> mem \<Rightarrow>
    (int + conf_svc) \<times> mem" where
  "conf_create_from_file C read junk path m = (case mem_alloc m of
      (False, m1) \<Rightarrow> (Inl ENOMEM, m1)
    | (True, m1) \<Rightarrow> (case conf_load_file C read junk empty_conf path m1 of
        (err, conf, m2) \<Rightarrow> if err \<noteq> 0 then (Inl (- err), mem_free 1 m2) else (Inr conf, m2)))"

definition conf_destroy :: "conf_svc \<Rightarrow> mem \<Rightarrow> mem" where
  "conf_destroy conf m = mem_free 1 (conf_fini conf m)"

end
