(* ===== verification/Conf_Props.thy ===== *)
theory Conf_Props imports Conf Svc_Step begin

text \<open>
  What the loader of \<open>Conf\<close> guarantees: a configuration it accepts has everything supervision relies
  on (\<open>conf_wf\<close>), every string in it has passed its validator, and the blocks it owns are counted.
  The parsers of strings share an interface, \<open>setting_parser\<close>, under which the array and sequence
  loaders are proved once.
\<close>

section \<open>What libconfig promises\<close>

text \<open>
  Strings are C strings, a length is a non-negative \<open>int\<close>, a group's settings have names, and no two
  have the same (the option that allows overrides is off).
\<close>

definition cfg_ok :: "'s libcfg \<Rightarrow> bool" where
  "cfg_ok C \<longleftrightarrow> (\<forall>s str. cfg_get_string C s = Some str \<longrightarrow> is_cstr str) \<and>
     (\<forall>s. cfg_length C s < 2 ^ 31) \<and>
     (\<forall>s. is_cstr (cfg_name C s)) \<and>
     (\<forall>g i. cfg_is_group C g \<longrightarrow> i < cfg_length C g \<longrightarrow> cfg_name C (cfg_get_elem C g i) \<noteq> []) \<and>
     (\<forall>g. cfg_is_group C g \<longrightarrow> inj_on (\<lambda>i. cfg_name C (cfg_get_elem C g i)) {..<cfg_length C g})"

lemma cfg_okD:
  assumes "cfg_ok C"
  shows "cfg_get_string C s = Some str \<Longrightarrow> is_cstr str" "cfg_length C s < 2 ^ 31" "is_cstr (cfg_name C s)"
    "cfg_is_group C g \<Longrightarrow> i < cfg_length C g \<Longrightarrow> cfg_name C (cfg_get_elem C g i) \<noteq> []"
    "cfg_is_group C g \<Longrightarrow> inj_on (\<lambda>i. cfg_name C (cfg_get_elem C g i)) {..<cfg_length C g}"
  using assms unfolding cfg_ok_def by blast+

section \<open>Arrays as the loaders build them\<close>

text \<open>The strings \<open>ss\<close> and \<open>k\<close> slots not filled yet, or the marker.\<close>

definition arr_of :: "string list \<Rightarrow> nat \<Rightarrow> strarr" where
  "arr_of ss k = \<lparr>sa_nr = length ss + k, sa_strings = map Some ss @ replicate k None\<rparr>"

lemma arr_of_sel [simp]:
  "sa_nr (arr_of ss k) = length ss + k" "sa_strings (arr_of ss k) = map Some ss @ replicate k None"
  by (simp_all add: arr_of_def)

lemma arr_put: "strarr_put (arr_of ss (Suc k)) (length ss) (Some s) = arr_of (ss @ [s]) k"
  by (simp add: strarr_put_def arr_of_def list_update_append)

lemma arr_create:
  "strarr_create nr m = (Some a, m') \<Longrightarrow> a = arr_of [] nr \<and> live m' = live m + 1 \<and> bad_free m' = bad_free m"
  "strarr_create nr m = (None, m') \<Longrightarrow> live m' = live m \<and> bad_free m' = bad_free m"
  by (auto simp: strarr_create_def arr_of_def split: prod.splits bool.splits dest: mem_alloc_True mem_alloc_False)

lemma arr_owned: "strarr_owned (arr_of ss k) = map Some ss"
proof -
  have "takeWhile (\<lambda>s. s \<noteq> None) (replicate k (None :: string option)) = []"
    by (cases k) simp_all
  moreover have "takeWhile (\<lambda>s. s \<noteq> None) (map Some ss @ xs) =
      map Some ss @ takeWhile (\<lambda>s. s \<noteq> None) xs" for xs
    by (rule takeWhile_append2) auto
  ultimately show ?thesis
    by (simp add: strarr_owned_def)
qed

lemma arr_destroy [simp]:
  "live (strarr_destroy (arr_of ss k) m) = live m - int (length ss) - 1"
  "bad_free (strarr_destroy a m) = bad_free m"
  by (simp_all add: strarr_destroy_def arr_owned)

lemma arr_rep:
  assumes "strarr_rep (arr_of ss (Suc k)) (length ss) s (length s) m = (err, a, m')" "is_cstr s"
  shows "if err = 0 then a = arr_of (ss @ [s]) k \<and> live m' = live m + 1 \<and> bad_free m' = bad_free m
    else err < 0 \<and> a = arr_of ss (Suc k) \<and> live m' = live m \<and> bad_free m' = bad_free m"
  using assms
  by (auto simp: strarr_rep_def arr_put split: prod.splits option.splits dest: strrep_Some strrep_None)

section \<open>The interface of the string parsers\<close>

locale setting_parser =
  fixes parse :: "'s libcfg \<Rightarrow> 's \<Rightarrow> int + string \<times> nat" and P :: "string \<Rightarrow> bool"
  assumes parsed: "cfg_ok C \<Longrightarrow> parse C s = Inr (str, len) \<Longrightarrow> len = length str \<and> is_cstr str \<and> P str"
    and failed: "cfg_ok C \<Longrightarrow> parse C s = Inl err \<Longrightarrow> err < 0"
begin

lemma load_strarr:
  assumes C: "cfg_ok C"
  shows "load_strarr C s parse e n (arr_of ss (n + k)) m = (r, m') \<Longrightarrow> length ss = e \<Longrightarrow>
    bad_free m' = bad_free m \<and>
    (case r of
       Inr a \<Rightarrow> \<exists>ts. a = arr_of (ss @ ts) k \<and> length ts = n \<and> (\<forall>t \<in> set ts. P t) \<and>
         (\<forall>i < n. parse C (cfg_get_elem C s (e + i)) = Inr (ts ! i, length (ts ! i))) \<and>
         live m' = live m + int n
     | Inl err \<Rightarrow> err < 0 \<and> live m' = live m - int (length ss) - 1)"
proof (induction n arbitrary: e ss m)
  case 0
  then show ?case by auto
next
  case (Suc n)
  show ?case
  proof (cases "parse C (cfg_get_elem C s e)")
    case (Inl err)
    with Suc.prems failed [OF C Inl] show ?thesis
      by auto
  next
    case (Inr sl)
    then obtain str where p: "parse C (cfg_get_elem C s e) = Inr (str, length str)" and str: "is_cstr str" "P str"
      using parsed [OF C] by (cases sl) auto
    obtain err a m1 where rep: "strarr_rep (arr_of ss (Suc (n + k))) (length ss) str (length str) m = (err, a, m1)"
      by (metis prod_cases3)
    show ?thesis
    proof (cases "err = 0")
      case False
      with Suc.prems p rep arr_rep [OF rep str(1)] show ?thesis
        by auto
    next
      case True
      with arr_rep [OF rep str(1)] have a: "a = arr_of (ss @ [str]) (n + k)" "live m1 = live m + 1" "bad_free m1 = bad_free m"
        by simp_all
      have "load_strarr C s parse (Suc e) n (arr_of (ss @ [str]) (n + k)) m1 = (r, m')"
        using Suc.prems p rep True a(1) by simp
      note ih = Suc.IH [OF this]
      show ?thesis
      proof (cases r)
        case (Inl err)
        with ih Suc.prems(2) a show ?thesis by auto
      next
        case Inr2: (Inr b)
        with ih Suc.prems(2) obtain ts where ts: "b = arr_of ((ss @ [str]) @ ts) k" "length ts = n" "\<forall>t \<in> set ts. P t"
          "\<forall>i < n. parse C (cfg_get_elem C s (Suc e + i)) = Inr (ts ! i, length (ts ! i))" "live m' = live m1 + int n"
          by auto
        have "parse C (cfg_get_elem C s (e + i)) = Inr ((str # ts) ! i, length ((str # ts) ! i))" if "i < Suc n" for i
          using that p ts(4) by (cases i) auto
        with ts a ih Suc.prems(2) Inr2 str(2) show ?thesis
          by (auto intro!: exI [of _ "str # ts"])
      qed
    qed
  qed
qed

lemma load_array:
  assumes C: "cfg_ok C" and run: "conf_load_strarr_setting C s parse marker m = (r, m')"
  shows "bad_free m' = bad_free m \<and>
    (case r of
       Inr a \<Rightarrow> \<exists>ts. a = arr_of ts (if marker then 1 else 0) \<and> ts \<noteq> [] \<and> length ts = cfg_length C s \<and>
         (\<forall>t \<in> set ts. P t) \<and>
         (\<forall>i < length ts. parse C (cfg_get_elem C s i) = Inr (ts ! i, length (ts ! i))) \<and>
         live m' = live m + int (length ts) + 1
     | Inl err \<Rightarrow> err < 0 \<and> live m' = live m)"
proof -
  let ?k = "if marker then 1 else 0 :: nat" and ?n = "cfg_length C s"
  consider (bad) "\<not> cfg_is_array C s \<or> ?n = 0" | (oom) m1 where "cfg_is_array C s" "?n \<noteq> 0" "strarr_create (?n + ?k) m = (None, m1)"
    | (go) a m1 where "cfg_is_array C s" "?n \<noteq> 0" "strarr_create (?n + ?k) m = (Some a, m1)"
    by (cases "strarr_create (?n + ?k) m") (metis option.exhaust)
  then show ?thesis
  proof cases
    case bad
    with run show ?thesis
      by (auto simp: conf_load_strarr_setting_def split: if_splits)
  next
    case oom
    with run arr_create(2) [OF oom(3)] show ?thesis
      by (auto simp: conf_load_strarr_setting_def)
  next
    case go
    note a = arr_create(1) [OF go(3)]
    have "load_strarr C s parse 0 ?n (arr_of [] (?n + ?k)) m1 = (r, m')"
      using run go a by (simp add: conf_load_strarr_setting_def Let_def split: if_splits)
    note L = load_strarr [OF C this, simplified]
    show ?thesis
    proof (cases r)
      case (Inl err)
      with L a show ?thesis by simp
    next
      case (Inr b)
      with L obtain ts where ts: "b = arr_of ts ?k" "length ts = ?n" "\<forall>t \<in> set ts. P t"
        "\<forall>i < ?n. parse C (cfg_get_elem C s i) = Inr (ts ! i, length (ts ! i))" "live m' = live m1 + int ?n"
        "bad_free m' = bad_free m1"
        by (simp split: if_splits) blast+
      then have "ts \<noteq> []"
        using go(2) by auto
      with ts a Inr show ?thesis
        by auto
    qed
  qed
qed

end

section \<open>The parsers\<close>

definition cmd_arg_ok :: "string \<Rightarrow> bool" where
  "cmd_arg_ok s \<longleftrightarrow> s \<noteq> [] \<and> length s < SVC_ARG_MAX \<and> set s \<subseteq> set PRINT_CHARSET"

lemma parse_string:
  assumes "cfg_ok C"
  shows "conf_parse_string_setting C s n = Inr (str, len) \<Longrightarrow>
      cfg_get_string C s = Some str \<and> is_cstr str \<and> len = length str \<and> str \<noteq> [] \<and> length str < n"
    and "conf_parse_string_setting C s n = Inl err \<Longrightarrow> err \<in> {- EBADMSG, - ENODATA, - EMSGSIZE}"
  using cfg_okD(1) [OF assms]
  by (auto simp: conf_parse_string_setting_def Let_def strnlen_cstr split: option.splits if_splits)

lemma parse_name:
  assumes "cfg_ok C"
  shows "conf_parse_name_setting C s = Inr (str, len) \<Longrightarrow> len = length str \<and> is_cstr str \<and> svc_name_ok str"
    and "conf_parse_name_setting C s = Inl err \<Longrightarrow> err < 0"
  using parse_string [OF assms, of s TINIT_SVC_NAME_MAX] probe_inval_char_zero [of str]
  by (auto simp: conf_parse_name_setting_def svc_name_ok_def split: sum.splits if_splits)

lemma parse_cmd_arg:
  assumes "cfg_ok C"
  shows "conf_parse_cmd_arg C s = Inr (str, len) \<Longrightarrow> len = length str \<and> is_cstr str \<and> cmd_arg_ok str"
    and "conf_parse_cmd_arg C s = Inl err \<Longrightarrow> err < 0"
  using parse_string [OF assms, of s SVC_ARG_MAX] strspn_full [of str PRINT_CHARSET]
  by (auto simp: conf_parse_cmd_arg_def cmd_arg_ok_def split: sum.splits if_splits)

lemma cmd_arg_string:
  assumes "cfg_ok C" "conf_parse_cmd_arg C s = Inr (str, len)"
  shows "cfg_get_string C s = Some str"
  using assms(2) parse_string(1) [OF assms(1), of s SVC_ARG_MAX str len]
  by (cases "conf_parse_string_setting C s SVC_ARG_MAX")
    (auto simp: conf_parse_cmd_arg_def simp del: One_nat_def split: if_splits)

interpretation names: setting_parser conf_parse_name_setting svc_name_ok
  by unfold_locales (simp_all add: parse_name)

interpretation args: setting_parser conf_parse_cmd_arg cmd_arg_ok
  by unfold_locales (simp_all add: parse_cmd_arg)

section \<open>Sequences of commands\<close>

definition cmds_of :: "string list list \<Rightarrow> nat \<Rightarrow> conf_seq" where
  "cmds_of css k = \<lparr>seq_nr = length css + k,
     seq_cmds = Ptr (map (\<lambda>ss. Some (arr_of ss 1)) css @ replicate k None)\<rparr>"

definition cmds_blocks :: "string list list \<Rightarrow> int" where
  "cmds_blocks css = (\<Sum>ss\<leftarrow>css. int (length ss) + 1)"

lemma cmds_blocks_simps [simp]:
  "cmds_blocks [] = 0" "cmds_blocks (xs @ ys) = cmds_blocks xs + cmds_blocks ys"
  "cmds_blocks (ss # xs) = int (length ss) + 1 + cmds_blocks xs"
  by (simp_all add: cmds_blocks_def)

lemma cmds_put:
  "conf_seq_put_cmd (cmds_of css (Suc k)) (length css) (arr_of ss 1) = cmds_of (css @ [ss]) k"
  by (simp add: conf_seq_put_cmd_def cmds_of_def list_update_append)

lemma cmds_owned: "seq_owned (length css + k) (map (\<lambda>ss. Some (arr_of ss 1)) css @ replicate k None) =
    map (\<lambda>ss. arr_of ss 1) css"
proof -
  have "takeWhile (\<lambda>a. a \<noteq> None) (replicate k (None :: strarr option)) = []"
    by (cases k) simp_all
  moreover have "takeWhile (\<lambda>a. a \<noteq> None) (map (\<lambda>ss. Some (arr_of ss 1)) css @ xs) =
      map (\<lambda>ss. Some (arr_of ss 1)) css @ takeWhile (\<lambda>a. a \<noteq> None) xs" for xs
    by (rule takeWhile_append2) auto
  ultimately show ?thesis
    by (simp add: seq_owned_def)
qed

lemma destroy_cmds:
  "live (fold strarr_destroy (map (\<lambda>ss. arr_of ss k) css) m) = live m - cmds_blocks css \<and>
   bad_free (fold strarr_destroy (map (\<lambda>ss. arr_of ss k) css) m) = bad_free m"
  by (induction css arbitrary: m) simp_all

lemma cmds_release:
  assumes "conf_seq_release (cmds_of css k) m = (q, m')" "length css + k \<noteq> 0"
  shows "q = \<lparr>seq_nr = length css + k, seq_cmds = Dangling\<rparr> \<and>
    live m' = live m - cmds_blocks css - 1 \<and> bad_free m' = bad_free m"
  using assms destroy_cmds [of 1 css m]
  by (auto simp: conf_seq_release_def cmds_of_def cmds_owned simp del: One_nat_def)

lemma load_seq:
  assumes C: "cfg_ok C"
  shows "load_seq C s c n (cmds_of css n) m = (err, q, m') \<Longrightarrow> length css = c \<Longrightarrow> css \<noteq> [] \<or> n \<noteq> 0 \<Longrightarrow>
    bad_free m' = bad_free m \<and>
    (if err = 0 then \<exists>ds. q = cmds_of (css @ ds) 0 \<and> length ds = n \<and>
        (\<forall>ss \<in> set ds. ss \<noteq> [] \<and> (\<forall>x \<in> set ss. cmd_arg_ok x)) \<and> live m' = live m + cmds_blocks ds
     else err < 0 \<and> q = \<lparr>seq_nr = length css + n, seq_cmds = Dangling\<rparr> \<and>
        live m' = live m - cmds_blocks css - 1)"
proof (induction n arbitrary: c css m)
  case 0
  then show ?case by auto
next
  case (Suc n)
  obtain r m1 where one: "conf_load_strarr_setting C (cfg_get_elem C s c) conf_parse_cmd_arg True m = (r, m1)"
    by fastforce
  note arr = args.load_array [OF C one]
  show ?case
  proof (cases r)
    case (Inl e)
    obtain q1 m2 where rel: "conf_seq_release (cmds_of css (Suc n)) m1 = (q1, m2)"
      by fastforce
    with Suc.prems one Inl arr cmds_release [OF rel] show ?thesis
      by auto
  next
    case (Inr a)
    with arr obtain ts where ts: "a = arr_of ts 1" "ts \<noteq> []" "\<forall>t \<in> set ts. cmd_arg_ok t"
      "live m1 = live m + int (length ts) + 1" "bad_free m1 = bad_free m"
      by auto
    have run: "load_seq C s (Suc c) n (cmds_of (css @ [ts]) n) m1 = (err, q, m')"
      using Suc.prems one Inr ts(1) cmds_put [of css n ts] by simp
    have "length (css @ [ts]) = Suc c" "css @ [ts] \<noteq> [] \<or> n \<noteq> 0"
      using Suc.prems(2) by simp_all
    note ih = Suc.IH [OF run this]
    show ?thesis
    proof (cases "err = 0")
      case True
      with ih obtain ds where "q = cmds_of ((css @ [ts]) @ ds) 0" "length ds = n"
        "\<forall>ss \<in> set ds. ss \<noteq> [] \<and> (\<forall>x \<in> set ss. cmd_arg_ok x)" "live m' = live m1 + cmds_blocks ds"
        by auto
      with ih ts True show ?thesis
        by (auto intro!: exI [of _ "ts # ds"])
    next
      case False
      with ih ts show ?thesis
        by simp
    qed
  qed
qed

text \<open>
  A sequence that was not set yet: loading either fills it, leaves it unset, or leaves a pointer to
  freed memory behind.
\<close>

lemma load_seq_setting:
  assumes C: "cfg_ok C" and run: "conf_load_seq_setting C s empty_seq m = (err, q, m')"
  shows "bad_free m' = bad_free m \<and>
    (if err = 0 then \<exists>ds. q = cmds_of ds 0 \<and> ds \<noteq> [] \<and> length ds < 2 ^ 31 \<and>
        (\<forall>ss \<in> set ds. ss \<noteq> [] \<and> (\<forall>x \<in> set ss. cmd_arg_ok x)) \<and> live m' = live m + cmds_blocks ds + 1
     else live m' = live m \<and> (q = empty_seq \<or> seq_nr q \<noteq> 0 \<and> seq_cmds q = Dangling))"
proof -
  let ?n = "cfg_length C s"
  consider (bad) "\<not> cfg_is_list C s \<or> ?n = 0" | (oom) m1 where "cfg_is_list C s" "?n \<noteq> 0" "mem_alloc m = (False, m1)"
    | (go) m1 where "cfg_is_list C s" "?n \<noteq> 0" "mem_alloc m = (True, m1)"
    by (metis prod.exhaust)
  then show ?thesis
  proof cases
    case bad
    with run show ?thesis
      by (auto simp: conf_load_seq_setting_def Let_def split: if_splits)
  next
    case oom
    with run mem_alloc_False [OF oom(3)] show ?thesis
      by (auto simp: conf_load_seq_setting_def conf_seq_setup_def empty_seq_def)
  next
    case go
    have "\<lparr>seq_nr = ?n, seq_cmds = Ptr (replicate ?n None)\<rparr> = cmds_of [] ?n"
      by (simp add: cmds_of_def)
    with run go have "load_seq C s 0 ?n (cmds_of [] ?n) m1 = (err, q, m')"
      by (simp add: conf_load_seq_setting_def conf_seq_setup_def Let_def)
    from load_seq [OF C this] go mem_alloc_True [OF go(3)] cfg_okD(2) [OF C, of s] show ?thesis
      by (auto split: if_splits)
  qed
qed

section \<open>Environment\<close>

definition env_ok :: "string \<Rightarrow> bool" where
  "env_ok s \<longleftrightarrow> (\<exists>var val. s = var @ ''='' @ val \<and>
     var \<noteq> [] \<and> length var < SVC_ENV_NAME_MAX \<and> \<not> isdigit (hd var) \<and> set var \<subseteq> set (ALNUM_CHARSET @ ''_'') \<and>
     val \<noteq> [] \<and> length val < SVC_ENV_VALUE_MAX \<and> set val \<subseteq> set ENV_VALUE_CHARSET)"

text \<open>The entry reads \<open>name=value\<close> of its setting, and the name has no \<open>=\<close>.\<close>

definition env_reads :: "'s libcfg \<Rightarrow> 's \<Rightarrow> string \<Rightarrow> bool" where
  "env_reads C s e \<longleftrightarrow> (\<exists>val. cfg_get_string C s = Some val \<and> e = cfg_name C s @ ''='' @ val) \<and>
     set (cfg_name C s) \<subseteq> set (ALNUM_CHARSET @ ''_'')"

lemma parse_env_var:
  assumes "cfg_ok C" "cfg_name C s \<noteq> []"
  shows "conf_parse_env_var C s = Inr (str, len) \<Longrightarrow> str = cfg_name C s \<and> len = length str \<and>
      length str < SVC_ENV_NAME_MAX \<and> \<not> isdigit (hd str) \<and> set str \<subseteq> set (ALNUM_CHARSET @ ''_'')"
    and "conf_parse_env_var C s = Inl err \<Longrightarrow> err < 0"
proof -
  have c: "is_cstr (cfg_name C s)"
    using cfg_okD(3) [OF assms(1)] .
  have "char_at (cfg_name C s) 0 = hd (cfg_name C s)"
    using assms(2) by (simp add: char_at_def hd_conv_nth)
  then show "conf_parse_env_var C s = Inr (str, len) \<Longrightarrow> str = cfg_name C s \<and> len = length str \<and>
      length str < SVC_ENV_NAME_MAX \<and> \<not> isdigit (hd str) \<and> set str \<subseteq> set (ALNUM_CHARSET @ ''_'')"
    using c assms(2) strspn_full [OF c, of "ALNUM_CHARSET @ ''_''"]
    by (auto simp: conf_parse_env_var_def Let_def strnlen_cstr split: if_splits)
  show "conf_parse_env_var C s = Inl err \<Longrightarrow> err < 0"
    by (auto simp: conf_parse_env_var_def Let_def split: if_splits)
qed

lemma parse_env_val:
  assumes "cfg_ok C"
  shows "conf_parse_env_val C s = Inr (str, len) \<Longrightarrow> cfg_get_string C s = Some str \<and> len = length str \<and>
      str \<noteq> [] \<and> length str < SVC_ENV_VALUE_MAX \<and> set str \<subseteq> set ENV_VALUE_CHARSET"
    and "conf_parse_env_val C s = Inl err \<Longrightarrow> err < 0"
  using parse_string [OF assms, of s SVC_ENV_VALUE_MAX] strspn_full [of str ENV_VALUE_CHARSET]
  by (auto simp: conf_parse_env_val_def split: sum.splits if_splits)

lemma build_env:
  assumes "cfg_ok C" "cfg_name C s \<noteq> []" "conf_build_env_expr C s m = (r, m')"
  shows "bad_free m' = bad_free m \<and>
    (case r of
       Inr e \<Rightarrow> env_ok e \<and> live m' = live m + 1 \<and> env_reads C s e
     | Inl errno \<Rightarrow> 0 < errno \<and> live m' = live m)"
proof (cases "conf_parse_env_var C s")
  case (Inl err)
  with assms(3) parse_env_var(2) [OF assms(1,2) Inl] show ?thesis
    by (auto simp: conf_build_env_expr_def)
next
  case (Inr v)
  then obtain var where var: "conf_parse_env_var C s = Inr (var, length var)" "var = cfg_name C s"
    "length var < SVC_ENV_NAME_MAX" "\<not> isdigit (hd var)" "set var \<subseteq> set (ALNUM_CHARSET @ ''_'')"
    using parse_env_var(1) [OF assms(1,2)] by (cases v) auto
  show ?thesis
  proof (cases "conf_parse_env_val C s")
    case (Inl err)
    with assms(3) var(1) parse_env_val(2) [OF assms(1) Inl] show ?thesis
      by (auto simp: conf_build_env_expr_def)
  next
    case (Inr x)
    then obtain val where val: "conf_parse_env_val C s = Inr (val, length val)" "cfg_get_string C s = Some val"
      "val \<noteq> []" "length val < SVC_ENV_VALUE_MAX" "set val \<subseteq> set ENV_VALUE_CHARSET"
      using parse_env_val(1) [OF assms(1)] by (cases x) auto
    have "env_ok (var @ ''='' @ val)"
      unfolding env_ok_def using assms(2) var(2-5) val(3-5) by blast
    moreover have "env_reads C s (var @ ''='' @ val)"
      unfolding env_reads_def using var(2,5) val(2) by blast
    ultimately show ?thesis
      using assms(3) var(1) val(1) mem_alloc_True [of m] mem_alloc_False [of m]
      by (auto simp: conf_build_env_expr_def split: prod.splits bool.splits)
  qed
qed

lemma load_env:
  assumes C: "cfg_ok C"
  shows "load_env C s e n (arr_of ss (n + 1)) m = (r, m') \<Longrightarrow> length ss = e \<Longrightarrow>
    \<forall>i < n. cfg_name C (cfg_get_elem C s (e + i)) \<noteq> [] \<Longrightarrow>
    bad_free m' = bad_free m \<and>
    (case r of
       Inr a \<Rightarrow> \<exists>ts. a = arr_of (ss @ ts) 1 \<and> length ts = n \<and> (\<forall>t \<in> set ts. env_ok t) \<and>
         (\<forall>i < n. env_reads C (cfg_get_elem C s (e + i)) (ts ! i)) \<and>
         live m' = live m + int n
     | Inl err \<Rightarrow> err < 0 \<and> live m' = live m - int (length ss) - 1)"
proof (induction n arbitrary: e ss m)
  case 0
  then show ?case by auto
next
  case (Suc n)
  have ne: "cfg_name C (cfg_get_elem C s e) \<noteq> []" "\<forall>i < n. cfg_name C (cfg_get_elem C s (Suc e + i)) \<noteq> []"
    using Suc.prems(3) [rule_format, of 0] Suc.prems(3) [rule_format, of "Suc i" for i] by auto
  obtain x m1 where b: "conf_build_env_expr C (cfg_get_elem C s e) m = (x, m1)"
    by fastforce
  note one = build_env [OF C ne(1) b]
  show ?case
  proof (cases x)
    case (Inl errno)
    with Suc.prems(1) b one show ?thesis
      by auto
  next
    case (Inr ex)
    with one have ex: "env_ok ex" "live m1 = live m + 1" "bad_free m1 = bad_free m"
      "env_reads C (cfg_get_elem C s e) ex"
      by auto
    have "strarr_put (arr_of ss (Suc (n + 1))) e (Some ex) = arr_of (ss @ [ex]) (n + 1)"
      using Suc.prems(2) arr_put by blast
    then have "load_env C s (Suc e) n (arr_of (ss @ [ex]) (n + 1)) m1 = (r, m')"
      using Suc.prems(1) b Inr by simp
    note ih = Suc.IH [OF this _ ne(2)]
    show ?thesis
    proof (cases r)
      case (Inl err)
      with ih Suc.prems(2) ex(2,3) show ?thesis by simp
    next
      case Inr2: (Inr a)
      with ih Suc.prems(2) obtain ts where ts: "a = arr_of ((ss @ [ex]) @ ts) 1" "length ts = n" "\<forall>t \<in> set ts. env_ok t"
        "\<forall>i < n. env_reads C (cfg_get_elem C s (Suc e + i)) (ts ! i)"
        "live m' = live m1 + int n" "bad_free m' = bad_free m1"
        by (simp del: append.simps) blast
      have "env_reads C (cfg_get_elem C s (e + i)) ((ex # ts) ! i)" if "i < Suc n" for i
        using that ex(4) ts(4) by (cases i) auto
      with ts ex(1-3) Inr2 show ?thesis
        by (auto intro!: exI [of _ "ex # ts"])
    qed
  qed
qed

lemma load_env_setting:
  assumes C: "cfg_ok C" and run: "conf_load_env C conf s m = (err, conf', m')"
  shows "bad_free m' = bad_free m \<and>
    (if err = 0 then \<exists>ts. conf' = conf\<lparr>c_env := Some (arr_of ts 1)\<rparr> \<and> ts \<noteq> [] \<and> (\<forall>t \<in> set ts. env_ok t) \<and>
        length ts = cfg_length C s \<and>
        (\<forall>i < length ts. env_reads C (cfg_get_elem C s i) (ts ! i)) \<and>
        live m' = live m + int (length ts) + 1
     else conf' = conf \<and> live m' = live m)"
proof -
  let ?n = "cfg_length C s"
  consider (bad) "\<not> cfg_is_group C s \<or> ?n = 0" | (oom) m1 where "cfg_is_group C s" "?n \<noteq> 0" "strarr_create (?n + 1) m = (None, m1)"
    | (go) a m1 where "cfg_is_group C s" "?n \<noteq> 0" "strarr_create (?n + 1) m = (Some a, m1)"
    by (cases "strarr_create (?n + 1) m") (metis option.exhaust)
  then show ?thesis
  proof cases
    case bad
    with run show ?thesis
      by (auto simp: conf_load_env_def Let_def split: if_splits)
  next
    case oom
    with run arr_create(2) [OF oom(3)] show ?thesis
      by (auto simp: conf_load_env_def)
  next
    case go
    note a = arr_create(1) [OF go(3)]
    obtain r m2 where L: "load_env C s 0 ?n (arr_of [] (?n + 1)) m1 = (r, m2)"
      by fastforce
    have "\<forall>i < ?n. cfg_name C (cfg_get_elem C s (0 + i)) \<noteq> []"
      using cfg_okD(4) [OF C go(1)] by simp
    note spec = load_env [OF C L _ this, simplified]
    show ?thesis
    proof (cases r)
      case (Inl e)
      with spec run go a L show ?thesis
        by (auto simp: conf_load_env_def Let_def)
    next
      case (Inr b)
      with spec obtain ts where ts: "b = arr_of ts 1" "length ts = ?n" "\<forall>t \<in> set ts. env_ok t"
        "\<forall>i < ?n. env_reads C (cfg_get_elem C s i) (ts ! i)"
        "live m2 = live m1 + int ?n" "bad_free m2 = bad_free m1"
        by auto
      then have "ts \<noteq> []"
        using go(2) by auto
      moreover have "err = 0" "conf' = conf\<lparr>c_env := Some (arr_of ts 1)\<rparr>" "m' = m2"
        using run go a L Inr ts(1) by (auto simp: conf_load_env_def Let_def)
      ultimately show ?thesis
        using ts a by auto
    qed
  qed
qed

section \<open>Sound configurations and what they own\<close>

definition seq_sound :: "conf_seq \<Rightarrow> bool" where
  "seq_sound q \<longleftrightarrow> q = empty_seq \<or>
     (\<exists>css. q = cmds_of css 0 \<and> css \<noteq> [] \<and> length css < 2 ^ 31 \<and>
        (\<forall>ss \<in> set css. ss \<noteq> [] \<and> (\<forall>x \<in> set ss. cmd_arg_ok x)))"

definition arr_sound :: "(string \<Rightarrow> bool) \<Rightarrow> nat \<Rightarrow> strarr option \<Rightarrow> bool" where
  "arr_sound P k a \<longleftrightarrow> (\<forall>x. a = Some x \<longrightarrow> (\<exists>ss. x = arr_of ss k \<and> ss \<noteq> [] \<and> (\<forall>s \<in> set ss. P s)))"

definition sig_sound :: "int \<Rightarrow> bool" where
  "sig_sound s \<longleftrightarrow> 0 < s \<and> s \<le> SIGSYS \<or> SIGRTMIN \<le> s \<and> s \<le> SIGRTMAX"

definition conf_sound :: "conf_svc \<Rightarrow> bool" where
  "conf_sound c \<longleftrightarrow> arr_sound env_ok 1 (c_env c) \<and> seq_sound (c_start c) \<and> seq_sound (c_stop c) \<and>
     arr_sound cmd_arg_ok 1 (c_daemon c) \<and> arr_sound svc_name_ok 0 (c_starton c) \<and>
     arr_sound svc_name_ok 0 (c_stopon c) \<and> (\<forall>n. c_name c = Some n \<longrightarrow> svc_name_ok n) \<and>
     (c_stop_sig c = 0 \<or> sig_sound (c_stop_sig c)) \<and> (c_reload_sig c = 0 \<or> sig_sound (c_reload_sig c))"

text \<open>Blocks: one per string, one per array; \<open>stdio\<close> counts the two paths \<open>conf_fini\<close> forgets.\<close>

definition opt_blocks :: "string option \<Rightarrow> int" where
  "opt_blocks s = (if s = None then 0 else 1)"

definition arr_blocks :: "strarr option \<Rightarrow> int" where
  "arr_blocks a = (case a of None \<Rightarrow> 0 | Some x \<Rightarrow> int (length (strarr_owned x)) + 1)"

definition seq_blocks :: "conf_seq \<Rightarrow> int" where
  "seq_blocks q = (if seq_nr q = 0 then 0 else case seq_cmds q of
      Ptr cmds \<Rightarrow> 1 + (\<Sum>a\<leftarrow>seq_owned (seq_nr q) cmds. int (length (strarr_owned a)) + 1) | _ \<Rightarrow> 0)"

definition stdio :: "conf_svc \<Rightarrow> int" where
  "stdio c = opt_blocks (c_stdin c) + opt_blocks (c_stdout c)"

definition blocks :: "conf_svc \<Rightarrow> int" where
  "blocks c = arr_blocks (c_env c) + seq_blocks (c_start c) + seq_blocks (c_stop c) + arr_blocks (c_daemon c) +
     opt_blocks (c_name c) + opt_blocks (c_path c) + opt_blocks (c_desc c) +
     arr_blocks (c_starton c) + arr_blocks (c_stopon c)"

lemma blocks_simps [simp]:
  "opt_blocks None = 0" "opt_blocks (Some s) = 1" "arr_blocks None = 0"
  "arr_blocks (Some (arr_of ss k)) = int (length ss) + 1" "seq_blocks empty_seq = 0"
  by (simp_all add: opt_blocks_def arr_blocks_def arr_owned seq_blocks_def empty_seq_def)

lemma seq_blocks_cmds [simp]: "css \<noteq> [] \<Longrightarrow> seq_blocks (cmds_of css 0) = cmds_blocks css + 1"
  using cmds_owned [of css 0]
  by (simp add: seq_blocks_def cmds_of_def cmds_blocks_def comp_def arr_owned)

lemma seq_blocks_dangling [simp]: "seq_cmds q = Dangling \<Longrightarrow> seq_blocks q = 0"
  by (simp add: seq_blocks_def)

lemma arr_sound_simps [simp]:
  "arr_sound P k None"
  "arr_sound P k (Some (arr_of ss k)) \<longleftrightarrow> ss \<noteq> [] \<and> (\<forall>s \<in> set ss. P s)"
proof -
  have "arr_of ss k = arr_of ts k \<Longrightarrow> ss = ts" for ss ts
  proof -
    assume "arr_of ss k = arr_of ts k"
    then have "map Some ss = map Some ts"
      by (simp add: arr_of_def)
    then show ?thesis
      using inj_map_eq_map [of Some ss ts] by simp
  qed
  then show "arr_sound P k (Some (arr_of ss k)) \<longleftrightarrow> ss \<noteq> [] \<and> (\<forall>s \<in> set ss. P s)"
    by (auto simp: arr_sound_def)
qed (simp add: arr_sound_def)

lemma seq_sound_empty [simp]: "seq_sound empty_seq"
  by (simp add: seq_sound_def)

section \<open>Releasing a configuration\<close>

lemma free_opt_mem [simp]:
  "live (free_opt s m) = live m - opt_blocks s" "bad_free (free_opt s m) = bad_free m"
  by (cases s; simp add: free_opt_def)+

lemma destroy_opt_mem:
  "live (destroy_opt a m) = live m - arr_blocks a" "bad_free (destroy_opt a m) = bad_free m"
  by (cases a; simp add: destroy_opt_def arr_blocks_def strarr_destroy_def)+

lemma release_mem:
  assumes "seq_sound q"
  shows "live (snd (conf_seq_release q m)) = live m - seq_blocks q"
    "bad_free (snd (conf_seq_release q m)) = bad_free m"
proof -
  have "live (snd (conf_seq_release q m)) = live m - seq_blocks q \<and> bad_free (snd (conf_seq_release q m)) = bad_free m"
  proof (cases "q = empty_seq")
    case True
    then show ?thesis
      by (simp add: conf_seq_release_def) (simp add: empty_seq_def)
  next
    case False
    with assms obtain css where css: "q = cmds_of css 0" "css \<noteq> []"
      by (auto simp: seq_sound_def)
    obtain q1 m1 where r: "conf_seq_release (cmds_of css 0) m = (q1, m1)"
      by fastforce
    from cmds_release [OF r] css r show ?thesis
      by simp
  qed
  then show "live (snd (conf_seq_release q m)) = live m - seq_blocks q"
    "bad_free (snd (conf_seq_release q m)) = bad_free m"
    by simp_all
qed

lemma conf_fini_mem:
  assumes "conf_sound c"
  shows "live (conf_fini c m) = live m - blocks c" "bad_free (conf_fini c m) = bad_free m"
  using assms by (simp_all add: conf_fini_def Let_def destroy_opt_mem release_mem conf_sound_def blocks_def)

text \<open>A sequence already released is released again.\<close>

definition broken :: "conf_svc \<Rightarrow> bool" where
  "broken c \<longleftrightarrow> (seq_nr (c_start c) \<noteq> 0 \<and> seq_cmds (c_start c) = Dangling) \<or>
     (seq_nr (c_stop c) \<noteq> 0 \<and> seq_cmds (c_stop c) = Dangling)"

lemma release_bad: "bad_free m \<Longrightarrow> bad_free (snd (conf_seq_release q m))"
proof -
  have "bad_free (fold strarr_destroy as m) = bad_free m" for as m
    by (induction as arbitrary: m) simp_all
  then show "bad_free m \<Longrightarrow> bad_free (snd (conf_seq_release q m))"
    by (simp add: conf_seq_release_def split: ptr.split)
qed

lemma release_dangling: "seq_nr q \<noteq> 0 \<Longrightarrow> seq_cmds q = Dangling \<Longrightarrow> bad_free (snd (conf_seq_release q m))"
  by (simp add: conf_seq_release_def)

lemma conf_fini_bad:
  assumes "bad_free m \<or> broken c"
  shows "bad_free (conf_fini c m)"
proof -
  let ?m = "destroy_opt (c_env c) m"
  have "bad_free (snd (conf_seq_release (c_stop c) (snd (conf_seq_release (c_start c) ?m))))"
  proof (cases "bad_free m \<or> (seq_nr (c_start c) \<noteq> 0 \<and> seq_cmds (c_start c) = Dangling)")
    case True
    then have "bad_free (snd (conf_seq_release (c_start c) ?m))"
      using release_bad [of ?m "c_start c"] release_dangling [of "c_start c" ?m] by (auto simp: destroy_opt_mem)
    then show ?thesis
      by (rule release_bad)
  next
    case False
    with assms show ?thesis
      by (intro release_dangling) (auto simp: broken_def)
  qed
  then show ?thesis
    by (simp add: conf_fini_def Let_def destroy_opt_mem)
qed

lemma strrep_cases:
  assumes "is_cstr s"
  obtains (oom) m1 where "strrep s (length s) m = (None, m1)" "live m1 = live m" "bad_free m1 = bad_free m"
    | (copy) m1 where "strrep s (length s) m = (Some s, m1)" "live m1 = live m + 1" "bad_free m1 = bad_free m"
proof (cases "strrep s (length s) m")
  case (Pair r m1)
  then show ?thesis
    using oom copy strrep_Some [OF _ assms, of m _ m1] strrep_None [of s "length s" m m1] by (cases r) auto
qed

section \<open>The contract of the loaders\<close>

text \<open>The field a setting fills is still empty.\<close>

definition unset :: "string \<Rightarrow> conf_svc \<Rightarrow> bool" where
  "unset nm c \<longleftrightarrow> (nm = ''name'' \<longrightarrow> c_name c = None) \<and> (nm = ''description'' \<longrightarrow> c_desc c = None) \<and>
     (nm = ''stdin'' \<longrightarrow> c_stdin c = None) \<and> (nm = ''stdout'' \<longrightarrow> c_stdout c = None) \<and>
     (nm = ''environ'' \<longrightarrow> c_env c = None) \<and> (nm = ''starton'' \<longrightarrow> c_starton c = None) \<and>
     (nm = ''start'' \<longrightarrow> c_start c = empty_seq) \<and> (nm = ''stopon'' \<longrightarrow> c_stopon c = None) \<and>
     (nm = ''stop'' \<longrightarrow> c_stop c = empty_seq) \<and> (nm = ''daemon'' \<longrightarrow> c_daemon c = None)"

definition balanced :: "conf_svc \<Rightarrow> mem \<Rightarrow> conf_svc \<Rightarrow> mem \<Rightarrow> bool" where
  "balanced c m c' m' \<longleftrightarrow> conf_sound c' \<and> bad_free m' = bad_free m \<and> c_path c' = c_path c \<and>
     live m' - blocks c' - stdio c' = live m - blocks c - stdio c"

text \<open>
  A loader that succeeds keeps the configuration sound and its blocks accounted for; one that fails
  does too, unless it has read a pointer never set or left a released sequence behind. It fills no
  other field.
\<close>

definition loader_ok :: "'s libcfg \<Rightarrow> string \<Rightarrow> 's loader \<Rightarrow> bool" where
  "loader_ok C nm load \<longleftrightarrow> (\<forall>c s m ret c' m'. conf_sound c \<longrightarrow> unset nm c \<longrightarrow> load C c s m = (ret, c', m') \<longrightarrow>
     (balanced c m c' m' \<or> ret \<noteq> 0 \<and> (bad_free m' \<or> broken c')) \<and>
     (\<forall>nm'. nm' \<noteq> nm \<longrightarrow> unset nm' c \<longrightarrow> unset nm' c'))"

lemma balanced_refl [simp]: "conf_sound c \<Longrightarrow> balanced c m c m"
  by (simp add: balanced_def)

lemma balanced_trans: "balanced c m c1 m1 \<Longrightarrow> balanced c1 m1 c2 m2 \<Longrightarrow> balanced c m c2 m2"
  by (simp add: balanced_def)

lemma unset_upd:
  "nm \<noteq> ''name'' \<Longrightarrow> unset nm c \<Longrightarrow> unset nm (c\<lparr>c_name := x\<rparr>)"
  "nm \<noteq> ''description'' \<Longrightarrow> unset nm c \<Longrightarrow> unset nm (c\<lparr>c_desc := x\<rparr>)"
  "nm \<noteq> ''stdin'' \<Longrightarrow> unset nm c \<Longrightarrow> unset nm (c\<lparr>c_stdin := x\<rparr>)"
  "nm \<noteq> ''stdout'' \<Longrightarrow> unset nm c \<Longrightarrow> unset nm (c\<lparr>c_stdout := x\<rparr>)"
  "nm \<noteq> ''environ'' \<Longrightarrow> unset nm c \<Longrightarrow> unset nm (c\<lparr>c_env := y\<rparr>)"
  "nm \<noteq> ''starton'' \<Longrightarrow> unset nm c \<Longrightarrow> unset nm (c\<lparr>c_starton := y\<rparr>)"
  "nm \<noteq> ''stopon'' \<Longrightarrow> unset nm c \<Longrightarrow> unset nm (c\<lparr>c_stopon := y\<rparr>)"
  "nm \<noteq> ''daemon'' \<Longrightarrow> unset nm c \<Longrightarrow> unset nm (c\<lparr>c_daemon := y\<rparr>)"
  "nm \<noteq> ''start'' \<Longrightarrow> unset nm c \<Longrightarrow> unset nm (c\<lparr>c_start := q\<rparr>)"
  "nm \<noteq> ''stop'' \<Longrightarrow> unset nm c \<Longrightarrow> unset nm (c\<lparr>c_stop := q\<rparr>)"
  "unset nm c \<Longrightarrow> unset nm (c\<lparr>c_stop_sig := i\<rparr>)" "unset nm c \<Longrightarrow> unset nm (c\<lparr>c_reload_sig := i\<rparr>)"
  unfolding unset_def by simp_all

lemma unsetD:
  "unset ''name'' c \<Longrightarrow> c_name c = None" "unset ''description'' c \<Longrightarrow> c_desc c = None"
  "unset ''stdin'' c \<Longrightarrow> c_stdin c = None" "unset ''stdout'' c \<Longrightarrow> c_stdout c = None"
  "unset ''environ'' c \<Longrightarrow> c_env c = None" "unset ''starton'' c \<Longrightarrow> c_starton c = None"
  "unset ''stopon'' c \<Longrightarrow> c_stopon c = None" "unset ''daemon'' c \<Longrightarrow> c_daemon c = None"
  "unset ''start'' c \<Longrightarrow> c_start c = empty_seq" "unset ''stop'' c \<Longrightarrow> c_stop c = empty_seq"
  by (simp_all add: unset_def)

lemma loader_okI:
  assumes "\<And>c s m ret c' m'. conf_sound c \<Longrightarrow> unset nm c \<Longrightarrow> load C c s m = (ret, c', m') \<Longrightarrow>
      (balanced c m c' m' \<or> ret \<noteq> 0 \<and> (bad_free m' \<or> broken c')) \<and>
      (c' = c \<or> (\<forall>nm'. nm' \<noteq> nm \<longrightarrow> unset nm' c \<longrightarrow> unset nm' c'))"
  shows "loader_ok C nm load"
  unfolding loader_ok_def using assms by blast

text \<open>A field that was empty is filled with a copy of a string.\<close>

lemma balanced_copy:
  assumes "conf_sound c" "live m1 = live m + 1" "bad_free m1 = bad_free m"
  shows "c_name c = None \<Longrightarrow> svc_name_ok s \<Longrightarrow> balanced c m (c\<lparr>c_name := Some s\<rparr>) m1"
    "c_desc c = None \<Longrightarrow> balanced c m (c\<lparr>c_desc := Some s\<rparr>) m1"
    "c_stdin c = None \<Longrightarrow> balanced c m (c\<lparr>c_stdin := Some s\<rparr>) m1"
    "c_stdout c = None \<Longrightarrow> balanced c m (c\<lparr>c_stdout := Some s\<rparr>) m1"
  using assms by (simp_all add: balanced_def conf_sound_def blocks_def stdio_def)

lemma balanced_oom:
  assumes "conf_sound c" "live m1 = live m" "bad_free m1 = bad_free m"
  shows "balanced c m c m1"
    "c_name c = None \<Longrightarrow> balanced c m (c\<lparr>c_name := None\<rparr>) m1"
    "c_desc c = None \<Longrightarrow> balanced c m (c\<lparr>c_desc := None\<rparr>) m1"
    "c_stdin c = None \<Longrightarrow> balanced c m (c\<lparr>c_stdin := None\<rparr>) m1"
    "c_stdout c = None \<Longrightarrow> balanced c m (c\<lparr>c_stdout := None\<rparr>) m1"
  using assms by (simp_all add: balanced_def conf_sound_def blocks_def stdio_def)

lemma load_name_ok:
  assumes C: "cfg_ok C"
  shows "loader_ok C ''name'' conf_load_name"
proof (rule loader_okI)
  fix c s m ret c' m'
  assume c: "conf_sound c" "unset ''name'' c" and run: "conf_load_name C c s m = (ret, c', m')"
  note none = unsetD(1) [OF c(2)]
  show "(balanced c m c' m' \<or> ret \<noteq> 0 \<and> (bad_free m' \<or> broken c')) \<and>
      (c' = c \<or> (\<forall>nm'. nm' \<noteq> ''name'' \<longrightarrow> unset nm' c \<longrightarrow> unset nm' c'))"
  proof (cases "conf_parse_name_setting C s")
    case (Inl err)
    with c run show ?thesis
      by (simp add: conf_load_name_def)
  next
    case (Inr sl)
    then obtain str where str: "conf_parse_name_setting C s = Inr (str, length str)" "is_cstr str" "svc_name_ok str"
      using parse_name(1) [OF C] by (cases sl) auto
    show ?thesis
    proof (cases rule: strrep_cases [OF str(2), of m, case_names oom copy])
      case (oom m1)
      with run str have "c' = c\<lparr>c_name := None\<rparr>" "m' = m1"
        by (simp_all add: conf_load_name_def)
      with balanced_oom(2) [OF c(1) oom(2,3) none] unset_upd(1) show ?thesis
        by blast
    next
      case (copy m1)
      with run str have "c' = c\<lparr>c_name := Some str\<rparr>" "m' = m1"
        by (simp_all add: conf_load_name_def)
      with balanced_copy(1) [OF c(1) copy(2,3) none str(3)] unset_upd(1) show ?thesis
        by blast
    qed
  qed
qed

lemma load_desc_ok:
  assumes C: "cfg_ok C"
  shows "loader_ok C ''description'' conf_load_desc"
proof (rule loader_okI)
  fix c s m ret c' m'
  assume c: "conf_sound c" "unset ''description'' c" and run: "conf_load_desc C c s m = (ret, c', m')"
  note none = unsetD(2) [OF c(2)]
  show "(balanced c m c' m' \<or> ret \<noteq> 0 \<and> (bad_free m' \<or> broken c')) \<and>
      (c' = c \<or> (\<forall>nm'. nm' \<noteq> ''description'' \<longrightarrow> unset nm' c \<longrightarrow> unset nm' c'))"
  proof (cases "conf_parse_string_setting C s SVC_DESC_MAX")
    case (Inl err)
    with c run show ?thesis
      by (simp add: conf_load_desc_def)
  next
    case (Inr sl)
    then obtain str where str: "conf_parse_string_setting C s SVC_DESC_MAX = Inr (str, length str)" "is_cstr str"
      using parse_string(1) [OF C] by (cases sl) auto
    show ?thesis
    proof (cases "strspn str (GRAPH_CHARSET @ '' '') = length str")
      case False
      with c run str show ?thesis
        by (simp add: conf_load_desc_def)
    next
      case True
      show ?thesis
      proof (cases rule: strrep_cases [OF str(2), of m, case_names oom copy])
        case (oom m1)
        with run str True have "c' = c\<lparr>c_desc := None\<rparr>" "m' = m1"
          by (simp_all add: conf_load_desc_def)
        with balanced_oom(3) [OF c(1) oom(2,3) none] unset_upd(2) show ?thesis
          by blast
      next
        case (copy m1)
        with run str True have "c' = c\<lparr>c_desc := Some str\<rparr>" "m' = m1"
          by (simp_all add: conf_load_desc_def)
        with balanced_copy(2) [OF c(1) copy(2,3) none] unset_upd(2) show ?thesis
          by blast
      qed
    qed
  qed
qed

lemma load_stdio:
  assumes C: "cfg_ok C"
  obtains (bad) len where "conf_load_stdio C s = (len, Dangling)" "5 < len"
    | (inval) "conf_load_stdio C s = (- EINVAL, Dangling)"
    | (path) str where "conf_load_stdio C s = (int (length str), Ptr str)" "is_cstr str"
proof (cases "conf_parse_string_setting C s CONF_PATH_MAX")
  case (Inl err)
  then have "err \<in> {- EBADMSG, - ENODATA, - EMSGSIZE}"
    using parse_string(2) [OF C] by blast
  with Inl show ?thesis
    by (intro bad [of "- err"]) (auto simp: conf_load_stdio_def)
next
  case (Inr sl)
  then obtain str where str: "conf_parse_string_setting C s CONF_PATH_MAX = Inr (str, length str)" "is_cstr str"
    using parse_string(1) [OF C] by (cases sl) auto
  show ?thesis
  proof (cases "strspn str (ALNUM_CHARSET @ ''/._-'') = length str")
    case True
    with str show ?thesis
      by (intro path [of str]) (simp_all add: conf_load_stdio_def)
  next
    case False
    with str show ?thesis
      by (intro inval) (simp add: conf_load_stdio_def)
  qed
qed

lemma load_stdin_ok:
  assumes C: "cfg_ok C"
  shows "loader_ok C ''stdin'' conf_load_stdin"
proof (rule loader_okI)
  fix c s m ret c' m'
  assume c: "conf_sound c" "unset ''stdin'' c" and run: "conf_load_stdin C c s m = (ret, c', m')"
  note none = unsetD(3) [OF c(2)]
  show "(balanced c m c' m' \<or> ret \<noteq> 0 \<and> (bad_free m' \<or> broken c')) \<and>
      (c' = c \<or> (\<forall>nm'. nm' \<noteq> ''stdin'' \<longrightarrow> unset nm' c \<longrightarrow> unset nm' c'))"
  proof (cases rule: load_stdio [OF C, of s, case_names bad inval path])
    case (bad len)
    with run have "ret \<noteq> 0 \<and> bad_free m' \<and> c' = c"
      by (auto simp: conf_load_stdin_def split: if_splits)
    then show ?thesis
      by blast
  next
    case inval
    with c run show ?thesis
      by (simp add: conf_load_stdin_def)
  next
    case (path str)
    show ?thesis
    proof (cases rule: strrep_cases [OF path(2), of m, case_names oom copy])
      case (oom m1)
      with run path have "c' = c \<and> m' = m \<or> c' = c\<lparr>c_stdin := None\<rparr> \<and> m' = m1"
        by (simp add: conf_load_stdin_def split: if_splits)
      with balanced_oom(4) [OF c(1) oom(2,3) none] balanced_refl [OF c(1)] unset_upd(3) show ?thesis
        by blast
    next
      case (copy m1)
      with run path have "c' = c \<and> m' = m \<or> c' = c\<lparr>c_stdin := Some str\<rparr> \<and> m' = m1"
        by (simp add: conf_load_stdin_def split: if_splits)
      with balanced_copy(3) [OF c(1) copy(2,3) none] balanced_refl [OF c(1)] unset_upd(3) show ?thesis
        by blast
    qed
  qed
qed

lemma load_stdout_ok:
  assumes C: "cfg_ok C"
  shows "loader_ok C ''stdout'' conf_load_stdout"
proof (rule loader_okI)
  fix c s m ret c' m'
  assume c: "conf_sound c" "unset ''stdout'' c" and run: "conf_load_stdout C c s m = (ret, c', m')"
  note none = unsetD(4) [OF c(2)]
  show "(balanced c m c' m' \<or> ret \<noteq> 0 \<and> (bad_free m' \<or> broken c')) \<and>
      (c' = c \<or> (\<forall>nm'. nm' \<noteq> ''stdout'' \<longrightarrow> unset nm' c \<longrightarrow> unset nm' c'))"
  proof (cases rule: load_stdio [OF C, of s, case_names bad inval path])
    case (bad len)
    with run have "ret \<noteq> 0 \<and> bad_free m' \<and> c' = c"
      by (auto simp: conf_load_stdout_def split: if_splits)
    then show ?thesis
      by blast
  next
    case inval
    with c run show ?thesis
      by (simp add: conf_load_stdout_def)
  next
    case (path str)
    show ?thesis
    proof (cases rule: strrep_cases [OF path(2), of m, case_names oom copy])
      case (oom m1)
      with run path have "c' = c \<and> m' = m \<or> c' = c\<lparr>c_stdout := None\<rparr> \<and> m' = m1"
        by (simp add: conf_load_stdout_def split: if_splits)
      with balanced_oom(5) [OF c(1) oom(2,3) none] balanced_refl [OF c(1)] unset_upd(4) show ?thesis
        by blast
    next
      case (copy m1)
      with run path have "c' = c \<and> m' = m \<or> c' = c\<lparr>c_stdout := Some str\<rparr> \<and> m' = m1"
        by (simp add: conf_load_stdout_def split: if_splits)
      with balanced_copy(4) [OF c(1) copy(2,3) none] balanced_refl [OF c(1)] unset_upd(4) show ?thesis
        by blast
    qed
  qed
qed

text \<open>An empty field is filled with an array, or with a sequence.\<close>

lemma balanced_arr:
  assumes "conf_sound c" "live m1 = live m + int (length ts) + 1" "bad_free m1 = bad_free m" "ts \<noteq> []"
  shows "c_env c = None \<Longrightarrow> \<forall>t \<in> set ts. env_ok t \<Longrightarrow> balanced c m (c\<lparr>c_env := Some (arr_of ts 1)\<rparr>) m1"
    "c_daemon c = None \<Longrightarrow> \<forall>t \<in> set ts. cmd_arg_ok t \<Longrightarrow> balanced c m (c\<lparr>c_daemon := Some (arr_of ts 1)\<rparr>) m1"
    "c_starton c = None \<Longrightarrow> \<forall>t \<in> set ts. svc_name_ok t \<Longrightarrow> balanced c m (c\<lparr>c_starton := Some (arr_of ts 0)\<rparr>) m1"
    "c_stopon c = None \<Longrightarrow> \<forall>t \<in> set ts. svc_name_ok t \<Longrightarrow> balanced c m (c\<lparr>c_stopon := Some (arr_of ts 0)\<rparr>) m1"
  using assms by (simp_all add: balanced_def conf_sound_def blocks_def stdio_def)

lemma balanced_seq:
  assumes "conf_sound c" "live m1 = live m + cmds_blocks ds + 1" "bad_free m1 = bad_free m"
    "ds \<noteq> []" "length ds < 2 ^ 31" "\<forall>ss \<in> set ds. ss \<noteq> [] \<and> (\<forall>x \<in> set ss. cmd_arg_ok x)"
  shows "c_start c = empty_seq \<Longrightarrow> balanced c m (c\<lparr>c_start := cmds_of ds 0\<rparr>) m1"
    "c_stop c = empty_seq \<Longrightarrow> balanced c m (c\<lparr>c_stop := cmds_of ds 0\<rparr>) m1"
proof -
  have "seq_sound (cmds_of ds 0)"
    unfolding seq_sound_def using assms(4-6) by blast
  then show "c_start c = empty_seq \<Longrightarrow> balanced c m (c\<lparr>c_start := cmds_of ds 0\<rparr>) m1"
    "c_stop c = empty_seq \<Longrightarrow> balanced c m (c\<lparr>c_stop := cmds_of ds 0\<rparr>) m1"
    using assms(1-4) by (simp_all add: balanced_def conf_sound_def blocks_def stdio_def)
qed

lemma load_env_ok:
  assumes C: "cfg_ok C"
  shows "loader_ok C ''environ'' conf_load_env"
proof (rule loader_okI)
  fix c s m ret c' m'
  assume c: "conf_sound c" "unset ''environ'' c" and run: "conf_load_env C c s m = (ret, c', m')"
  note spec = load_env_setting [OF C run]
  show "(balanced c m c' m' \<or> ret \<noteq> 0 \<and> (bad_free m' \<or> broken c')) \<and>
      (c' = c \<or> (\<forall>nm'. nm' \<noteq> ''environ'' \<longrightarrow> unset nm' c \<longrightarrow> unset nm' c'))"
  proof (cases "ret = 0")
    case True
    with spec obtain ts where ts: "c' = c\<lparr>c_env := Some (arr_of ts 1)\<rparr>" "ts \<noteq> []" "\<forall>t \<in> set ts. env_ok t"
      "live m' = live m + int (length ts) + 1" "bad_free m' = bad_free m"
      by auto
    from balanced_arr(1) [OF c(1) ts(4,5,2) unsetD(5) [OF c(2)] ts(3)] ts(1) unset_upd(5) show ?thesis
      by blast
  next
    case False
    with spec balanced_oom(1) [OF c(1), of m' m] show ?thesis
      by simp
  qed
qed

lemma load_daemon_ok:
  assumes C: "cfg_ok C"
  shows "loader_ok C ''daemon'' conf_load_daemon"
proof (rule loader_okI)
  fix c s m ret c' m'
  assume c: "conf_sound c" "unset ''daemon'' c" and run: "conf_load_daemon C c s m = (ret, c', m')"
  obtain r m1 where one: "conf_load_strarr_setting C s conf_parse_cmd_arg True m = (r, m1)"
    by fastforce
  note spec = args.load_array [OF C one]
  show "(balanced c m c' m' \<or> ret \<noteq> 0 \<and> (bad_free m' \<or> broken c')) \<and>
      (c' = c \<or> (\<forall>nm'. nm' \<noteq> ''daemon'' \<longrightarrow> unset nm' c \<longrightarrow> unset nm' c'))"
  proof (cases r)
    case (Inr a)
    with spec obtain ts where ts: "a = arr_of ts 1" "ts \<noteq> []" "\<forall>t \<in> set ts. cmd_arg_ok t"
      "live m1 = live m + int (length ts) + 1" "bad_free m1 = bad_free m"
      by auto
    have "c' = c\<lparr>c_daemon := Some (arr_of ts 1)\<rparr>" "m' = m1"
      using run one Inr ts(1) by (simp_all add: conf_load_daemon_def)
    with balanced_arr(2) [OF c(1) ts(4,5,2) unsetD(8) [OF c(2)] ts(3)] unset_upd(8) show ?thesis
      by blast
  next
    case (Inl err)
    with spec run one balanced_oom(1) [OF c(1), of m1 m] show ?thesis
      by (simp add: conf_load_daemon_def)
  qed
qed

lemma load_starton_ok:
  assumes C: "cfg_ok C"
  shows "loader_ok C ''starton'' conf_load_starton"
proof (rule loader_okI)
  fix c s m ret c' m'
  assume c: "conf_sound c" "unset ''starton'' c" and run: "conf_load_starton C c s m = (ret, c', m')"
  obtain r m1 where one: "conf_load_strarr_setting C s conf_parse_name_setting False m = (r, m1)"
    by fastforce
  note spec = names.load_array [OF C one]
  show "(balanced c m c' m' \<or> ret \<noteq> 0 \<and> (bad_free m' \<or> broken c')) \<and>
      (c' = c \<or> (\<forall>nm'. nm' \<noteq> ''starton'' \<longrightarrow> unset nm' c \<longrightarrow> unset nm' c'))"
  proof (cases r)
    case (Inr a)
    with spec obtain ts where ts: "a = arr_of ts 0" "ts \<noteq> []" "\<forall>t \<in> set ts. svc_name_ok t"
      "live m1 = live m + int (length ts) + 1" "bad_free m1 = bad_free m"
      by auto
    have "c' = c\<lparr>c_starton := Some (arr_of ts 0)\<rparr>" "m' = m1"
      using run one Inr ts(1) by (simp_all add: conf_load_starton_def)
    with balanced_arr(3) [OF c(1) ts(4,5,2) unsetD(6) [OF c(2)] ts(3)] unset_upd(6) show ?thesis
      by blast
  next
    case (Inl err)
    with spec run one balanced_oom(1) [OF c(1), of m1 m] show ?thesis
      by (simp add: conf_load_starton_def)
  qed
qed

lemma load_stopon_ok:
  assumes C: "cfg_ok C"
  shows "loader_ok C ''stopon'' conf_load_stopon"
proof (rule loader_okI)
  fix c s m ret c' m'
  assume c: "conf_sound c" "unset ''stopon'' c" and run: "conf_load_stopon C c s m = (ret, c', m')"
  obtain r m1 where one: "conf_load_strarr_setting C s conf_parse_name_setting False m = (r, m1)"
    by fastforce
  note spec = names.load_array [OF C one]
  show "(balanced c m c' m' \<or> ret \<noteq> 0 \<and> (bad_free m' \<or> broken c')) \<and>
      (c' = c \<or> (\<forall>nm'. nm' \<noteq> ''stopon'' \<longrightarrow> unset nm' c \<longrightarrow> unset nm' c'))"
  proof (cases r)
    case (Inr a)
    with spec obtain ts where ts: "a = arr_of ts 0" "ts \<noteq> []" "\<forall>t \<in> set ts. svc_name_ok t"
      "live m1 = live m + int (length ts) + 1" "bad_free m1 = bad_free m"
      by auto
    have "c' = c\<lparr>c_stopon := Some (arr_of ts 0)\<rparr>" "m' = m1"
      using run one Inr ts(1) by (simp_all add: conf_load_stopon_def)
    with balanced_arr(4) [OF c(1) ts(4,5,2) unsetD(7) [OF c(2)] ts(3)] unset_upd(7) show ?thesis
      by blast
  next
    case (Inl err)
    with spec run one balanced_oom(1) [OF c(1), of m1 m] show ?thesis
      by (simp add: conf_load_stopon_def)
  qed
qed

lemma load_start_ok:
  assumes C: "cfg_ok C"
  shows "loader_ok C ''start'' conf_load_start"
proof (rule loader_okI)
  fix c s m ret c' m'
  assume c: "conf_sound c" "unset ''start'' c" and run: "conf_load_start C c s m = (ret, c', m')"
  note none = unsetD(9) [OF c(2)]
  obtain err q m1 where one: "conf_load_seq_setting C s empty_seq m = (err, q, m1)"
    by (metis prod_cases3)
  note spec = load_seq_setting [OF C one]
  have res: "ret = err" "c' = c\<lparr>c_start := q\<rparr>" "m' = m1"
    using run one none by (simp_all add: conf_load_start_def)
  show "(balanced c m c' m' \<or> ret \<noteq> 0 \<and> (bad_free m' \<or> broken c')) \<and>
      (c' = c \<or> (\<forall>nm'. nm' \<noteq> ''start'' \<longrightarrow> unset nm' c \<longrightarrow> unset nm' c'))"
  proof (cases "err = 0")
    case True
    with spec obtain ds where ds: "q = cmds_of ds 0" "ds \<noteq> []" "length ds < 2 ^ 31"
      "\<forall>ss \<in> set ds. ss \<noteq> [] \<and> (\<forall>x \<in> set ss. cmd_arg_ok x)" "live m1 = live m + cmds_blocks ds + 1" "bad_free m1 = bad_free m"
      by auto
    from balanced_seq(1) [OF c(1) ds(5,6,2-4) none] res ds(1) unset_upd(9) show ?thesis
      by blast
  next
    case False
    show ?thesis
    proof (cases "q = empty_seq")
      case True
      then have "c\<lparr>c_start := q\<rparr> = c"
        using none by simp
      then show ?thesis
        using spec False res balanced_oom(1) [OF c(1), of m1 m] by simp
    next
      case broke: False
      then have "broken c'"
        using spec False res by (simp add: broken_def)
      with False res unset_upd(9) show ?thesis
        by blast
    qed
  qed
qed

lemma load_stop_ok:
  assumes C: "cfg_ok C"
  shows "loader_ok C ''stop'' conf_load_stop"
proof (rule loader_okI)
  fix c s m ret c' m'
  assume c: "conf_sound c" "unset ''stop'' c" and run: "conf_load_stop C c s m = (ret, c', m')"
  note none = unsetD(10) [OF c(2)]
  obtain err q m1 where one: "conf_load_seq_setting C s empty_seq m = (err, q, m1)"
    by (metis prod_cases3)
  note spec = load_seq_setting [OF C one]
  have res: "ret = err" "c' = c\<lparr>c_stop := q\<rparr>" "m' = m1"
    using run one none by (simp_all add: conf_load_stop_def)
  show "(balanced c m c' m' \<or> ret \<noteq> 0 \<and> (bad_free m' \<or> broken c')) \<and>
      (c' = c \<or> (\<forall>nm'. nm' \<noteq> ''stop'' \<longrightarrow> unset nm' c \<longrightarrow> unset nm' c'))"
  proof (cases "err = 0")
    case True
    with spec obtain ds where ds: "q = cmds_of ds 0" "ds \<noteq> []" "length ds < 2 ^ 31"
      "\<forall>ss \<in> set ds. ss \<noteq> [] \<and> (\<forall>x \<in> set ss. cmd_arg_ok x)" "live m1 = live m + cmds_blocks ds + 1" "bad_free m1 = bad_free m"
      by auto
    from balanced_seq(2) [OF c(1) ds(5,6,2-4) none] res ds(1) unset_upd(10) show ?thesis
      by blast
  next
    case False
    show ?thesis
    proof (cases "q = empty_seq")
      case True
      then have "c\<lparr>c_stop := q\<rparr> = c"
        using none by simp
      then show ?thesis
        using spec False res balanced_oom(1) [OF c(1), of m1 m] by simp
    next
      case broke: False
      then have "broken c'"
        using spec False res by (simp add: broken_def)
      with False res unset_upd(10) show ?thesis
        by blast
    qed
  qed
qed

lemma parse_signo: "conf_parse_signo_setting C s = Inr sig \<Longrightarrow> sig_sound sig \<and> cfg_is_int C s \<and> sig = cfg_get_int C s"
  by (auto simp: conf_parse_signo_setting_def conf_parse_int_setting_def sig_sound_def split: if_splits)

lemma balanced_sig:
  assumes "conf_sound c" "sig_sound sig"
  shows "balanced c m (c\<lparr>c_stop_sig := sig\<rparr>) m" "balanced c m (c\<lparr>c_reload_sig := sig\<rparr>) m"
  using assms by (simp_all add: balanced_def conf_sound_def blocks_def stdio_def)

lemma load_signals:
  "load_signals C s e n c = (err, c') \<Longrightarrow> conf_sound c \<Longrightarrow>
     balanced c m c' m \<and> (\<forall>nm. unset nm c \<longrightarrow> unset nm c')"
proof (induction C s e n c rule: load_signals.induct)
  case (2 C s e n c)
  obtain err1 c1 where one: "conf_load_sig_setting C c (cfg_get_elem C s e) = (err1, c1)"
    by fastforce
  have "c1 = c \<or> (\<exists>sig. sig_sound sig \<and> (c1 = c\<lparr>c_stop_sig := sig\<rparr> \<or> c1 = c\<lparr>c_reload_sig := sig\<rparr>))"
    using one parse_signo [of C "cfg_get_elem C s e"]
    by (auto simp: conf_load_sig_setting_def split: if_splits sum.splits)
  then have b: "balanced c m c1 m" "\<forall>nm. unset nm c \<longrightarrow> unset nm c1"
    using balanced_sig [OF "2.prems"(2)] balanced_refl [OF "2.prems"(2)] unset_upd(11,12) by blast+
  then have "conf_sound c1"
    by (simp add: balanced_def)
  show ?case
  proof (cases "err1 = 0")
    case True
    with "2.prems"(1) one have "load_signals C s (Suc e) n c1 = (err, c')"
      by simp
    from "2.IH" [OF one [symmetric] _ this \<open>conf_sound c1\<close>] True b balanced_trans [of c m c1 m c' m] show ?thesis
      by blast
  next
    case False
    with "2.prems"(1) one b show ?thesis
      by simp
  qed
qed simp

lemma load_signal_ok: "loader_ok C ''signal'' conf_load_signal"
proof (rule loader_okI)
  fix c s m ret c' m'
  assume c: "conf_sound c" "unset ''signal'' c" and run: "conf_load_signal C c s m = (ret, c', m')"
  obtain err c1 where one: "load_signals C s 0 (cfg_length C s) c = (err, c1)"
    by fastforce
  from run one have "c' = c \<and> m' = m \<or> c' = c1 \<and> m' = m"
    by (auto simp: conf_load_signal_def Let_def split: if_splits)
  with load_signals [OF one c(1)] balanced_refl [OF c(1)]
  show "(balanced c m c' m' \<or> ret \<noteq> 0 \<and> (bad_free m' \<or> broken c')) \<and>
      (c' = c \<or> (\<forall>nm'. nm' \<noteq> ''signal'' \<longrightarrow> unset nm' c \<longrightarrow> unset nm' c'))"
    by blast
qed

lemma loaders_ok:
  assumes "cfg_ok C" "(nm, load) \<in> set conf_loaders"
  shows "loader_ok C nm load"
  using assms(2) load_name_ok [OF assms(1)] load_desc_ok [OF assms(1)] load_stdin_ok [OF assms(1)]
    load_stdout_ok [OF assms(1)] load_env_ok [OF assms(1)] load_starton_ok [OF assms(1)]
    load_start_ok [OF assms(1)] load_stopon_ok [OF assms(1)] load_stop_ok [OF assms(1)]
    load_signal_ok [of C] load_daemon_ok [OF assms(1)]
  unfolding conf_loaders_def by simp blast

section \<open>Loading the root\<close>

lemma load_settings:
  fixes C :: "'s libcfg"
  assumes C: "cfg_ok C"
  shows "load_settings C root s n ret c m = (ret', c', m') \<Longrightarrow> conf_sound c \<Longrightarrow>
    \<forall>i \<in> {s..<s + n}. unset (cfg_name C (cfg_get_elem C root i)) c \<Longrightarrow>
    inj_on (\<lambda>i. cfg_name C (cfg_get_elem C root i)) {s..<s + n} \<Longrightarrow>
    balanced c m c' m' \<or> ret' \<noteq> 0 \<and> (bad_free m' \<or> broken c')"
proof (induction n arbitrary: s ret c m)
  case 0
  then show ?case by simp
next
  case (Suc n)
  let ?set = "cfg_get_elem C root s" and ?nm = "\<lambda>i. cfg_name C (cfg_get_elem C root i)"
  have later: "inj_on ?nm {Suc s..<Suc s + n}"
    by (rule inj_on_subset [OF Suc.prems(4)]) auto
  show ?case
  proof (cases "map_of (conf_loaders :: (string \<times> 's loader) list) (?nm s)")
    case None
    with Suc.prems(1) have "load_settings C root (Suc s) n ret c m = (ret', c', m')"
      by (simp add: Let_def)
    from Suc.IH [OF this Suc.prems(2) _ later] Suc.prems(3) show ?thesis
      by simp
  next
    case (Some load)
    obtain ret1 c1 m1 where one: "load C c ?set m = (ret1, c1, m1)"
      by (metis prod_cases3)
    have ok: "loader_ok C (?nm s) load"
      using loaders_ok [OF C] Some map_of_SomeD by fastforce
    have "unset (?nm s) c"
      using Suc.prems(3) by simp
    then have spec: "balanced c m c1 m1 \<or> ret1 \<noteq> 0 \<and> (bad_free m1 \<or> broken c1)"
      "\<And>nm'. nm' \<noteq> ?nm s \<Longrightarrow> unset nm' c \<Longrightarrow> unset nm' c1"
      using ok one Suc.prems(2) unfolding loader_ok_def by blast+
    show ?thesis
    proof (cases "ret1 = 0")
      case False
      with Suc.prems(1) Some one have "ret' = ret1 \<and> c' = c1 \<and> m' = m1"
        by (simp add: Let_def)
      with spec(1) show ?thesis
        by blast
    next
      case True
      with spec(1) have b: "balanced c m c1 m1"
        by blast
      then have "conf_sound c1"
        by (simp add: balanced_def)
      moreover have "load_settings C root (Suc s) n ret1 c1 m1 = (ret', c', m')"
        using Suc.prems(1) Some one True by (simp add: Let_def)
      moreover have "\<forall>i \<in> {Suc s..<Suc s + n}. unset (?nm i) c1"
      proof
        fix i
        assume i: "i \<in> {Suc s..<Suc s + n}"
        then have "?nm i \<noteq> ?nm s"
          using inj_on_contraD [OF Suc.prems(4), of i s] by simp
        with i spec(2) Suc.prems(3) show "unset (?nm i) c1"
          by simp
      qed
      ultimately show ?thesis
        using Suc.IH later balanced_trans [OF b] by blast
    qed
  qed
qed

text \<open>The two loops of the duplicate check find exactly the reference and the repetitions.\<close>

lemma has_dups_arr: "ss \<noteq> [] \<Longrightarrow> conf_strarr_has_dups (arr_of ss 0) ref \<longleftrightarrow> ref \<in> set ss \<or> \<not> distinct ss"
proof -
  assume "ss \<noteq> []"
  have get: "strarr_get (arr_of ss 0) i = Some (ss ! i)" if "i < length ss" for i
    using that by (simp add: strarr_get_def strarr_nr_def)
  have "(\<exists>s \<in> set [0..<length ss]. strarr_get (arr_of ss 0) s = Some ref) \<longleftrightarrow> ref \<in> set ss"
    by (auto simp: get in_set_conv_nth)
  moreover have "(\<exists>s \<in> set [0..<length ss - 1]. \<exists>c \<in> set [Suc s..<length ss].
      strarr_get (arr_of ss 0) s = strarr_get (arr_of ss 0) c) \<longleftrightarrow> \<not> distinct ss"
  proof
    assume "\<not> distinct ss"
    then obtain i j where "i < j" "j < length ss" "ss ! i = ss ! j"
      unfolding distinct_conv_nth by (metis nat_neq_iff)
    then show "\<exists>s \<in> set [0..<length ss - 1]. \<exists>c \<in> set [Suc s..<length ss].
        strarr_get (arr_of ss 0) s = strarr_get (arr_of ss 0) c"
      by (intro bexI [of _ i] bexI [of _ j]) (auto simp: get)
  qed (auto simp: get nth_eq_iff_index_eq)
  ultimately show ?thesis
    by (simp add: conf_strarr_has_dups_def strarr_nr_def)
qed

definition deps_ok :: "string \<Rightarrow> strarr option \<Rightarrow> bool" where
  "deps_ok n a \<longleftrightarrow> (\<forall>x. a = Some x \<longrightarrow> (\<exists>ss. x = arr_of ss 0 \<and> distinct ss \<and> n \<notin> set ss \<and> (\<forall>s \<in> set ss. svc_name_ok s)))"

definition conf_valid :: "conf_svc \<Rightarrow> bool" where
  "conf_valid c \<longleftrightarrow> conf_sound c \<and> conf_wf c \<and>
     (\<exists>n. c_name c = Some n \<and> svc_name_ok n \<and> deps_ok n (c_starton c) \<and> deps_ok n (c_stopon c)) \<and>
     (conf_get_start_cmd_nr c \<noteq> 0 \<or> conf_get_stop_cmd_nr c \<noteq> 0 \<or> c_daemon c \<noteq> None) \<and>
     sig_sound (c_stop_sig c) \<and> sig_sound (c_reload_sig c)"

lemma cmd_ok_members: "ss \<noteq> [] \<Longrightarrow> cmd_ok (strarr_get_members (arr_of ss k))"
  by (cases ss) (simp_all add: cmd_ok_def strarr_get_members_def)

lemma seq_sound_wf:
  assumes "seq_sound q"
  shows "n < conf_seq_nr q \<Longrightarrow> cmd_ok (conf_seq_get_args q n)" "conf_seq_nr q < 2 ^ 31"
proof -
  have "(n < conf_seq_nr q \<longrightarrow> cmd_ok (conf_seq_get_args q n)) \<and> conf_seq_nr q < 2 ^ 31"
  proof (cases "q = empty_seq")
    case True
    then show ?thesis
      by (simp add: empty_seq_def conf_seq_nr_def)
  next
    case False
    with assms obtain css where "q = cmds_of css 0" "length css < 2 ^ 31" "\<forall>ss \<in> set css. ss \<noteq> []"
      by (auto simp: seq_sound_def)
    then show ?thesis
      by (auto simp: cmds_of_def conf_seq_nr_def conf_seq_get_args_def conf_seq_get_cmd_def cmd_ok_members)
  qed
  then show "n < conf_seq_nr q \<Longrightarrow> cmd_ok (conf_seq_get_args q n)" "conf_seq_nr q < 2 ^ 31"
    by blast+
qed

lemma conf_sound_wf: "conf_sound c \<Longrightarrow> conf_wf c"
  using seq_sound_wf [of "c_start c"] seq_sound_wf [of "c_stop c"] cmd_ok_members
  by (fastforce simp: conf_wf_def conf_sound_def conf_get_start_cmd_nr_def conf_get_stop_cmd_nr_def
      conf_get_start_cmd_def conf_get_stop_cmd_def conf_get_daemon_def arr_sound_def)

lemma deps_ok_dups:
  assumes "arr_sound svc_name_ok 0 a" "\<not> (\<exists>x \<in> set_option a. conf_strarr_has_dups x n)"
  shows "deps_ok n a"
  using assms has_dups_arr unfolding deps_ok_def arr_sound_def by (metis elem_set)

lemma empty_conf_sound [simp]: "conf_sound empty_conf" "unset nm empty_conf" "blocks empty_conf = 0" "stdio empty_conf = 0"
  "c_path empty_conf = None"
  by (simp_all add: conf_sound_def empty_conf_def unset_def blocks_def stdio_def)

lemma load_root:
  assumes C: "cfg_ok C" and root: "cfg_is_group C root"
    and run: "conf_load_root C junk root empty_conf m = (ret, c', m')"
  shows "if ret = 0 then conf_valid c' \<and> c_path c' = None \<and> bad_free m' = bad_free m \<and>
      live m' = live m + blocks c' + stdio c'
    else bad_free m' \<or> live m' = live m + stdio c'"
proof -
  let ?n = "cfg_length C root"
  obtain ret1 c1 m1 where set: "load_settings C root 0 ?n junk empty_conf m = (ret1, c1, m1)"
    by (metis prod_cases3)
  have inj: "inj_on (\<lambda>i. cfg_name C (cfg_get_elem C root i)) {0..<0 + ?n}"
    using cfg_okD(5) [OF C root] by (simp add: atLeast0LessThan)
  note spec = load_settings [OF C set empty_conf_sound(1) _ inj, simplified]
  have failed: "bad_free m' \<or> live m' = live m + stdio c'" if "c' = c1" "m' = conf_fini c1 m1"
  proof (cases "balanced empty_conf m c1 m1")
    case True
    then show ?thesis
      using conf_fini_mem [of c1 m1] that by (auto simp: balanced_def)
  next
    case False
    with spec have "bad_free m1 \<or> broken c1"
      by blast
    then show ?thesis
      using conf_fini_bad that by blast
  qed
  show ?thesis
  proof (cases "ret = 0")
    case False
    with run set failed show ?thesis
      by (auto simp: conf_load_root_def Let_def split: if_splits option.splits)
  next
    case True
    let ?nocmd = "conf_seq_nr (c_start c1) = 0 \<and> conf_seq_nr (c_stop c1) = 0 \<and> c_daemon c1 = None"
    let ?dup = "\<lambda>name a. \<exists>x \<in> set_option a. conf_strarr_has_dups x name"
    have eq: "(ret, c', m') = (if ?n = 0 then (- ENODATA, empty_conf, m)
        else if ret1 \<noteq> 0 then (ret1, c1, conf_fini c1 m1)
        else case c_name c1 of None \<Rightarrow> (- EPROTO, c1, conf_fini c1 m1)
          | Some name \<Rightarrow> if ?nocmd then (- EPROTO, c1, conf_fini c1 m1)
             else if ?dup name (c_starton c1) then (- EPROTO, c1, conf_fini c1 m1)
             else if ?dup name (c_stopon c1) then (- EPROTO, c1, conf_fini c1 m1)
             else (0, c1\<lparr>c_stop_sig := (if c_stop_sig c1 = 0 then SIGTERM else c_stop_sig c1),
                     c_reload_sig := (if c_reload_sig c1 = 0 then SIGTERM else c_reload_sig c1)\<rparr>, m1))"
      unfolding run [symmetric] conf_load_root_def Let_def set prod.case ..
    have n: "?n \<noteq> 0" and ret1: "ret1 = 0"
      using eq True by (cases "?n = 0"; cases "ret1 = 0"; simp)+
    obtain name where name: "c_name c1 = Some name"
      using eq True n ret1 by (cases "c_name c1") simp_all
    have cmd: "\<not> ?nocmd"
      using eq True n ret1 name by (cases ?nocmd) simp_all
    have dups: "\<not> ?dup name (c_starton c1)" "\<not> ?dup name (c_stopon c1)"
      using eq True n ret1 name cmd by (cases "?dup name (c_starton c1)"; cases "?dup name (c_stopon c1)"; simp)+
    have m': "m' = m1" and c': "c' = c1\<lparr>c_stop_sig := (if c_stop_sig c1 = 0 then SIGTERM else c_stop_sig c1),
                     c_reload_sig := (if c_reload_sig c1 = 0 then SIGTERM else c_reload_sig c1)\<rparr>"
      using eq n ret1 name cmd dups by simp_all
    note ok = ret1 name m' n cmd dups
    from spec ok(1) have b: "balanced empty_conf m c1 m1"
      by blast
    then have sound1: "conf_sound c1" "c_path c1 = None" "bad_free m1 = bad_free m" "live m1 = live m + blocks c1 + stdio c1"
      by (simp_all add: balanced_def)
    have sig: "sig_sound SIGTERM"
      by (simp add: sig_sound_def)
    then have sound: "conf_sound c'" "sig_sound (c_stop_sig c')" "sig_sound (c_reload_sig c')"
      using sound1(1) unfolding c' by (simp_all add: conf_sound_def) blast+
    have "svc_name_ok name" "deps_ok name (c_starton c1)" "deps_ok name (c_stopon c1)"
      using sound1(1) ok(2,6,7) deps_ok_dups by (simp_all add: conf_sound_def)
    then have "conf_valid c'"
      using sound conf_sound_wf [OF sound(1)] ok(2,5)
      by (auto simp: conf_valid_def conf_get_start_cmd_nr_def conf_get_stop_cmd_nr_def c')
    then show ?thesis
      using True ok(3) sound1 by (simp add: c' blocks_def stdio_def)
  qed
qed

section \<open>What an accepted configuration is\<close>

text \<open>\<open>config_read_file\<close> hands over a group, or says why it could not.\<close>

definition read_ok :: "'s libcfg \<Rightarrow> (string \<Rightarrow> 's cfg_read) \<Rightarrow> bool" where
  "read_ok C read \<longleftrightarrow> (\<forall>path. case read path of
     Read_root root \<Rightarrow> cfg_is_group C root | Read_io err \<Rightarrow> 0 < err | Read_parse \<Rightarrow> True)"

lemma conf_valid_path [simp]: "conf_valid (c\<lparr>c_path := p\<rparr>) = conf_valid c"
  by (simp add: conf_valid_def conf_sound_def conf_wf_def conf_get_start_cmd_nr_def
      conf_get_stop_cmd_nr_def conf_get_start_cmd_def conf_get_stop_cmd_def conf_get_daemon_def)

lemma create_from_file:
  assumes C: "cfg_ok C" and rd: "read_ok C read"
    and run: "conf_create_from_file C read junk path m = (Inr c, m')"
  shows "conf_valid c \<and> c_path c = Some (path_basename path) \<and> bad_free m' = bad_free m \<and>
    live m' = live m + 1 + blocks c + stdio c"
proof -
  obtain m1 where al: "mem_alloc m = (True, m1)"
    using run by (auto simp: conf_create_from_file_def split: prod.splits bool.splits)
  obtain m2 where ld: "conf_load_file C read junk empty_conf path m1 = (0, c, m2)" "m' = m2"
    using run al by (auto simp: conf_create_from_file_def split: prod.splits if_splits)
  show ?thesis
  proof (cases "read path")
    case (Read_root r)
    obtain ret c1 m3 where lr: "conf_load_root C junk r empty_conf m1 = (ret, c1, m3)"
      by (metis prod_cases3)
    have "ret = 0"
      using ld Read_root lr by (simp add: conf_load_file_def split: if_splits)
    moreover obtain m4 where al2: "mem_alloc m3 = (True, m4)"
      using ld Read_root lr \<open>ret = 0\<close> by (cases "mem_alloc m3") (auto simp: conf_load_file_def split: bool.splits)
    ultimately have c: "c = c1\<lparr>c_path := Some (path_basename path)\<rparr>" "m' = m4"
      using ld Read_root lr by (simp_all add: conf_load_file_def)
    have "cfg_is_group C r"
      using rd [unfolded read_ok_def, rule_format, of path] Read_root by simp
    note spec = load_root [OF C this lr, unfolded \<open>ret = 0\<close>, simplified]
    then have v: "conf_valid c1" "c_path c1 = None" "bad_free m3 = bad_free m1" "live m3 = live m1 + blocks c1 + stdio c1"
      by simp_all
    have al: "live m1 = live m + 1" "bad_free m1 = bad_free m" "live m4 = live m3 + 1" "bad_free m4 = bad_free m3"
      using mem_alloc_True [OF al] mem_alloc_True [OF al2] by simp_all
    have "blocks c = blocks c1 + 1" "stdio c = stdio c1"
      using v(2) by (simp_all add: c blocks_def stdio_def)
    with v al show ?thesis
      by (simp add: c)
  next
    case (Read_io err)
    with rd have "0 < err"
      using rd [unfolded read_ok_def, rule_format, of path] by simp
    with ld Read_io show ?thesis
      by (simp add: conf_load_file_def)
  qed (use ld in \<open>simp add: conf_load_file_def\<close>)
qed


text \<open>
  C31. Creating a configuration and destroying it gives back every block but the paths of standard
  input and output, one block each, which \<open>conf_fini\<close> forgets.
\<close>

theorem create_destroy_balance:
  assumes "cfg_ok C" "read_ok C read" "conf_create_from_file C read junk path m = (Inr c, m')"
  shows "live (conf_destroy c m') = live m + stdio c \<and> bad_free (conf_destroy c m') = bad_free m"
proof -
  note spec = create_from_file [OF assms]
  then have "conf_sound c"
    by (simp add: conf_valid_def)
  with spec conf_fini_mem [of c m'] show ?thesis
    by (simp add: conf_destroy_def)
qed

text \<open>
  C37. A sequence of commands whose loading fails after the table is allocated is released twice:
  \<open>conf_load_seq_setting\<close> frees it and leaves the count and the pointer for \<open>conf_fini\<close> to free again.
\<close>

theorem failed_sequence_freed_twice:
  assumes "cfg_ok C" "cfg_is_list C s" "cfg_length C s \<noteq> 0" "fst (mem_alloc m)"
    and "c_start c = empty_seq" "conf_load_start C c s m = (err, c', m')" "err \<noteq> 0"
  shows "bad_free (conf_fini c' m')"
proof -
  obtain q m1 where one: "conf_load_seq_setting C s empty_seq m = (err, q, m1)" "c' = c\<lparr>c_start := q\<rparr>"
    using assms(5,6) by (cases "conf_load_seq_setting C s empty_seq m") (auto simp: conf_load_start_def)
  obtain m2 where al: "mem_alloc m = (True, m2)"
    using assms(4) by (metis prod.collapse)
  have "\<lparr>seq_nr = cfg_length C s, seq_cmds = Ptr (replicate (cfg_length C s) None)\<rparr> = cmds_of [] (cfg_length C s)"
    by (simp add: cmds_of_def)
  with one(1) al assms(2,3) have "load_seq C s 0 (cfg_length C s) (cmds_of [] (cfg_length C s)) m2 = (err, q, m1)"
    by (simp add: conf_load_seq_setting_def conf_seq_setup_def Let_def)
  from load_seq [OF assms(1) this] assms(3,7) have "seq_nr q \<noteq> 0" "seq_cmds q = Dangling"
    by simp_all
  then have "broken c'"
    by (simp add: broken_def one(2))
  then show ?thesis
    by (simp add: conf_fini_bad)
qed

text \<open>
  C38. A standard input or output that is no string, an empty string or one too long makes the loader
  read a pointer it never set: \<open>conf_load_stdio\<close> reports the error with the wrong sign.
\<close>

theorem bad_stdio_reads_garbage:
  assumes "cfg_ok C" "conf_parse_string_setting C s CONF_PATH_MAX = Inl err"
  shows "bad_free (snd (snd (conf_load_stdin C c s m))) \<and> bad_free (snd (snd (conf_load_stdout C c s m)))"
proof -
  have "err \<in> {- EBADMSG, - ENODATA, - EMSGSIZE}"
    using parse_string(2) [OF assms] .
  with assms(2) show ?thesis
    by (auto simp: conf_load_stdin_def conf_load_stdout_def conf_load_stdio_def)
qed

text \<open>
  C39. When a file holds only settings the loader does not know, the result is the uninitialised
  variable it started from, or \<open>-EPROTO\<close> if that happens to be zero.
\<close>

theorem unknown_settings_result:
  fixes C :: "'s libcfg"
  assumes "cfg_length C root \<noteq> 0"
    and "\<forall>i < cfg_length C root. cfg_name C (cfg_get_elem C root i) \<notin> fst ` set (conf_loaders :: (string \<times> 's loader) list)"
  shows "fst (conf_load_root C junk root empty_conf m) = (if junk = 0 then - EPROTO else junk)"
proof -
  have "\<forall>i \<in> {s..<s + n}. cfg_name C (cfg_get_elem C root i) \<notin> fst ` set (conf_loaders :: (string \<times> 's loader) list) \<Longrightarrow>
      load_settings C root s n junk empty_conf m = (junk, empty_conf, m)" for s n
  proof (induction n arbitrary: s)
    case (Suc n)
    have "map_of (conf_loaders :: (string \<times> 's loader) list) (cfg_name C (cfg_get_elem C root s)) = None"
      using Suc.prems by (simp add: map_of_eq_None_iff)
    moreover have "load_settings C root (Suc s) n junk empty_conf m = (junk, empty_conf, m)"
      using Suc.prems by (intro Suc.IH) simp
    ultimately show ?case
      by (simp add: Let_def)
  qed simp
  then have "load_settings C root 0 (cfg_length C root) junk empty_conf m = (junk, empty_conf, m)"
    using assms(2) by simp
  then show ?thesis
    using assms(1) by (simp add: conf_load_root_def Let_def) (simp add: empty_conf_def)
qed

section \<open>What was written is what is loaded\<close>

text \<open>
  C29. The environment of a service is the group as written: entry \<open>i\<close> reads \<open>name=value\<close> of setting
  \<open>i\<close>, cutting it at its first \<open>=\<close> gives back the name and the value, and the list ends with the
  marker \<open>execve\<close> asks for.
\<close>

theorem environ_roundtrip:
  assumes "cfg_ok C" "conf_load_env C c s m = (0, c', m')"
  shows "\<exists>es. conf_get_env c' = Some (map Some es @ [None]) \<and> length es = cfg_length C s \<and>
    (\<forall>i < length es. takeWhile (\<lambda>x. x \<noteq> CHR ''='') (es ! i) = cfg_name C (cfg_get_elem C s i) \<and>
       Some (tl (dropWhile (\<lambda>x. x \<noteq> CHR ''='') (es ! i))) = cfg_get_string C (cfg_get_elem C s i))"
proof -
  from load_env_setting [OF assms] obtain ts where ts: "c' = c\<lparr>c_env := Some (arr_of ts 1)\<rparr>"
    "length ts = cfg_length C s" "\<forall>i < length ts. env_reads C (cfg_get_elem C s i) (ts ! i)"
    by auto
  have "takeWhile (\<lambda>x. x \<noteq> CHR ''='') (ts ! i) = cfg_name C (cfg_get_elem C s i) \<and>
       Some (tl (dropWhile (\<lambda>x. x \<noteq> CHR ''='') (ts ! i))) = cfg_get_string C (cfg_get_elem C s i)"
    if i: "i < length ts" for i
  proof -
    let ?s = "cfg_get_elem C s i"
    obtain val where val: "cfg_get_string C ?s = Some val" "ts ! i = cfg_name C ?s @ ''='' @ val"
      and set: "set (cfg_name C ?s) \<subseteq> set (ALNUM_CHARSET @ ''_'')"
      using ts(3) i unfolding env_reads_def by blast
    have "CHR ''='' \<notin> set (ALNUM_CHARSET @ ''_'')"
      by (simp add: charset_defs)
    with set have "\<forall>x \<in> set (cfg_name C ?s). x \<noteq> CHR ''=''"
      by blast
    then show ?thesis
      using val by (simp add: takeWhile_append2 dropWhile_append2)
  qed
  with ts(1,2) show ?thesis
    by (auto simp: conf_get_env_def strarr_get_members_def)
qed

text \<open>
  C30. The command lines of a service are the arrays as written: a daemon setting that is accepted gives
  back, in order and unchanged, the strings of the array, then the marker.
\<close>

theorem daemon_roundtrip:
  assumes "cfg_ok C" "conf_load_daemon C c s m = (0, c', m')"
  shows "conf_get_daemon c' =
    Some (map (\<lambda>i. cfg_get_string C (cfg_get_elem C s i)) [0..<cfg_length C s] @ [None])"
proof -
  obtain r m1 where one: "conf_load_strarr_setting C s conf_parse_cmd_arg True m = (r, m1)"
    by fastforce
  note spec = args.load_array [OF assms(1) one]
  obtain a where r: "r = Inr a"
  proof (cases r)
    case (Inl err)
    with spec assms(2) one show ?thesis
      by (simp add: conf_load_daemon_def)
  qed
  with assms(2) one have c': "c' = c\<lparr>c_daemon := Some a\<rparr>"
    by (simp add: conf_load_daemon_def)
  from spec r obtain ts where ts: "a = arr_of ts 1" "length ts = cfg_length C s"
    "\<forall>i < length ts. conf_parse_cmd_arg C (cfg_get_elem C s i) = Inr (ts ! i, length (ts ! i))"
    by auto
  have "cfg_get_string C (cfg_get_elem C s i) = Some (ts ! i)" if "i < length ts" for i
    using ts(3) that cmd_arg_string [OF assms(1)] by blast
  then have "map (\<lambda>i. cfg_get_string C (cfg_get_elem C s i)) [0..<cfg_length C s] = map Some ts"
    using ts(2) by (intro nth_equalityI) auto
  then show ?thesis
    by (simp add: c' ts(1) conf_get_daemon_def strarr_get_members_def)
qed

section \<open>A parsed file\<close>

text \<open>
  A concrete libconfig: settings as trees. The accessors cut strings at NUL, refuse a group that
  names a setting twice or not at all, and a tree with more than \<open>INT_MAX\<close> elements is empty.
\<close>

datatype cfg = Cfg_int string int | Cfg_str string string | Cfg_array string "cfg list"
  | Cfg_list string "cfg list" | Cfg_group string "cfg list"

fun cfg_label :: "cfg \<Rightarrow> string" where
  "cfg_label (Cfg_int n _) = cstr n"
| "cfg_label (Cfg_str n _) = cstr n"
| "cfg_label (Cfg_array n _) = cstr n"
| "cfg_label (Cfg_list n _) = cstr n"
| "cfg_label (Cfg_group n _) = cstr n"

fun cfg_sons :: "cfg \<Rightarrow> cfg list" where
  "cfg_sons (Cfg_array _ xs) = xs"
| "cfg_sons (Cfg_list _ xs) = xs"
| "cfg_sons (Cfg_group _ xs) = xs"
| "cfg_sons _ = []"

definition tree_cfg :: "cfg libcfg" where
  "tree_cfg = \<lparr>
     cfg_is_int = (\<lambda>s. case s of Cfg_int _ _ \<Rightarrow> True | _ \<Rightarrow> False),
     cfg_is_array = (\<lambda>s. case s of Cfg_array _ _ \<Rightarrow> True | _ \<Rightarrow> False),
     cfg_is_list = (\<lambda>s. case s of Cfg_list _ _ \<Rightarrow> True | _ \<Rightarrow> False),
     cfg_is_group = (\<lambda>s. case s of
        Cfg_group _ xs \<Rightarrow> distinct (map cfg_label xs) \<and> [] \<notin> cfg_label ` set xs | _ \<Rightarrow> False),
     cfg_get_int = (\<lambda>s. case s of Cfg_int _ i \<Rightarrow> i | _ \<Rightarrow> 0),
     cfg_get_string = (\<lambda>s. case s of Cfg_str _ v \<Rightarrow> Some (cstr v) | _ \<Rightarrow> None),
     cfg_length = (\<lambda>s. if int (length (cfg_sons s)) < 2 ^ 31 then length (cfg_sons s) else 0),
     cfg_get_elem = (\<lambda>s i. cfg_sons s ! i),
     cfg_name = cfg_label\<rparr>"

lemma tree_cfg_sel [simp]:
  "cfg_get_string tree_cfg s = (case s of Cfg_str _ v \<Rightarrow> Some (cstr v) | _ \<Rightarrow> None)"
  "cfg_length tree_cfg s = (if int (length (cfg_sons s)) < 2 ^ 31 then length (cfg_sons s) else 0)"
  "cfg_get_elem tree_cfg s i = cfg_sons s ! i" "cfg_name tree_cfg = cfg_label"
  "cfg_is_group tree_cfg s = (case s of
     Cfg_group _ xs \<Rightarrow> distinct (map cfg_label xs) \<and> [] \<notin> cfg_label ` set xs | _ \<Rightarrow> False)"
  "cfg_is_list tree_cfg s = (case s of Cfg_list _ _ \<Rightarrow> True | _ \<Rightarrow> False)"
  by (simp_all add: tree_cfg_def)

lemma tree_cfg_ok [simp]: "cfg_ok tree_cfg"
proof -
  have "is_cstr (cfg_label s)" for s
    by (cases s) simp_all
  moreover have "inj_on (\<lambda>i. cfg_label (cfg_sons g ! i)) {..<length (cfg_sons g)}"
    if "cfg_is_group tree_cfg g" for g
  proof (cases g)
    case (Cfg_group n xs)
    with that show ?thesis
      by (auto simp: inj_on_def distinct_conv_nth)
  qed (use that in simp_all)
  moreover have "cfg_label (cfg_sons g ! i) \<noteq> []" if "cfg_is_group tree_cfg g" "i < length (cfg_sons g)" for g i
  proof (cases g)
    case (Cfg_group n xs)
    with that have "cfg_label (cfg_sons g ! i) \<in> cfg_label ` set xs" "[] \<notin> cfg_label ` set xs"
      by simp_all
    then show ?thesis
      by metis
  qed (use that in simp_all)
  ultimately show ?thesis
    unfolding cfg_ok_def by (auto split: cfg.splits simp del: tree_cfg_sel(5))
qed

definition strs :: "string list \<Rightarrow> cfg list" where
  "strs = map (Cfg_str [])"

definition net_file :: cfg where
  "net_file = Cfg_group [] [
     Cfg_str ''name'' ''net'',
     Cfg_str ''stdin'' ''/dev/console'',
     Cfg_group ''environ'' [Cfg_str ''PATH'' ''/bin:/sbin'', Cfg_str ''opts'' ''a=b''],
     Cfg_array ''starton'' (strs [''disk'', ''udev'']),
     Cfg_list ''start'' [Cfg_array [] (strs [''/sbin/ifup'', ''eth0''])],
     Cfg_group ''signal'' [Cfg_int ''stop'' 2],
     Cfg_array ''daemon'' (strs [''/sbin/netd'', ''-f'']),
     Cfg_str ''colour'' ''blue'']"

definition bad_file :: cfg where
  "bad_file = Cfg_group [] [Cfg_str ''name'' ''net'', Cfg_list ''start'' [Cfg_array [] (strs [[]])]]"

definition files :: "string \<Rightarrow> cfg cfg_read" where
  "files p = (if p = ''/s/net.conf'' then Read_root net_file
     else if p = ''/s/bad.conf'' then Read_root bad_file else Read_io ENOENT)"

definition fresh_mem :: mem where
  "fresh_mem = \<lparr>oom = [], live = 0, bad_free = False\<rparr>"

lemma files_ok [simp]: "read_ok tree_cfg files"
  by (auto simp: read_ok_def files_def net_file_def bad_file_def cstr_def split: cfg_read.split)

lemma net_file_accepted:
  "\<exists>c m'. conf_create_from_file tree_cfg files 0 ''/s/net.conf'' fresh_mem = (Inr c, m') \<and> stdio c = 1"
proof -
  have "case fst (conf_create_from_file tree_cfg files 0 ''/s/net.conf'' fresh_mem) of Inr c \<Rightarrow> stdio c = 1 | Inl _ \<Rightarrow> False"
    by code_simp
  then show ?thesis
    by (cases "conf_create_from_file tree_cfg files 0 ''/s/net.conf'' fresh_mem") (auto split: sum.splits)
qed


theorem create_destroy_balance_witness:
  "\<exists>c m'. conf_create_from_file tree_cfg files 0 ''/s/net.conf'' fresh_mem = (Inr c, m') \<and>
     live (conf_destroy c m') = 1"
proof -
  obtain c m' where run: "conf_create_from_file tree_cfg files 0 ''/s/net.conf'' fresh_mem = (Inr c, m')" "stdio c = 1"
    using net_file_accepted by blast
  from create_destroy_balance [OF tree_cfg_ok files_ok run(1)] run show ?thesis
    by (simp add: fresh_mem_def)
qed

theorem failed_sequence_freed_twice_witness:
  "(case conf_load_start tree_cfg empty_conf (Cfg_list ''start'' [Cfg_array [] (strs [[]])]) fresh_mem of
      (err, c, m) \<Rightarrow> err = - ENODATA \<and> bad_free (conf_fini c m)) \<and>
   bad_free (snd (conf_create_from_file tree_cfg files 0 ''/s/bad.conf'' fresh_mem))"
proof -
  let ?s = "Cfg_list ''start'' [Cfg_array [] (strs [[]])]"
  obtain err c m where run: "conf_load_start tree_cfg empty_conf ?s fresh_mem = (err, c, m)"
    by (metis prod_cases3)
  have "fst (conf_load_start tree_cfg empty_conf ?s fresh_mem) = - ENODATA"
    by code_simp
  then have err: "err = - ENODATA"
    by (simp add: run)
  have "fst (mem_alloc fresh_mem)" "c_start empty_conf = empty_seq"
    by (simp_all add: mem_alloc_def fresh_mem_def empty_conf_def)
  then have "bad_free (conf_fini c m)"
    using failed_sequence_freed_twice [OF tree_cfg_ok _ _ _ _ run] err by simp
  moreover have "bad_free (snd (conf_create_from_file tree_cfg files 0 ''/s/bad.conf'' fresh_mem))"
    by code_simp
  ultimately show ?thesis
    using run err by simp
qed

theorem bad_stdio_reads_garbage_witness:
  "bad_free (snd (snd (conf_load_stdin tree_cfg empty_conf (Cfg_int ''stdin'' 0) fresh_mem)))"
proof -
  have "conf_parse_string_setting tree_cfg (Cfg_int ''stdin'' 0) CONF_PATH_MAX = Inl (- EBADMSG)"
    by (simp add: conf_parse_string_setting_def)
  from bad_stdio_reads_garbage [OF tree_cfg_ok this] show ?thesis
    by blast
qed

theorem unknown_settings_result_witness:
  "fst (conf_load_root tree_cfg 7 (Cfg_group [] [Cfg_str ''colour'' ''blue'']) empty_conf fresh_mem) = 7"
proof -
  let ?root = "Cfg_group [] [Cfg_str ''colour'' ''blue'']"
  have "\<forall>i < cfg_length tree_cfg ?root. cfg_name tree_cfg (cfg_get_elem tree_cfg ?root i) \<notin>
      fst ` set (conf_loaders :: (string \<times> cfg loader) list)"
    by (simp add: conf_loaders_def cstr_def)
  from unknown_settings_result [OF _ this] show ?thesis
    by simp
qed

theorem environ_roundtrip_witness:
  "\<exists>es. conf_get_env (fst (snd (conf_load_env tree_cfg empty_conf
       (Cfg_group ''environ'' [Cfg_str ''PATH'' ''/bin:/sbin'', Cfg_str ''opts'' ''a=b'']) fresh_mem))) = Some (map Some es @ [None]) \<and>
     takeWhile (\<lambda>x. x \<noteq> CHR ''='') (es ! 1) = ''opts''"
proof -
  let ?s = "Cfg_group ''environ'' [Cfg_str ''PATH'' ''/bin:/sbin'', Cfg_str ''opts'' ''a=b'']"
  obtain err c m where run: "conf_load_env tree_cfg empty_conf ?s fresh_mem = (err, c, m)"
    by (metis prod_cases3)
  have "fst (conf_load_env tree_cfg empty_conf ?s fresh_mem) = 0"
    by code_simp
  then have "err = 0"
    by (simp add: run)
  from environ_roundtrip [OF tree_cfg_ok run [unfolded this]] obtain es where
    es: "conf_get_env c = Some (map Some es @ [None])" "length es = 2"
    "\<forall>i < 2. takeWhile (\<lambda>x. x \<noteq> CHR ''='') (es ! i) = cfg_label (cfg_sons ?s ! i)"
    by auto
  from es(3) have "takeWhile (\<lambda>x. x \<noteq> CHR ''='') (es ! 1) = ''opts''"
    by (simp add: cstr_def)
  with es(1) run show ?thesis
    by auto
qed

theorem daemon_roundtrip_witness:
  "conf_get_daemon (fst (snd (conf_load_daemon tree_cfg empty_conf
     (Cfg_array ''daemon'' (strs [''/sbin/netd'', ''-f''])) fresh_mem))) = Some [Some ''/sbin/netd'', Some ''-f'', None]"
proof -
  let ?s = "Cfg_array ''daemon'' (strs [''/sbin/netd'', ''-f''])"
  obtain err c m where run: "conf_load_daemon tree_cfg empty_conf ?s fresh_mem = (err, c, m)"
    by (metis prod_cases3)
  have "fst (conf_load_daemon tree_cfg empty_conf ?s fresh_mem) = 0"
    by code_simp
  then have "err = 0"
    by (simp add: run)
  have "[0..<Suc (Suc 0)] = [0, Suc 0]"
    by (simp add: upt_rec)
  with daemon_roundtrip [OF tree_cfg_ok run [unfolded \<open>err = 0\<close>]] run show ?thesis
    by (simp add: strs_def cstr_def)
qed

end
