(* ===== verification/Conf_Print.thy ===== *)
theory Conf_Print imports Conf_Props begin

text \<open>
  Printing a configuration (\<open>conf_print\<close> in \<open>conf.c\<close>). A printer adds to the text written so far and
  says whether an assertion failed. The lemmas show that whatever the loader accepts is printed without
  a failed assertion and with nothing left out.
\<close>

type_synonym printed = "string \<times> bool"

text \<open>The format \<open>SVC_PRINT_FORMAT\<close>, \<open>"%-18s %s"\<close>.\<close>

definition print_field :: "string \<Rightarrow> string \<Rightarrow> string" where
  "print_field title str = title @ replicate (18 - length title) CHR '' '' @ '' '' @ str"

abbreviation (input) newline :: string where "newline \<equiv> [CHR 0x0A]"

definition print_more :: "string \<Rightarrow> strarr \<Rightarrow> nat \<Rightarrow> printed \<Rightarrow> printed" where
  "print_more delim a s = (\<lambda>(out, failed). case strarr_get a s of
      None \<Rightarrow> (out, failed)
    | Some str \<Rightarrow> (out @ delim @ str, failed \<or> str = []))"

definition conf_print_strarr :: "string \<Rightarrow> string \<Rightarrow> strarr option \<Rightarrow> printed \<Rightarrow> printed" where
  "conf_print_strarr title delim array p = (case array of
      None \<Rightarrow> p
    | Some a \<Rightarrow>
        (let nr = strarr_nr a;
             (out, failed) = p;
             first = strarr_get a 0;
             (out1, failed1) = fold (print_more delim a) [1..<nr]
               (out @ print_field title (case first of Some str \<Rightarrow> str | None \<Rightarrow> []), failed \<or> nr = 0 \<or> first = None)
         in (out1 @ newline, failed1)))"

definition print_cmd :: "string \<Rightarrow> conf_seq \<Rightarrow> nat \<Rightarrow> printed \<Rightarrow> printed" where
  "print_cmd title q c p = (case conf_seq_get_cmd q c of
      None \<Rightarrow> (fst p, True)
    | Some a \<Rightarrow> conf_print_strarr title '' '' (Some a) p)"

definition conf_print_seq :: "string \<Rightarrow> conf_seq \<Rightarrow> printed \<Rightarrow> printed" where
  "conf_print_seq title q p =
     (if seq_nr q = 0 then p
      else fold (print_cmd [] q) [1..<seq_nr q] (print_cmd title q 0 p))"

definition print_opt :: "string \<Rightarrow> string option \<Rightarrow> printed \<Rightarrow> printed" where
  "print_opt title str p = (case str of
      None \<Rightarrow> p
    | Some s \<Rightarrow> (fst p @ print_field title s @ newline, snd p))"

definition conf_print :: "conf_svc \<Rightarrow> printed" where
  "conf_print c =
     (let p1 = print_opt ''Name:'' (c_name c) ([], c_name c = None);
          p2 = print_opt ''STDOUT:'' (c_stdout c) (print_opt ''STDIN:'' (c_stdin c) (print_opt ''Description:'' (c_desc c) p1));
          p3 = conf_print_strarr ''Start on (ready):'' '', '' (conf_get_starton c)
                 (conf_print_strarr ''Environment:'' '', '' (c_env c) p2)
      in conf_print_strarr ''Daemon:'' '' '' (c_daemon c)
           (conf_print_seq ''Stop:'' (c_stop c) (conf_print_seq ''Start:'' (c_start c) p3)))"

section \<open>What is printed of an accepted configuration\<close>

definition joined :: "string \<Rightarrow> string list \<Rightarrow> string" where
  "joined delim ss = hd ss @ concat (map (\<lambda>s. delim @ s) (tl ss))"

definition line_of :: "string \<Rightarrow> string \<Rightarrow> string" where
  "line_of title str = print_field title str @ newline"

definition strarr_lines :: "string \<Rightarrow> string \<Rightarrow> strarr option \<Rightarrow> string" where
  "strarr_lines title delim a = (case a of None \<Rightarrow> [] | Some x \<Rightarrow>
     line_of title (joined delim (map the (filter (\<lambda>s. s \<noteq> None) (strarr_get_members x)))))"

definition seq_lines :: "string \<Rightarrow> conf_seq \<Rightarrow> string" where
  "seq_lines title q = concat (map (\<lambda>c. strarr_lines (if c = 0 then title else []) '' '' (conf_seq_get_cmd q c)) [0..<seq_nr q])"

definition opt_lines :: "string \<Rightarrow> string option \<Rightarrow> string" where
  "opt_lines title s = (case s of None \<Rightarrow> [] | Some str \<Rightarrow> line_of title str)"

lemma get_arr_of: "strarr_get (arr_of ss k) i = (if i < length ss then Some (ss ! i) else None)"
  by (simp add: strarr_get_def strarr_nr_def nth_append)

lemma print_rest:
  assumes "[] \<notin> set ss"
  shows "fold (print_more delim (arr_of (s # ss) k)) [1..<Suc (length ss + k)] (out, failed) =
    (out @ concat (map (\<lambda>s. delim @ s) ss), failed)"
proof -
  let ?a = "arr_of (s # ss) k"
  have get: "strarr_get ?a i = (if i < Suc (length ss) then Some ((s # ss) ! i) else None)" if "i < Suc (length ss + k)" for i
    by (simp add: get_arr_of del: nth_Cons_Suc)
  have pad: "fold (print_more delim ?a) [Suc (length ss)..<Suc (length ss + n)] p = p" if "n \<le> k" for n p
    using that by (induction n) (simp_all add: print_more_def get split: prod.split)
  have used: "fold (print_more delim ?a) [1..<Suc n] (out, failed) = (out @ concat (map (\<lambda>s. delim @ s) (take n ss)), failed)"
    if "n \<le> length ss" for n
    using that
  proof (induction n)
    case (Suc n)
    with assms show ?case
      by (auto simp: print_more_def get take_Suc_conv_app_nth in_set_conv_nth)
  qed simp
  have "[1..<Suc (length ss + k)] = [1..<Suc (length ss)] @ [Suc (length ss)..<Suc (length ss + k)]"
    using upt_add_eq_append [of 1 "Suc (length ss)" k] by simp
  then show ?thesis
    using used [of "length ss"] pad [of k] by (simp del: upt_Suc)
qed

lemma print_array:
  assumes "ss \<noteq> []" "[] \<notin> set ss"
  shows "conf_print_strarr title delim (Some (arr_of ss k)) (out, failed) =
    (out @ strarr_lines title delim (Some (arr_of ss k)), failed)"
proof -
  obtain s r where ss: "ss = s # r"
    using assms(1) by (cases ss) auto
  have "strarr_get (arr_of (s # r) k) 0 = Some s" "strarr_nr (arr_of (s # r) k) = Suc (length r + k)"
    by (simp_all add: strarr_get_def strarr_nr_def arr_of_def)
  moreover have "map the (filter (\<lambda>s. s \<noteq> None) (strarr_get_members (arr_of (s # r) k))) = s # r"
    by (simp add: strarr_get_members_def filter_replicate filter_map o_def)
  ultimately show ?thesis
    using print_rest [of r delim s k] assms(2)
    by (simp add: ss conf_print_strarr_def strarr_lines_def line_of_def joined_def print_field_def Let_def del: upt_Suc)
qed

lemma print_sound_array:
  assumes "arr_sound P k a" "\<not> P []"
  shows "conf_print_strarr title delim a (out, failed) = (out @ strarr_lines title delim a, failed)"
  using assms print_array
  by (cases a) (auto simp: arr_sound_def conf_print_strarr_def strarr_lines_def)

lemma print_sound_seq:
  assumes "seq_sound q"
  shows "conf_print_seq title q (out, failed) = (out @ seq_lines title q, failed)"
proof (cases "q = empty_seq")
  case True
  then show ?thesis
    by (simp add: conf_print_seq_def seq_lines_def empty_seq_def)
next
  case False
  with assms obtain css where q: "q = cmds_of css 0" "css \<noteq> []" "\<forall>ss \<in> set css. ss \<noteq> [] \<and> (\<forall>x \<in> set ss. cmd_arg_ok x)"
    by (auto simp: seq_sound_def)
  then have ok: "css ! c \<noteq> []" "[] \<notin> set (css ! c)" if "c < length css" for c
    using that by (auto simp: cmd_arg_ok_def)
  have get: "conf_seq_get_cmd q c = Some (arr_of (css ! c) 1)" if "c < length css" for c
    using that by (simp add: q(1) cmds_of_def conf_seq_get_cmd_def)
  have one: "print_cmd t q c (o1, failed) = (o1 @ strarr_lines t '' '' (conf_seq_get_cmd q c), failed)" if "c < length css" for c t o1
    using print_array [OF ok [OF that], of t "'' ''" 1 o1 failed] by (simp add: print_cmd_def get [OF that])
  have nr: "seq_nr q = length css"
    by (simp add: q(1) cmds_of_def)
  have "fold (print_cmd [] q) [1..<Suc n] (print_cmd title q 0 (out, failed)) =
      (out @ concat (map (\<lambda>c. strarr_lines (if c = 0 then title else []) '' '' (conf_seq_get_cmd q c)) [0..<Suc n]), failed)"
    if "n < length css" for n
    using that by (induction n) (simp_all add: one)
  from this [of "length css - 1"] q(2) show ?thesis
    by (simp add: conf_print_seq_def seq_lines_def nr del: upt_Suc)
qed

text \<open>Every field of an accepted configuration is printed, in the order of the code, and no assertion fails.\<close>

lemma conf_print_valid:
  assumes "conf_valid c"
  shows "conf_print c =
    (opt_lines ''Name:'' (c_name c) @ opt_lines ''Description:'' (c_desc c) @ opt_lines ''STDIN:'' (c_stdin c) @
     opt_lines ''STDOUT:'' (c_stdout c) @ strarr_lines ''Environment:'' '', '' (c_env c) @
     strarr_lines ''Start on (ready):'' '', '' (c_starton c) @ seq_lines ''Start:'' (c_start c) @
     seq_lines ''Stop:'' (c_stop c) @ strarr_lines ''Daemon:'' '' '' (c_daemon c), False)"
proof -
  have sound: "arr_sound env_ok 1 (c_env c)" "arr_sound svc_name_ok 0 (c_starton c)" "arr_sound cmd_arg_ok 1 (c_daemon c)"
    "seq_sound (c_start c)" "seq_sound (c_stop c)" "c_name c \<noteq> None"
    using assms by (auto simp: conf_valid_def conf_sound_def)
  have ne: "\<not> env_ok []" "\<not> svc_name_ok []" "\<not> cmd_arg_ok []"
    by (simp_all add: env_ok_def svc_name_ok_def cmd_arg_ok_def)
  have o: "print_opt t s (x, failed) = (x @ opt_lines t s, failed)" for t s x failed
    by (cases s) (simp_all add: print_opt_def opt_lines_def line_of_def)
  show ?thesis
    using sound(6)
    by (simp add: conf_print_def conf_get_starton_def Let_def o print_sound_seq [OF sound(4)] print_sound_seq [OF sound(5)]
        print_sound_array [OF sound(1) ne(1)] print_sound_array [OF sound(2) ne(2)] print_sound_array [OF sound(3) ne(3)])
qed

end
