(* ===== verification/Proto.thy ===== *)
theory Proto imports Conf_Types Svc_Types begin

text \<open>
  The wire format of \<open>proto.h\<close> and \<open>tinit.h\<close>. A datagram buffer is the list of its bytes; the
  structures are read and written at the offsets an ABI with 2-byte aligned \<open>uint16_t\<close> and 4-byte
  aligned \<open>uint32_t\<close> gives them, in little-endian order. Client and daemon run on the same host.

      request: seq 0, type 2, pattern 4            (size of the fixed part 4)
      head:    seq 0, type 2, ret 4                (6)
      status:  pid 0, adm\_state 4, run\_state 5, conf\_path 6   (8)
      reply:   head 0, statuses 8                  (8)
\<close>

type_synonym bytes = "char list"

definition poke :: "nat \<Rightarrow> bytes \<Rightarrow> bytes \<Rightarrow> bytes" where
  "poke off bs b = take off b @ bs @ drop (off + length bs) b"

definition byte_at :: "bytes \<Rightarrow> nat \<Rightarrow> nat" where
  "byte_at b off = of_char (b ! off)"

definition u8 :: "nat \<Rightarrow> bytes" where
  "u8 n = [char_of n]"

definition u16 :: "nat \<Rightarrow> bytes" where
  "u16 n = [char_of n, char_of (n div 256)]"

definition u32 :: "nat \<Rightarrow> bytes" where
  "u32 n = [char_of n, char_of (n div 256), char_of (n div 65536), char_of (n div 16777216)]"

definition get16 :: "bytes \<Rightarrow> nat \<Rightarrow> nat" where
  "get16 b off = byte_at b off + 256 * byte_at b (off + 1)"

definition get32 :: "bytes \<Rightarrow> nat \<Rightarrow> nat" where
  "get32 b off = get16 b off + 65536 * get16 b (off + 2)"

text \<open>Sizes and offsets.\<close>

abbreviation (input) request_size :: nat where "request_size \<equiv> 4"
abbreviation (input) head_size :: nat where "head_size \<equiv> 6"
abbreviation (input) status_size :: nat where "status_size \<equiv> 8"
abbreviation (input) reply_size :: nat where "reply_size \<equiv> 8"
abbreviation (input) path_off :: nat where "path_off \<equiv> 6"
abbreviation (input) TINIT_MSG_SIZE_MAX :: nat where "TINIT_MSG_SIZE_MAX \<equiv> 4096"
abbreviation (input) SVC_PATTERN_MAX :: nat where "SVC_PATTERN_MAX \<equiv> 256"
abbreviation (input) SVC_PATH_MAX :: nat where "SVC_PATH_MAX \<equiv> 255"    \<comment> \<open>\<open>NAME_MAX\<close>\<close>

datatype msg_type =
  TINIT_STATUS_MSG_TYPE | TINIT_START_MSG_TYPE | TINIT_STOP_MSG_TYPE | TINIT_RESTART_MSG_TYPE
  | TINIT_RELOAD_MSG_TYPE | TINIT_SWITCH_MSG_TYPE

definition msg_types :: "msg_type list" where
  "msg_types = [TINIT_STATUS_MSG_TYPE, TINIT_START_MSG_TYPE, TINIT_STOP_MSG_TYPE, TINIT_RESTART_MSG_TYPE,
     TINIT_RELOAD_MSG_TYPE, TINIT_SWITCH_MSG_TYPE]"

fun type_no :: "msg_type \<Rightarrow> nat" where
  "type_no TINIT_STATUS_MSG_TYPE = 0"
| "type_no TINIT_START_MSG_TYPE = 1"
| "type_no TINIT_STOP_MSG_TYPE = 2"
| "type_no TINIT_RESTART_MSG_TYPE = 3"
| "type_no TINIT_RELOAD_MSG_TYPE = 4"
| "type_no TINIT_SWITCH_MSG_TYPE = 5"

abbreviation (input) TINIT_MSG_TYPE_NR :: nat where "TINIT_MSG_TYPE_NR \<equiv> 6"

fun state_no :: "svc_state \<Rightarrow> nat" where
  "state_no TINIT_SVC_STOPPED_STAT = 0"
| "state_no TINIT_SVC_STARTING_STAT = 1"
| "state_no TINIT_SVC_READY_STAT = 2"
| "state_no TINIT_SVC_STOPPING_STAT = 3"

text \<open>\<open>stroll_round_upper\<close>: the next multiple of \<open>n\<close>.\<close>

definition stroll_round_upper :: "nat \<Rightarrow> nat \<Rightarrow> nat" where
  "stroll_round_upper x n = (x + n - 1) div n * n"

text \<open>A \<open>pid_t\<close> stored in a \<open>uint32_t\<close>.\<close>

definition u32_of_int :: "int \<Rightarrow> nat" where
  "u32_of_int i = nat (i mod 2 ^ 32)"

section \<open>Reading back\<close>

lemma length_poke [simp]: "off + length bs \<le> length b \<Longrightarrow> length (poke off bs b) = length b"
  by (simp add: poke_def)

lemma length_u [simp]: "length (u8 n) = 1" "length (u16 n) = 2" "length (u32 n) = 4"
  by (simp_all add: u8_def u16_def u32_def)

lemma nth_poke:
  assumes "off + length bs \<le> length b" "i < length b"
  shows "poke off bs b ! i = (if i < off then b ! i else if i < off + length bs then bs ! (i - off) else b ! i)"
  using assms by (auto simp: poke_def nth_append min_def)

lemma byte_at_poke:
  assumes "off + length bs \<le> length b" "i < length b"
  shows "byte_at (poke off bs b) i = (if off \<le> i \<and> i < off + length bs then of_char (bs ! (i - off)) else byte_at b i)"
  using nth_poke [OF assms] by (simp add: byte_at_def)

lemma split16: "(n::nat) < 65536 \<Longrightarrow> n mod 256 + 256 * (n div 256 mod 256) = n"
  by (simp add: mod_less less_mult_imp_div_less)

lemma split32:
  assumes "(n::nat) < 4294967296"
  shows "n mod 256 + 256 * (n div 256 mod 256) + 65536 * (n div 65536 mod 256 + 256 * (n div 16777216 mod 256)) = n"
proof -
  have e: "n div 65536 = (n div 256) div 256" "n div 16777216 = n div 65536 div 256"
    by (simp_all add: div_mult2_eq [symmetric])
  have "n div 65536 < 65536"
    using assms by (simp add: less_mult_imp_div_less)
  from split16 [OF this] have hi: "n div 65536 mod 256 + 256 * (n div 16777216 mod 256) = n div 65536"
    by (simp only: e(2))
  have lo: "n mod 256 + 256 * (n div 256 mod 256) + 65536 * (n div 65536) = n"
    using mult_div_mod_eq [of 256 n] mult_div_mod_eq [of 256 "n div 256"] by (simp only: e(1))
  show ?thesis
    using hi lo by simp
qed

lemma nth_u32:
  "u32 n ! 0 = char_of n" "u32 n ! Suc 0 = char_of (n div 256)"
  "u32 n ! 2 = char_of (n div 65536)" "u32 n ! 3 = char_of (n div 16777216)"
  by (simp_all add: u32_def)

lemma get16_poke_same: "off + 2 \<le> length b \<Longrightarrow> n < 65536 \<Longrightarrow> get16 (poke off (u16 n) b) off = n"
  by (simp add: get16_def byte_at_poke) (simp add: u16_def split16)

lemma get16_poke_other:
  "off + length bs \<le> length b \<Longrightarrow> i + 2 \<le> length b \<Longrightarrow> i + 2 \<le> off \<or> off + length bs \<le> i
    \<Longrightarrow> get16 (poke off bs b) i = get16 b i"
  by (auto simp: get16_def byte_at_poke)

lemma get32_poke_other:
  "off + length bs \<le> length b \<Longrightarrow> i + 4 \<le> length b \<Longrightarrow> i + 4 \<le> off \<or> off + length bs \<le> i
    \<Longrightarrow> get32 (poke off bs b) i = get32 b i"
  by (auto simp: get32_def get16_poke_other)

lemma get32_poke_same:
  assumes "off + 4 \<le> length b" "n < 2 ^ 32"
  shows "get32 (poke off (u32 n) b) off = n"
proof -
  have "get32 (poke off (u32 n) b) off
      = n mod 256 + 256 * (n div 256 mod 256) + 65536 * (n div 65536 mod 256 + 256 * (n div 16777216 mod 256))"
    using assms(1) by (simp add: get32_def get16_def byte_at_poke nth_u32)
  also have "\<dots> = n"
    using assms(2) by (intro split32) simp
  finally show ?thesis .
qed

lemma byte_at_less: "byte_at b i < 256"
  by (simp add: byte_at_def)

lemma get16_less: "get16 b i < 65536"
  using byte_at_less [of b i] byte_at_less [of b "i + 1"] by (simp add: get16_def)

lemma get32_less: "get32 b i < 2 ^ 32"
  using get16_less [of b i] get16_less [of b "i + 2"] by (simp add: get32_def)

lemma round_upper_bounds:
  "x \<le> stroll_round_upper x 8" "stroll_round_upper x 8 < x + 8" "8 dvd stroll_round_upper x 8"
proof -
  have "(x + 7) div 8 * 8 + (x + 7) mod 8 = x + 7"
    by (rule div_mult_mod_eq)
  moreover have "(x + 7) mod 8 < 8"
    by simp
  ultimately show "x \<le> stroll_round_upper x 8" "stroll_round_upper x 8 < x + 8"
    unfolding stroll_round_upper_def add_diff_assoc [of 1 8 x, simplified] by simp_all
  show "8 dvd stroll_round_upper x 8"
    by (simp add: stroll_round_upper_def)
qed

lemma round_upper_plus:
  assumes "8 dvd a"
  shows "stroll_round_upper (a + x) 8 = a + stroll_round_upper x 8"
proof -
  from assms obtain k where k: "a = 8 * k" ..
  have "(8 * k + (x + 7)) div 8 = k + (x + 7) div 8"
    by (rule div_mult_self4) simp
  then show ?thesis
    unfolding k stroll_round_upper_def by (simp add: ac_simps)
qed

end
