(* ===== verification/Repo.thy ===== *)
theory Repo imports Names Observers begin

text \<open>
  The service repository (\<open>repo.c\<close>): the three searches over the list of services, and the linking
  of a service to the ones its configuration names. The list is the world's list of services, in
  the order they were created. Loading and clearing are in \<open>Repo_Load\<close>.
\<close>

abbreviation (input) NAME_MAX :: nat where "NAME_MAX \<equiv> 255"

definition search_svc :: "(svc \<Rightarrow> bool) \<Rightarrow> 'k world \<Rightarrow> svc_id option" where
  "search_svc P w = List.find (\<lambda>i. P (svc_at w i)) [0..<length (w_svcs w)]"

definition tinit_repo_search_byname :: "'k world \<Rightarrow> string \<Rightarrow> svc_id option" where
  "tinit_repo_search_byname w name =
     search_svc (\<lambda>s. case conf_get_name (s_conf s) of
        Some n \<Rightarrow> strn_eq TINIT_SVC_NAME_MAX n name | None \<Rightarrow> False) w"

definition tinit_repo_search_bypath :: "'k world \<Rightarrow> string \<Rightarrow> svc_id option" where
  "tinit_repo_search_bypath w path =
     search_svc (\<lambda>s. case conf_get_path (s_conf s) of
        Some p \<Rightarrow> strn_eq NAME_MAX p path | None \<Rightarrow> False) w"

definition tinit_repo_search_bypid :: "'k world \<Rightarrow> int \<Rightarrow> svc_id option" where
  "tinit_repo_search_bypid w pid = search_svc (\<lambda>s. s_child s = pid) w"

lemma search_svc_Some:
  assumes "search_svc P w = Some i"
  shows "is_svc w i" "P (svc_at w i)" "\<forall>j < i. \<not> P (svc_at w j)"
  using assms by (auto simp: search_svc_def find_Some_iff is_svc_def)

lemma search_svc_None: "search_svc P w = None \<longleftrightarrow> (\<forall>i. is_svc w i \<longrightarrow> \<not> P (svc_at w i))"
  by (auto simp: search_svc_def find_None_iff is_svc_def)

section \<open>Linking\<close>

definition setup_link :: "(svc_id \<Rightarrow> svc_id \<Rightarrow> 'k world \<Rightarrow> 'k world) \<Rightarrow> strarr \<Rightarrow> svc_id \<Rightarrow> nat \<Rightarrow>
    'k world \<Rightarrow> 'k world" where
  "setup_link register names i n w = (case strarr_get names n of
      None \<Rightarrow> fault w
    | Some name \<Rightarrow> (case tinit_repo_search_byname w name of
          Some notif \<Rightarrow> register notif i w
        | None \<Rightarrow> w))"

definition tinit_repo_setup_svc_starton :: "svc_id \<Rightarrow> 'k world \<Rightarrow> 'k world" where
  "tinit_repo_setup_svc_starton i w = (case conf_get_starton (s_conf (svc_at w i)) of
      None \<Rightarrow> w
    | Some names \<Rightarrow>
        fold (setup_link svc_register_starton_obsrv names i) [0..<strarr_nr names] w)"

definition tinit_repo_setup_svc_stopon :: "svc_id \<Rightarrow> 'k world \<Rightarrow> 'k world" where
  "tinit_repo_setup_svc_stopon i w = (case conf_get_stopon (s_conf (svc_at w i)) of
      None \<Rightarrow> w
    | Some names \<Rightarrow>
        fold (setup_link svc_register_stopon_obsrv names i) [0..<strarr_nr names] w)"

text \<open>The loop over the repository that ends \<open>tinit_repo_load\<close>.\<close>

definition tinit_repo_setup :: "'k world \<Rightarrow> 'k world" where
  "tinit_repo_setup w =
     fold (\<lambda>i w. tinit_repo_setup_svc_stopon i (tinit_repo_setup_svc_starton i w))
       [0..<length (w_svcs w)] w"

section \<open>Linking within the contract of registration\<close>

text \<open>What a search by name finds depends on the configurations only, and they stay.\<close>

definition named :: "conf_svc list \<Rightarrow> string \<Rightarrow> svc_id option" where
  "named cs name = List.find (\<lambda>i. case conf_get_name (cs ! i) of
     Some n \<Rightarrow> strn_eq TINIT_SVC_NAME_MAX n name | None \<Rightarrow> False) [0..<length cs]"

lemma search_byname_named: "tinit_repo_search_byname w name = named (world_confs w) name"
  by (auto simp: tinit_repo_search_byname_def search_svc_def named_def world_confs_def svc_at_def
      intro!: arg_cong2 [of _ _ _ _ List.find] find_cong)

lemma named_less: "named cs name = Some i \<Longrightarrow> i < length cs"
  by (auto simp: named_def find_Some_iff)

text \<open>The notifiers service \<open>i\<close> is linked to, in order: the services its names find.\<close>

definition targets :: "conf_svc list \<Rightarrow> strarr \<Rightarrow> svc_id list" where
  "targets cs names = List.map_filter (\<lambda>n. Option.bind (strarr_get names n) (named cs)) [0..<strarr_nr names]"

definition names_ok :: "strarr \<Rightarrow> bool" where
  "names_ok a \<longleftrightarrow> (\<forall>n < strarr_nr a. strarr_get a n \<noteq> None)"

lemma targets_length: "length (targets cs names) \<le> strarr_nr names"
proof -
  have "length (List.map_filter f xs) \<le> length xs" for f :: "nat \<Rightarrow> svc_id option" and xs
    by (induction xs) (auto simp: List.map_filter_simps split: option.splits)
  from this [of _ "[0..<strarr_nr names]"] show ?thesis
    by (simp add: targets_def)
qed

lemma targets_less: "s \<in> set (targets cs names) \<Longrightarrow> s < length cs"
  by (auto simp: targets_def List.map_filter_def bind_eq_Some_conv dest: named_less)

context notifier_graph begin

lemma setup_all:
  assumes ok: "ok w" and ob: "ob < length (confs w)" and room: "strarr_nr names \<le> room w ob"
  defines "w' \<equiv> fold (\<lambda>s. register s ob) (targets (confs w) names) w"
  shows "ok w'" "confs w' = confs w" "other w' = other w" "rel w \<subseteq> rel w'"
    "x \<noteq> ob \<Longrightarrow> room w x \<le> room w' x"
    "s \<in> set (targets (confs w) names) \<Longrightarrow> (ob, s) \<in> rel w' \<or> (s, ob) \<in> (rel w')\<^sup>*"
proof -
  have "length (targets (confs w) names) \<le> room w ob"
    using targets_length [of "confs w" names] room by simp
  then show "ok w'" "confs w' = confs w" "other w' = other w" "rel w \<subseteq> rel w'"
    "x \<noteq> ob \<Longrightarrow> room w x \<le> room w' x"
    "s \<in> set (targets (confs w) names) \<Longrightarrow> (ob, s) \<in> rel w' \<or> (s, ob) \<in> (rel w')\<^sup>*"
    unfolding w'_def using register_all [OF ok _ ob] targets_less by blast+
qed

text \<open>A loop that registers, name by name, is the registration of the list of what is found.\<close>

lemma fold_links:
  assumes "ok w" "ob < length (confs w)" "length ns \<le> room w ob"
    and "\<And>n s. n \<in> set ns \<Longrightarrow> g n = Some s \<Longrightarrow> s < length (confs w)"
    and "\<And>n v. n \<in> set ns \<Longrightarrow> confs v = confs w \<Longrightarrow>
      f n v = (case g n of None \<Rightarrow> v | Some s \<Rightarrow> register s ob v)"
  shows "fold f ns w = fold (\<lambda>s. register s ob) (List.map_filter g ns) w"
  using assms
proof (induction ns arbitrary: w)
  case Nil
  then show ?case by (simp add: List.map_filter_simps)
next
  case (Cons n ns)
  show ?case
  proof (cases "g n")
    case None
    have "fold f ns w = fold (\<lambda>s. register s ob) (List.map_filter g ns) w"
    proof (rule Cons.IH)
      show "s < length (confs w)" if "k \<in> set ns" "g k = Some s" for k s
        by (rule Cons.prems(4) [of k]) (use that in simp_all)
    qed (use Cons.prems in simp_all)
    with None Cons.prems show ?thesis
      by (simp add: List.map_filter_simps)
  next
    case (Some s)
    have s: "s < length (confs w)"
      by (rule Cons.prems(4) [OF _ Some]) simp
    have room: "0 < room w ob"
      using Cons.prems by simp
    let ?w = "register s ob w"
    note reg = register [OF Cons.prems(1) s Cons.prems(2) room]
    have "room w ob \<le> Suc (room ?w ob)"
      using reg [THEN conjunct2, THEN conjunct2, THEN conjunct2, THEN spec, of ob] by simp
    then have "length ns \<le> room ?w ob"
      using Cons.prems(3) by simp
    then have "fold f ns ?w = fold (\<lambda>s. register s ob) (List.map_filter g ns) ?w"
    proof (intro Cons.IH)
      show "t < length (confs ?w)" if "k \<in> set ns" "g k = Some t" for k t
        using reg Cons.prems(4) [of k t] that by simp
    qed (use reg Cons.prems in simp_all)
    with Some Cons.prems show ?thesis
      by (simp add: List.map_filter_simps)
  qed
qed

end

lemma setup_starton:
  assumes ok: "graph_ok w" and i: "is_svc w i"
    and names: "conf_get_starton (s_conf (svc_at w i)) = Some a" "names_ok a" "strarr_nr a \<le> poll_room Starton w i"
  shows "tinit_repo_setup_svc_starton i w =
    fold (\<lambda>s. svc_register_starton_obsrv s i) (targets (world_confs w) a) w"
proof -
  have "fold (setup_link svc_register_starton_obsrv a i) [0..<strarr_nr a] w =
      fold (\<lambda>s. svc_register_starton_obsrv s i) (targets (world_confs w) a) w"
    unfolding targets_def
    using assms named_less
    by (intro starton.fold_links)
      (fastforce simp: confs_svc setup_link_def names_ok_def search_byname_named bind_eq_Some_conv
        split: option.split)+
  with names show ?thesis
    by (simp add: tinit_repo_setup_svc_starton_def)
qed

lemma setup_stopon:
  assumes ok: "graph_ok w" and i: "is_svc w i"
    and names: "conf_get_stopon (s_conf (svc_at w i)) = Some a" "names_ok a" "strarr_nr a \<le> poll_room Stopon w i"
  shows "tinit_repo_setup_svc_stopon i w =
    fold (\<lambda>s. svc_register_stopon_obsrv s i) (targets (world_confs w) a) w"
proof -
  have "fold (setup_link svc_register_stopon_obsrv a i) [0..<strarr_nr a] w =
      fold (\<lambda>s. svc_register_stopon_obsrv s i) (targets (world_confs w) a) w"
    unfolding targets_def
    using assms named_less
    by (intro stopon.fold_links)
      (fastforce simp: confs_svc setup_link_def names_ok_def search_byname_named bind_eq_Some_conv
        split: option.split)+
  with names show ?thesis
    by (simp add: tinit_repo_setup_svc_stopon_def)
qed

section \<open>Linking the whole repository\<close>

text \<open>A service as \<open>svc_init\<close> leaves it, and a repository of such services.\<close>

definition fresh_svc :: "svc_id \<Rightarrow> svc \<Rightarrow> bool" where
  "fresh_svc i s \<longleftrightarrow> (\<exists>m m'. svc_init i (s_conf s) m = (Inr s, m'))"

definition fresh_repo :: "'k world \<Rightarrow> bool" where
  "fresh_repo w \<longleftrightarrow> \<not> w_fault w \<and> (\<forall>i. is_svc w i \<longrightarrow> fresh_svc i (svc_at w i) \<and> conf_wf (s_conf (svc_at w i)))"

lemma svc_init_notif_obsrv_ok:
  assumes "svc_init_notif_obsrv i conf m = (0, p, m')"
  shows "p = map_option (\<lambda>a. \<lparr>p_cnt = 0, p_nr = strarr_nr a,
    p_members = replicate (strarr_nr a) \<lparr>n_src = None, n_sink = i\<rparr>\<rparr>) conf"
  using assms
  by (auto simp: svc_init_notif_obsrv_def notif_create_sink_poll_def split: option.splits prod.splits bool.splits)

lemma svc_init_ok:
  assumes "svc_init i c m = (Inr s, m')"
  shows "s = (idle_svc c)\<lparr>
    s_starton_notif := map_option (\<lambda>a. \<lparr>p_cnt = 0, p_nr = strarr_nr a,
      p_members = replicate (strarr_nr a) \<lparr>n_src = None, n_sink = i\<rparr>\<rparr>) (conf_get_starton c),
    s_stopon_notif := map_option (\<lambda>a. \<lparr>p_cnt = 0, p_nr = strarr_nr a,
      p_members = replicate (strarr_nr a) \<lparr>n_src = None, n_sink = i\<rparr>\<rparr>) (conf_get_stopon c)\<rparr>"
proof -
  obtain e1 p1 m1 where 1: "svc_init_notif_obsrv i (conf_get_starton c) m = (e1, p1, m1)"
    by (metis prod_cases3)
  obtain e2 p2 m2 where 2: "svc_init_notif_obsrv i (conf_get_stopon c) m1 = (e2, p2, m2)"
    by (metis prod_cases3)
  have "e1 = 0" "e2 = 0"
    using assms 1 2 by (auto simp: svc_init_def split: if_splits)
  with assms 1 2 show ?thesis
    using svc_init_notif_obsrv_ok [of i "conf_get_starton c" m p1 m1]
      svc_init_notif_obsrv_ok [of i "conf_get_stopon c" m1 p2 m2]
    by (simp add: svc_init_def idle_svc_def)
qed

lemma fresh_polls:
  assumes "fresh_svc i s"
  shows "svc_obsrv d s = []"
    "svc_poll Starton s = map_option (\<lambda>a. \<lparr>p_cnt = 0, p_nr = strarr_nr a,
      p_members = replicate (strarr_nr a) \<lparr>n_src = None, n_sink = i\<rparr>\<rparr>) (conf_get_starton (s_conf s))"
    "svc_poll Stopon s = map_option (\<lambda>a. \<lparr>p_cnt = 0, p_nr = strarr_nr a,
      p_members = replicate (strarr_nr a) \<lparr>n_src = None, n_sink = i\<rparr>\<rparr>) (conf_get_stopon (s_conf s))"
    "conf_wf (s_conf s) \<Longrightarrow> svc_wf s"
proof -
  obtain m m' where "svc_init i (s_conf s) m = (Inr s, m')"
    using assms by (auto simp: fresh_svc_def)
  note s = svc_init_ok [OF this]
  show "svc_obsrv d s = []"
    by (subst s) (cases d; simp add: svc_obsrv_def idle_svc_def)
  show "svc_poll Starton s = map_option (\<lambda>a. \<lparr>p_cnt = 0, p_nr = strarr_nr a,
      p_members = replicate (strarr_nr a) \<lparr>n_src = None, n_sink = i\<rparr>\<rparr>) (conf_get_starton (s_conf s))"
    "svc_poll Stopon s = map_option (\<lambda>a. \<lparr>p_cnt = 0, p_nr = strarr_nr a,
      p_members = replicate (strarr_nr a) \<lparr>n_src = None, n_sink = i\<rparr>\<rparr>) (conf_get_stopon (s_conf s))"
    by (subst s, simp add: svc_poll_def)+
  show "conf_wf (s_conf s) \<Longrightarrow> svc_wf s"
    by (subst s) (simp add: svc_wf_def idle_svc_def)
qed

lemma fresh_graph:
  assumes w: "fresh_repo w"
  shows "graph_ok w" "edges d w = {}"
proof -
  have fresh: "fresh_svc i (svc_at w i)" "conf_wf (s_conf (svc_at w i))" if "is_svc w i" for i
    using w that by (simp_all add: fresh_repo_def)
  have poll: "p_cnt q = 0 \<and> poll_ok d w i q" if "is_svc w i" "svc_poll d (svc_at w i) = Some q" for d i q
    using fresh_polls(2,3) [OF fresh(1) [OF that(1)]] that(2)
    by (cases d) (auto simp: poll_ok_def)
  have "links_ok w"
    using poll fresh_polls(1) [OF fresh(1)] by (simp add: links_ok_def)
  moreover have "svcs_wf w"
    using fresh_polls(4) [OF fresh(1)] fresh(2) by (simp add: svcs_wf_def)
  moreover have e: "edges d w = {}" for d
    using poll by (fastforce simp: edges_def awaited_def poll_srcs_def split: option.splits)
  ultimately show "graph_ok w"
    using w by (simp add: graph_ok_def world_ok_def fresh_repo_def acyclic_def)
  show "edges d w = {}" by (rule e)
qed

text \<open>One service linked: each link asked for is made, or would have closed a loop.\<close>

definition link_made :: "dep \<Rightarrow> 'k world \<Rightarrow> svc_id \<Rightarrow> svc_id \<Rightarrow> bool" where
  "link_made d w i s \<longleftrightarrow> (i, s) \<in> edges d w \<or> (s, i) \<in> (edges d w)\<^sup>*"

lemma link_made_mono: "edges d w \<subseteq> edges d w' \<Longrightarrow> link_made d w i s \<Longrightarrow> link_made d w' i s"
  using rtrancl_mono [of "edges d w" "edges d w'"] by (auto simp: link_made_def)

definition linked_ok :: "'k world \<Rightarrow> svc_id \<Rightarrow> bool" where
  "linked_ok w i \<longleftrightarrow>
     (\<forall>a. conf_get_starton (s_conf (svc_at w i)) = Some a \<longrightarrow> (\<forall>s \<in> set (targets (world_confs w) a).
        link_made Starton w i s)) \<and>
     (\<forall>a. conf_get_stopon (s_conf (svc_at w i)) = Some a \<longrightarrow> (\<forall>s \<in> set (targets (world_confs w) a).
        link_made Stopon w i s))"

definition room_ok :: "'k world \<Rightarrow> svc_id \<Rightarrow> bool" where
  "room_ok w i \<longleftrightarrow>
     (\<forall>a. conf_get_starton (s_conf (svc_at w i)) = Some a \<longrightarrow> names_ok a \<and> strarr_nr a \<le> poll_room Starton w i) \<and>
     (\<forall>a. conf_get_stopon (s_conf (svc_at w i)) = Some a \<longrightarrow> names_ok a \<and> strarr_nr a \<le> poll_room Stopon w i)"

definition grown :: "svc_id \<Rightarrow> 'k world \<Rightarrow> 'k world \<Rightarrow> bool" where
  "grown i w w' \<longleftrightarrow> graph_ok w' \<and> world_confs w' = world_confs w \<and>
     (\<forall>d. edges d w \<subseteq> edges d w') \<and> (\<forall>d j. j \<noteq> i \<longrightarrow> poll_room d w j \<le> poll_room d w' j)"

lemma confs_at: "world_confs w' = world_confs w \<Longrightarrow> is_svc w i \<Longrightarrow> s_conf (svc_at w' i) = s_conf (svc_at w i)"
  by (metis confs_svc nth_map svc_at_def world_confs_def length_map)

lemma starton_one:
  assumes ok: "graph_ok w" and i: "is_svc w i" and room: "room_ok w i"
  defines "w' \<equiv> tinit_repo_setup_svc_starton i w"
  shows "grown i w w'" "poll_room Stopon w' = poll_room Stopon w"
    "conf_get_starton (s_conf (svc_at w i)) = Some a \<Longrightarrow> s \<in> set (targets (world_confs w) a) \<Longrightarrow>
       link_made Starton w' i s"
proof -
  have "grown i w w' \<and> poll_room Stopon w' = poll_room Stopon w \<and>
    (\<forall>a. conf_get_starton (s_conf (svc_at w i)) = Some a \<longrightarrow> (\<forall>s \<in> set (targets (world_confs w) a).
       link_made Starton w' i s))"
  proof (cases "conf_get_starton (s_conf (svc_at w i))")
    case None
    then show ?thesis
      using ok by (simp add: w'_def tinit_repo_setup_svc_starton_def grown_def)
  next
    case (Some a)
    then have a: "names_ok a" "strarr_nr a \<le> poll_room Starton w i"
      using room by (simp_all add: room_ok_def)
    have len: "i < length (world_confs w)"
      using i by (simp add: confs_svc)
    note w' = setup_starton [OF ok i Some a, folded w'_def]
    note all = starton.setup_all [OF ok len a(2), folded w']
    have "edges d w \<subseteq> edges d w'" "j \<noteq> i \<Longrightarrow> poll_room d w j \<le> poll_room d w' j" for d j
      using all(3-5) by (cases d; simp)+
    with all Some show ?thesis
      by (simp add: grown_def link_made_def)
  qed
  then show "grown i w w'" "poll_room Stopon w' = poll_room Stopon w"
    "conf_get_starton (s_conf (svc_at w i)) = Some a \<Longrightarrow> s \<in> set (targets (world_confs w) a) \<Longrightarrow>
       link_made Starton w' i s"
    by simp_all
qed

lemma stopon_one:
  assumes ok: "graph_ok w" and i: "is_svc w i"
    and room: "\<And>a. conf_get_stopon (s_conf (svc_at w i)) = Some a \<Longrightarrow>
      names_ok a \<and> strarr_nr a \<le> poll_room Stopon w i"
  defines "w' \<equiv> tinit_repo_setup_svc_stopon i w"
  shows "grown i w w'"
    "conf_get_stopon (s_conf (svc_at w i)) = Some a \<Longrightarrow> s \<in> set (targets (world_confs w) a) \<Longrightarrow>
       link_made Stopon w' i s"
proof -
  have "grown i w w' \<and>
    (\<forall>a. conf_get_stopon (s_conf (svc_at w i)) = Some a \<longrightarrow> (\<forall>s \<in> set (targets (world_confs w) a).
       link_made Stopon w' i s))"
  proof (cases "conf_get_stopon (s_conf (svc_at w i))")
    case None
    then show ?thesis
      using ok by (simp add: w'_def tinit_repo_setup_svc_stopon_def grown_def)
  next
    case (Some a)
    then have a: "names_ok a" "strarr_nr a \<le> poll_room Stopon w i"
      using room by simp_all
    have len: "i < length (world_confs w)"
      using i by (simp add: confs_svc)
    note w' = setup_stopon [OF ok i Some a, folded w'_def]
    note all = stopon.setup_all [OF ok len a(2), folded w']
    have "edges d w \<subseteq> edges d w'" "j \<noteq> i \<Longrightarrow> poll_room d w j \<le> poll_room d w' j" for d j
      using all(3-5) by (cases d; simp)+
    with all Some show ?thesis
      by (simp add: grown_def link_made_def)
  qed
  then show "grown i w w'"
    "conf_get_stopon (s_conf (svc_at w i)) = Some a \<Longrightarrow> s \<in> set (targets (world_confs w) a) \<Longrightarrow>
       link_made Stopon w' i s"
    by simp_all
qed

lemma grown_trans: "grown i w v \<Longrightarrow> grown i v w' \<Longrightarrow> grown i w w'"
  unfolding grown_def by (simp, blast intro: order_trans)

lemma linked_grown:
  assumes "linked_ok w j" "grown i w w'" "is_svc w j"
  shows "linked_ok w' j"
proof -
  have c: "world_confs w' = world_confs w" and sub: "\<And>d. edges d w \<subseteq> edges d w'"
    using assms(2) by (simp_all add: grown_def)
  have "link_made d w j s \<Longrightarrow> link_made d w' j s" for d s
    by (rule link_made_mono [OF sub])
  with assms(1) show ?thesis
    unfolding linked_ok_def c confs_at [OF c assms(3)] by blast
qed

lemma setup_one:
  assumes ok: "graph_ok w" and i: "is_svc w i" and room: "room_ok w i"
  defines "w' \<equiv> tinit_repo_setup_svc_stopon i (tinit_repo_setup_svc_starton i w)"
  shows "grown i w w'" "linked_ok w' i"
proof -
  let ?v = "tinit_repo_setup_svc_starton i w"
  note v = starton_one [OF ok i room]
  have vc: "world_confs ?v = world_confs w" and okv: "graph_ok ?v"
    using v(1) by (simp_all add: grown_def)
  have iv: "is_svc ?v i"
    using i by (simp add: vc flip: confs_svc)
  have ci: "s_conf (svc_at ?v i) = s_conf (svc_at w i)"
    using confs_at [OF vc i] .
  have "names_ok a \<and> strarr_nr a \<le> poll_room Stopon ?v i" if "conf_get_stopon (s_conf (svc_at ?v i)) = Some a" for a
    using that room by (simp add: ci v(2) room_ok_def)
  note w' = stopon_one [OF okv iv this, folded w'_def]
  show g: "grown i w w'"
    using grown_trans [OF v(1) w'(1)] .
  have sub: "edges Starton ?v \<subseteq> edges Starton w'"
    using w'(1) by (simp add: grown_def)
  have cw: "s_conf (svc_at w' i) = s_conf (svc_at w i)" "world_confs w' = world_confs w"
    using g confs_at [of w' w i] i by (simp_all add: grown_def)
  have "link_made Starton w' i s"
    if "conf_get_starton (s_conf (svc_at w i)) = Some a" "s \<in> set (targets (world_confs w) a)" for a s
    using link_made_mono [OF sub v(3) [OF that]] .
  with w'(2) show "linked_ok w' i"
    by (simp add: linked_ok_def cw vc ci)
qed

lemma room_grown:
  assumes "room_ok w j" "grown i w w'" "is_svc w j" "j \<noteq> i"
  shows "room_ok w' j"
proof -
  have c: "world_confs w' = world_confs w" and room: "\<And>d. poll_room d w j \<le> poll_room d w' j"
    using assms(2,4) by (simp_all add: grown_def)
  show ?thesis
    using assms(1) order_trans [OF _ room] unfolding room_ok_def confs_at [OF c assms(3)] by blast
qed

lemma fresh_room:
  assumes "fresh_repo w" "is_svc w i"
    and "\<forall>a. conf_get_starton (s_conf (svc_at w i)) = Some a \<or> conf_get_stopon (s_conf (svc_at w i)) = Some a
      \<longrightarrow> names_ok a"
  shows "room_ok w i"
proof -
  have "fresh_svc i (svc_at w i)"
    using assms by (simp add: fresh_repo_def)
  from fresh_polls(2,3) [OF this] assms(3) show ?thesis
    by (simp add: room_ok_def poll_room_def)
qed

lemma setup_upto:
  assumes w: "graph_ok w" "\<forall>i. is_svc w i \<longrightarrow> room_ok w i" and "n \<le> length (w_svcs w)"
  defines "s \<equiv> \<lambda>i w. tinit_repo_setup_svc_stopon i (tinit_repo_setup_svc_starton i w)"
  shows "graph_ok (fold s [0..<n] w) \<and> world_confs (fold s [0..<n] w) = world_confs w \<and>
    (\<forall>i < n. linked_ok (fold s [0..<n] w) i) \<and>
    (\<forall>i. n \<le> i \<longrightarrow> is_svc w i \<longrightarrow> room_ok (fold s [0..<n] w) i)"
  using assms(3)
proof (induction n)
  case 0
  then show ?case using w by simp
next
  case (Suc n)
  let ?v = "fold s [0..<n] w"
  have IH: "graph_ok ?v" "world_confs ?v = world_confs w" "\<And>i. i < n \<Longrightarrow> linked_ok ?v i"
    "\<And>i. n \<le> i \<Longrightarrow> is_svc w i \<Longrightarrow> room_ok ?v i"
    using Suc by simp_all
  have same: "is_svc ?v i = is_svc w i" for i
    by (simp add: IH(2) flip: confs_svc)
  have n: "is_svc w n"
    using Suc.prems by (simp add: is_svc_def)
  have iv: "is_svc ?v n"
    using same n by blast
  have one: "grown n ?v (s n ?v)" "linked_ok (s n ?v) n"
    using setup_one [OF IH(1) iv IH(4) [OF order_refl n]] by (simp_all add: s_def)
  have "linked_ok (s n ?v) i" if "i < Suc n" for i
  proof (cases "i = n")
    case False
    have "is_svc ?v i"
      unfolding same using that n by (simp add: is_svc_def)
    with False that show ?thesis
      by (intro linked_grown [OF IH(3) one(1)]) simp_all
  qed (use one(2) in simp)
  moreover have "room_ok (s n ?v) i" if "Suc n \<le> i" "is_svc w i" for i
    using that by (intro room_grown [OF IH(4) one(1)]) (auto simp: same)
  ultimately show ?case
    using one(1) IH(2) by (simp add: grown_def)
qed

lemma setup_linked:
  assumes "fresh_repo w"
    and "\<forall>i a. is_svc w i \<longrightarrow> conf_get_starton (s_conf (svc_at w i)) = Some a \<or>
      conf_get_stopon (s_conf (svc_at w i)) = Some a \<longrightarrow> names_ok a"
  shows "graph_ok (tinit_repo_setup w) \<and> world_confs (tinit_repo_setup w) = world_confs w \<and>
    (\<forall>i. is_svc w i \<longrightarrow> linked_ok (tinit_repo_setup w) i)"
proof -
  have "\<forall>i. is_svc w i \<longrightarrow> room_ok w i"
    using fresh_room [OF assms(1)] assms(2) by blast
  from setup_upto [OF fresh_graph(1) [OF assms(1)] this order_refl] show ?thesis
    by (simp add: tinit_repo_setup_def is_svc_def)
qed

text \<open>
  C14. Linking a freshly loaded repository always succeeds and leaves an order: no assertion fails, no
  poll overflows, neither relation has a loop, and for every name in a service's start-on (or
  stop-on) list that is the name of a service, the link is made unless the two are already linked
  the other way round through the rest of the relation.
\<close>

theorem repo_setup_links:
  assumes "fresh_repo w"
    and "\<forall>i a. is_svc w i \<longrightarrow> conf_get_starton (s_conf (svc_at w i)) = Some a \<or>
      conf_get_stopon (s_conf (svc_at w i)) = Some a \<longrightarrow> names_ok a"
  shows "graph_ok (tinit_repo_setup w) \<and> world_confs (tinit_repo_setup w) = world_confs w \<and>
    (\<forall>i. is_svc w i \<longrightarrow> linked_ok (tinit_repo_setup w) i)"
  using assms by (rule setup_linked)

definition names_of :: "string list \<Rightarrow> strarr" where
  "names_of ns = \<lparr>sa_nr = length ns, sa_strings = map Some ns\<rparr>"

definition loaded_svc :: "svc_id \<Rightarrow> conf_svc \<Rightarrow> svc" where
  "loaded_svc i c = (case fst (svc_init i c \<lparr>oom = [], live = 0, bad_free = False\<rparr>) of Inr s \<Rightarrow> s)"

text \<open>A third service that starts on itself and on \<open>net\<close>, which asks for it in turn.\<close>

definition loop_conf :: conf_svc where
  "loop_conf = web_conf\<lparr>c_name := Some ''loop'', c_starton := Some (names_of [''loop'', ''net'', ''none''])\<rparr>"

definition loaded_demo :: "sim world" where
  "loaded_demo = world_of [loaded_svc 0 (net_conf\<lparr>c_starton := Some (names_of [''loop''])\<rparr>), loaded_svc 1 loop_conf]"

lemma loaded_svc_init:
  "svc_init i c \<lparr>oom = [], live = 0, bad_free = False\<rparr> =
     (Inr (loaded_svc i c), snd (svc_init i c \<lparr>oom = [], live = 0, bad_free = False\<rparr>))"
  by (auto simp: loaded_svc_def svc_init_def svc_init_notif_obsrv_def notif_create_sink_poll_def
      mem_alloc_def split: option.split)

lemma loaded_svc_fresh: "fresh_svc i (loaded_svc i c)" "s_conf (loaded_svc i c) = c"
proof -
  note s = svc_init_ok [OF loaded_svc_init]
  show c: "s_conf (loaded_svc i c) = c"
    by (subst s) (simp add: idle_svc_def)
  show "fresh_svc i (loaded_svc i c)"
    unfolding fresh_svc_def c using loaded_svc_init by blast
qed

theorem repo_setup_links_witness:
  "graph_ok (tinit_repo_setup loaded_demo) \<and> linked_ok (tinit_repo_setup loaded_demo) 1"
proof -
  have two: "is_svc loaded_demo i \<longleftrightarrow> i = 0 \<or> i = 1" for i
    by (auto simp: loaded_demo_def)
  have "svc_at loaded_demo 0 = loaded_svc 0 (net_conf\<lparr>c_starton := Some (names_of [''loop''])\<rparr>)"
    "svc_at loaded_demo 1 = loaded_svc 1 loop_conf" "\<not> w_fault loaded_demo"
    by (simp_all add: loaded_demo_def) (simp add: world_of_def)
  moreover have "conf_wf (net_conf\<lparr>c_starton := Some (names_of [''loop''])\<rparr>)" "conf_wf loop_conf"
    using demo_confs_wf by (simp_all add: conf_wf_def conf_defs loop_conf_def)
  ultimately have "fresh_repo loaded_demo" "\<forall>i a. is_svc loaded_demo i \<longrightarrow>
      conf_get_starton (s_conf (svc_at loaded_demo i)) = Some a \<or>
      conf_get_stopon (s_conf (svc_at loaded_demo i)) = Some a \<longrightarrow> names_ok a"
    by (auto simp: fresh_repo_def two loaded_svc_fresh conf_get_starton_def conf_get_stopon_def loop_conf_def
        net_conf_def web_conf_def empty_conf_def names_ok_def names_of_def strarr_get_def strarr_nr_def
        less_Suc_eq)
  then show ?thesis
    using repo_setup_links two by blast
qed

end
