(* ===== verification/Sigchan.thy ===== *)
theory Sigchan imports Repo begin

text \<open>
  The signal channel (\<open>sigchan.c\<close>): reaping children, the dispatcher while the system runs and the
  one that counts services down while it stops. \<open>waitid(2)\<close> is the sequence of its results, read
  from front to back by successive calls (nothing left means no child to reap); \<open>usig_read_fd\<close>
  and \<open>upoll\<close> are arguments.
\<close>

datatype cld = CLD_EXITED | CLD_KILLED | CLD_DUMPED | CLD_TRAPPED | CLD_STOPPED | CLD_CONTINUED

record siginfo =
  si_pid :: int
  si_signo :: int
  si_code :: cld
  si_status :: int

type_synonym waits = "(int + siginfo) list"

text \<open>What \<open>signalfd\<close> reports of a signal.\<close>

record sfd_info =
  ssi_signo :: int
  ssi_code :: int

abbreviation (input) SI_USER :: int where "SI_USER \<equiv> 0"
abbreviation (input) SI_QUEUE :: int where "SI_QUEUE \<equiv> -1"

datatype dispatcher = Dispatch_none | Dispatch_started | Dispatch_stopping

record sigchan =
  ch_dispatch :: dispatcher
  ch_polled :: bool        \<comment> \<open>registered with \<open>upoll\<close>\<close>
  ch_fd :: int
  ch_signo :: int
  ch_cnt :: "32 word"

definition tinit_sigchan_get_signo :: "sigchan \<Rightarrow> int" where
  "tinit_sigchan_get_signo c = ch_signo c"

section \<open>Reaping\<close>

text \<open>One turn of the loop for a reaped child whose service is \<open>i\<close>.\<close>

definition reap_svc :: "'k ext \<Rightarrow> siginfo \<Rightarrow> svc_id \<Rightarrow> 'k world \<Rightarrow> 'k world" where
  "reap_svc E info i w = (case si_code info of
      CLD_EXITED \<Rightarrow> svc_handle_evts E i SVC_EXIT_EVT (si_status info) w
    | CLD_KILLED \<Rightarrow> svc_handle_evts E i SVC_EXIT_EVT (- si_status info) w
    | CLD_DUMPED \<Rightarrow> svc_handle_evts E i SVC_EXIT_EVT (- si_status info) w
    | _ \<Rightarrow> fault w)"

fun tinit_sigchan_handle_sigchld :: "'k ext \<Rightarrow> waits \<Rightarrow> nat \<Rightarrow> 'k world \<Rightarrow> nat \<times> waits \<times> 'k world" where
  "tinit_sigchan_handle_sigchld E [] cnt w = (cnt, [], w)"
| "tinit_sigchan_handle_sigchld E (Inl err # ws) cnt w =
     (cnt, ws, if err \<noteq> ECHILD then fault w else w)"
| "tinit_sigchan_handle_sigchld E (Inr info # ws) cnt w =
     (if si_pid info = 0 \<or> si_signo info = 0 then (cnt, ws, w)
      else if si_signo info \<noteq> SIGCHLD then (cnt, ws, fault w)
      else case tinit_repo_search_bypid w (si_pid info) of
        None \<Rightarrow> tinit_sigchan_handle_sigchld E ws cnt w
      | Some i \<Rightarrow>
          (let w1 = reap_svc E info i w
           in tinit_sigchan_handle_sigchld E ws
                (if s_state (svc_at w1 i) = TINIT_SVC_STOPPED_STAT then Suc cnt else cnt) w1))"

section \<open>Dispatchers\<close>

text \<open>The loop over the signals read, of the dispatcher installed by \<open>tinit_sigchan_start\<close>.\<close>

fun started_loop :: "'k ext \<Rightarrow> sfd_info list \<Rightarrow> int \<Rightarrow> sigchan \<Rightarrow> waits \<Rightarrow> 'k world \<Rightarrow>
    int \<times> sigchan \<times> waits \<times> 'k world" where
  "started_loop E [] ret c ws w = (ret, c, ws, w)"
| "started_loop E (info # infos) ret c ws w =
     (if ssi_signo info = SIGCHLD then
        (case tinit_sigchan_handle_sigchld E ws 0 w of
           (_, ws1, w1) \<Rightarrow> started_loop E infos ret c ws1 w1)
      else if ssi_signo info \<in> {SIGTERM, SIGUSR1, SIGUSR2, SIGPWR} then
        (if ssi_code info \<noteq> SI_USER \<and> ssi_code info \<noteq> SI_QUEUE then started_loop E infos ret c ws w
         else if ch_signo c = 0 then
           started_loop E infos (- ESHUTDOWN) (c\<lparr>ch_signo := ssi_signo info\<rparr>) ws w
         else started_loop E infos ret c ws w)
      else started_loop E infos ret c ws (fault w))"

definition tinit_sigchan_dispatch_started :: "'k ext \<Rightarrow> int + sfd_info list \<Rightarrow> sigchan \<Rightarrow> waits \<Rightarrow> 'k world \<Rightarrow>
    int \<times> sigchan \<times> waits \<times> 'k world" where
  "tinit_sigchan_dispatch_started E read c ws w = (case read of
      Inl err \<Rightarrow> (if err = - EAGAIN then 0 else err, c, ws, w)
    | Inr infos \<Rightarrow> started_loop E infos 0 (c\<lparr>ch_signo := 0\<rparr>) ws w)"

fun stopping_loop :: "'k ext \<Rightarrow> sfd_info list \<Rightarrow> sigchan \<Rightarrow> waits \<Rightarrow> 'k world \<Rightarrow>
    int \<times> sigchan \<times> waits \<times> 'k world" where
  "stopping_loop E [] c ws w = (0, c, ws, w)"
| "stopping_loop E (info # infos) c ws w =
     (if ssi_signo info = SIGCHLD then
        (case tinit_sigchan_handle_sigchld E ws 0 w of
           (cnt, ws1, w1) \<Rightarrow>
             let w2 = (if cnt \<le> unat (ch_cnt c) then w1 else fault w1);
                 c1 = c\<lparr>ch_cnt := ch_cnt c - of_nat cnt\<rparr>
             in if ch_cnt c1 = 0 then (- ESHUTDOWN, c1\<lparr>ch_polled := False\<rparr>, ws1, w2)
                else stopping_loop E infos c1 ws1 w2)
      else stopping_loop E infos c ws w)"

definition tinit_sigchan_dispatch_stopping :: "'k ext \<Rightarrow> int + sfd_info list \<Rightarrow> sigchan \<Rightarrow> waits \<Rightarrow> 'k world \<Rightarrow>
    int \<times> sigchan \<times> waits \<times> 'k world" where
  "tinit_sigchan_dispatch_stopping E read c ws w =
     (let w0 = (if ch_cnt c = 0 then fault w else w)
      in case read of
        Inl err \<Rightarrow> (if err = - EAGAIN then 0 else err, c, ws, w0)
      | Inr infos \<Rightarrow> stopping_loop E infos c ws w0)"

section \<open>Opening, starting, stopping the channel\<close>

definition tinit_sigchan_start :: "int \<Rightarrow> sigchan \<Rightarrow> int \<times> sigchan" where
  "tinit_sigchan_start registered c =
     (let c1 = c\<lparr>ch_dispatch := Dispatch_started\<rparr>
      in if registered \<noteq> 0 then (registered, c1) else (0, c1\<lparr>ch_polled := True\<rparr>))"

definition tinit_sigchan_stop :: "sigchan \<Rightarrow> nat \<Rightarrow> sigchan" where
  "tinit_sigchan_stop c cnt = c\<lparr>ch_dispatch := Dispatch_stopping, ch_cnt := of_nat cnt\<rparr>"

definition tinit_sigchan_open :: "int + int \<Rightarrow> sigchan \<Rightarrow> int \<times> sigchan" where
  "tinit_sigchan_open opened c = (case opened of
      Inl err \<Rightarrow> (- err, c)
    | Inr fd \<Rightarrow> (0, c\<lparr>ch_fd := fd\<rparr>))"

section \<open>Reaping within the contract of supervision\<close>

lemma bypid_Some:
  assumes "tinit_repo_search_bypid w pid = Some i"
  shows "is_svc w i" "s_child (svc_at w i) = pid"
  using assms search_svc_Some by (auto simp: tinit_repo_search_bypid_def)

text \<open>The exit of a known child is never one of a stopped service.\<close>

lemma bypid_expected:
  assumes "world_ok w" "tinit_repo_search_bypid w pid = Some i" "0 < pid"
  shows "evt_expected (svc_at w i) SVC_EXIT_EVT"
  using world_okD(3) [OF assms(1) bypid_Some(1) [OF assms(2)]] bypid_Some(2) [OF assms(2)] assms(3)
  by (auto simp: svc_wf_def evt_expected_def)

text \<open>
  The documented behaviour of \<open>waitid(P_ALL, WNOHANG | WEXITED)\<close>: it fails with \<open>ECHILD\<close> only,
  and reports children that have exited or were killed.
\<close>

definition wait_ok :: "int + siginfo \<Rightarrow> bool" where
  "wait_ok r \<longleftrightarrow> (case r of
      Inl err \<Rightarrow> err = ECHILD
    | Inr info \<Rightarrow> si_pid info = 0 \<or> si_signo info = 0 \<or>
        0 < si_pid info \<and> si_signo info = SIGCHLD \<and> si_code info \<in> {CLD_EXITED, CLD_KILLED, CLD_DUMPED})"

definition waits_ok :: "waits \<Rightarrow> bool" where
  "waits_ok ws \<longleftrightarrow> (\<forall>r \<in> set ws. wait_ok r)"

lemma reap_is_evts:
  assumes "wait_ok (Inr info)" "si_pid info \<noteq> 0" "si_signo info \<noteq> 0"
  shows "\<exists>st. reap_svc E info i w = svc_handle_evts E i SVC_EXIT_EVT st w"
  using assms by (auto simp: wait_ok_def reap_svc_def)

context svc_ops begin

lemma reap:
  assumes "laws E" "world_ok w" "wait_ok (Inr info)" "si_pid info \<noteq> 0" "si_signo info \<noteq> 0"
    and "tinit_repo_search_bypid w (si_pid info) = Some i"
  shows "R E w (reap_svc E info i w) \<and> world_ok (reap_svc E info i w)"
proof -
  obtain st where st: "reap_svc E info i w = svc_handle_evts E i SVC_EXIT_EVT st w"
    using reap_is_evts [OF assms(3-5)] by blast
  have "0 < si_pid info"
    using assms(3-5) by (auto simp: wait_ok_def)
  note evt = bypid_expected [OF assms(2,6) this] and i = bypid_Some(1) [OF assms(6)]
  show ?thesis
    unfolding st using evts [OF assms(1,2) i evt] wf.ops.evts [OF laws_vfork [OF assms(1)] assms(2) i evt] assms(2)
    by blast
qed

lemma sigchld:
  "laws E \<Longrightarrow> world_ok w \<Longrightarrow> waits_ok ws \<Longrightarrow> tinit_sigchan_handle_sigchld E ws cnt w = (n, ws', w') \<Longrightarrow>
     R E w w' \<and> world_ok w' \<and> waits_ok ws'"
proof (induction E ws cnt w rule: tinit_sigchan_handle_sigchld.induct)
  case (1 E cnt w)
  then show ?case by (simp add: R_refl)
next
  case (2 E err ws cnt w)
  then show ?case by (auto simp: R_refl waits_ok_def wait_ok_def split: if_splits)
next
  case (3 E info ws cnt w)
  have ok: "wait_ok (Inr info)" "waits_ok ws"
    using "3.prems"(3) by (simp_all add: waits_ok_def)
  show ?case
  proof (cases "si_pid info = 0 \<or> si_signo info = 0")
    case True
    with "3.prems" ok show ?thesis
      by (auto simp: R_refl)
  next
    case False
    then have sig: "si_signo info = SIGCHLD" "si_pid info \<noteq> 0" "si_signo info \<noteq> 0"
      using ok(1) by (auto simp: wait_ok_def)
    show ?thesis
    proof (cases "tinit_repo_search_bypid w (si_pid info)")
      case None
      with "3.IH"(1) [OF False _ None] "3.prems" ok sig show ?thesis
        by simp
    next
      case (Some i)
      note one = reap [OF "3.prems"(1,2) ok(1) sig(2,3) Some]
      from "3.IH"(2) [OF False _ Some refl "3.prems"(1) _ ok(2)] one "3.prems"(4) Some sig show ?thesis
        using R_trans by (simp add: Let_def) blast
    qed
  qed
qed

lemma started:
  "laws E \<Longrightarrow> world_ok w \<Longrightarrow> waits_ok ws \<Longrightarrow>
     \<forall>info \<in> set infos. ssi_signo info \<in> {SIGCHLD, SIGTERM, SIGUSR1, SIGUSR2, SIGPWR} \<Longrightarrow>
     started_loop E infos ret c ws w = (r, c', ws', w') \<Longrightarrow> R E w w' \<and> world_ok w' \<and> waits_ok ws'"
proof (induction E infos ret c ws w rule: started_loop.induct)
  case (1 E ret c ws w)
  then show ?case by (simp add: R_refl)
next
  case (2 E info infos ret c ws w)
  show ?case
  proof (cases "ssi_signo info = SIGCHLD")
    case True
    obtain n ws1 w1 where h: "tinit_sigchan_handle_sigchld E ws 0 w = (n, ws1, w1)"
      by (metis prod_cases3)
    note one = sigchld [OF "2.prems"(1-3) h]
    from "2.IH"(1) [OF True h [symmetric] refl "2.prems"(1)] one "2.prems"(4,5) True h show ?thesis
      using R_trans by simp blast
  next
    case False
    with 2 show ?thesis
      by (simp split: if_splits)
  qed
qed

end

section \<open>What the running dispatcher reports\<close>

definition shutdown_signal :: "sfd_info \<Rightarrow> bool" where
  "shutdown_signal info \<longleftrightarrow> ssi_signo info \<in> {SIGTERM, SIGUSR1, SIGUSR2, SIGPWR} \<and>
     (ssi_code info = SI_USER \<or> ssi_code info = SI_QUEUE)"

lemma shutdown_signal_simps:
  "shutdown_signal info \<Longrightarrow> ssi_signo info \<noteq> SIGCHLD \<and> ssi_signo info \<noteq> 0"
  by (auto simp: shutdown_signal_def)

text \<open>\<open>signo\<close> is zero until the first shutdown signal, and stays that signal.\<close>

lemma started_loop_result:
  assumes "started_loop E infos ret c ws w = (r, c', ws', w')"
  shows "r = (if ch_signo c = 0 \<and> filter shutdown_signal infos \<noteq> [] then - ESHUTDOWN else ret) \<and>
    c' = c\<lparr>ch_signo := (if ch_signo c = 0 \<and> filter shutdown_signal infos \<noteq> []
      then ssi_signo (hd (filter shutdown_signal infos)) else ch_signo c)\<rparr>"
  using assms
proof (induction E infos ret c ws w rule: started_loop.induct)
  case (1 E ret c ws w)
  then show ?case by simp
next
  case (2 E info infos ret c ws w)
  consider (chld) "ssi_signo info = SIGCHLD" | (shut) "shutdown_signal info"
    | (other) "ssi_signo info \<noteq> SIGCHLD" "\<not> shutdown_signal info"
    by blast
  then show ?case
  proof cases
    case chld
    obtain n ws1 w1 where h: "tinit_sigchan_handle_sigchld E ws 0 w = (n, ws1, w1)"
      by (metis prod_cases3)
    have "\<not> shutdown_signal info"
      using chld shutdown_signal_simps by blast
    with "2.IH"(1) [OF chld h [symmetric] refl] "2.prems" chld h show ?thesis
      by simp
  next
    case shut
    note ne = shutdown_signal_simps [OF shut]
    have mem: "ssi_signo info \<in> {SIGTERM, SIGUSR1, SIGUSR2, SIGPWR}"
      and code: "\<not> (ssi_code info \<noteq> SI_USER \<and> ssi_code info \<noteq> SI_QUEUE)"
      using shut by (auto simp: shutdown_signal_def)
    show ?thesis
    proof (cases "ch_signo c = 0")
      case True
      with "2.IH"(3) [OF _ mem code True] "2.prems" ne mem shut show ?thesis
        by (simp add: code)
    next
      case False
      with "2.IH"(4) [OF _ mem code False] "2.prems" ne mem shut show ?thesis
        by (simp add: code)
    qed
  next
    case other
    show ?thesis
    proof (cases "ssi_signo info \<in> {SIGTERM, SIGUSR1, SIGUSR2, SIGPWR}")
      case True
      then have "ssi_code info \<noteq> SI_USER \<and> ssi_code info \<noteq> SI_QUEUE"
        using other by (simp add: shutdown_signal_def)
      with "2.IH"(2) [OF other(1) True this] "2.prems" other True show ?thesis
        by simp
    next
      case False
      with "2.IH"(5) [OF other(1) False] "2.prems" other show ?thesis
        by simp
    qed
  qed
qed

lemma dispatch_started_lemma:
  assumes "timer_laws E" "world_ok w" "log_true w" "waits_ok ws"
    and "\<forall>info \<in> set infos. ssi_signo info \<in> {SIGCHLD, SIGTERM, SIGUSR1, SIGUSR2, SIGPWR}"
    and "tinit_sigchan_dispatch_started E (Inr infos) c ws w = (r, c', ws', w')"
  shows "world_ok w' \<and> log_true w' \<and> lost E w' \<subseteq> lost E w \<and> statics w' = statics w \<and>
    ch_dispatch c' = ch_dispatch c \<and>
    (case filter shutdown_signal infos of
       [] \<Rightarrow> r = 0 \<and> tinit_sigchan_get_signo c' = 0
     | info # _ \<Rightarrow> r = - ESHUTDOWN \<and> tinit_sigchan_get_signo c' = ssi_signo info)"
proof -
  have run: "started_loop E infos 0 (c\<lparr>ch_signo := 0\<rparr>) ws w = (r, c', ws', w')"
    using assms(6) by (simp add: tinit_sigchan_dispatch_started_def)
  have "lost E w' \<subseteq> lost E w \<and> world_ok w'"
    using wakeup.started [OF assms(1,2,4,5) run] by blast
  moreover have "log_true w'"
    using truth.ops.started [OF timer_lawsD(1) [OF assms(1)] assms(2,4,5) run] assms(3) by blast
  moreover have "statics w' = statics w"
    using frame.ops.started [OF timer_lawsD(1) [OF assms(1)] assms(2,4,5) run] by blast
  ultimately show ?thesis
    using started_loop_result [OF run]
    by (simp add: tinit_sigchan_get_signo_def split: list.split)
qed

text \<open>
  C18. The running dispatcher reaps without harm and reports the first shutdown request: for what
  \<open>signalfd\<close> and \<open>waitid\<close> can return, the services stay well-formed, the log stays true and no
  waiting service is lost; the result is \<open>-ESHUTDOWN\<close> exactly when a \<open>SIGTERM\<close>, \<open>SIGUSR1\<close>,
  \<open>SIGUSR2\<close> or \<open>SIGPWR\<close> sent by a process was read, and the channel then holds the first one.
\<close>

theorem dispatch_started_spec:
  assumes "timer_laws E" "world_ok w" "log_true w" "waits_ok ws"
    and "\<forall>info \<in> set infos. ssi_signo info \<in> {SIGCHLD, SIGTERM, SIGUSR1, SIGUSR2, SIGPWR}"
    and "tinit_sigchan_dispatch_started E (Inr infos) c ws w = (r, c', ws', w')"
  shows "world_ok w' \<and> log_true w' \<and> lost E w' \<subseteq> lost E w \<and>
    (case filter shutdown_signal infos of
       [] \<Rightarrow> r = 0 \<and> tinit_sigchan_get_signo c' = 0
     | info # _ \<Rightarrow> r = - ESHUTDOWN \<and> tinit_sigchan_get_signo c' = ssi_signo info)"
  using dispatch_started_lemma [OF assms] by blast

definition demo_chan :: sigchan where
  "demo_chan = \<lparr>ch_dispatch = Dispatch_started, ch_polled = True, ch_fd = 3, ch_signo = 0, ch_cnt = 0\<rparr>"

definition exited :: "int \<Rightarrow> int + siginfo" where
  "exited pid = Inr \<lparr>si_pid = pid, si_signo = SIGCHLD, si_code = CLD_EXITED, si_status = 0\<rparr>"

lemma boot_log_true: "log_true boot"
proof -
  have "s_state net_svc = TINIT_SVC_STOPPED_STAT" "s_state web_svc = TINIT_SVC_STOPPED_STAT"
    by (simp_all add: net_svc_def web_svc_def idle_svc_def)
  moreover have "i < 2 \<longleftrightarrow> i = 0 \<or> i = Suc 0" for i :: nat
    by auto
  ultimately show ?thesis
    by (auto simp: log_true_def state_told_def)
qed

theorem dispatch_started_spec_witness:
  "fst (tinit_sigchan_dispatch_started sim_ext
     (Inr [\<lparr>ssi_signo = SIGCHLD, ssi_code = 1\<rparr>, \<lparr>ssi_signo = SIGTERM, ssi_code = SI_USER\<rparr>])
     demo_chan [exited 9, Inl ECHILD] boot) = - ESHUTDOWN"
proof -
  let ?infos = "[\<lparr>ssi_signo = SIGCHLD, ssi_code = 1\<rparr>, \<lparr>ssi_signo = SIGTERM, ssi_code = SI_USER\<rparr>]"
  have ws: "waits_ok [exited 9, Inl ECHILD]"
    by (simp add: waits_ok_def wait_ok_def exited_def)
  obtain r c' ws' w' where run: "tinit_sigchan_dispatch_started sim_ext (Inr ?infos) demo_chan
      [exited 9, Inl ECHILD] boot = (r, c', ws', w')"
    by (metis prod_cases4)
  have "filter shutdown_signal ?infos = [\<lparr>ssi_signo = SIGTERM, ssi_code = SI_USER\<rparr>]"
    by (simp add: shutdown_signal_def)
  then show ?thesis
    using dispatch_started_spec [OF sim_timer_laws boot_ok boot_log_true ws _ run] run by simp
qed

section \<open>Counting services down\<close>

definition live_cnt :: "'k world \<Rightarrow> nat" where
  "live_cnt w = card {i. is_svc w i \<and> s_state (svc_at w i) \<noteq> TINIT_SVC_STOPPED_STAT}"

text \<open>Every service is stopping or stopped, and none waits for another to stop.\<close>

definition winding_down :: "'k world \<Rightarrow> bool" where
  "winding_down w \<longleftrightarrow> world_ok w \<and> (\<forall>i. is_svc w i \<longrightarrow>
     s_handle_notif (svc_at w i) = Handle_off \<and> s_stopon_obsrv (svc_at w i) = [])"

lemma live_cnt_one:
  assumes i: "is_svc w i" "s_state (svc_at w i) = TINIT_SVC_STOPPING_STAT"
    and same: "\<And>j. is_svc w' j = is_svc w j" "\<And>j. j \<noteq> i \<Longrightarrow> svc_at w' j = svc_at w j"
  shows "live_cnt w = live_cnt w' + (if s_state (svc_at w' i) = TINIT_SVC_STOPPED_STAT then 1 else 0)"
proof (cases "s_state (svc_at w' i) = TINIT_SVC_STOPPED_STAT")
  case True
  have "j \<in> {j. is_svc w j \<and> s_state (svc_at w j) \<noteq> TINIT_SVC_STOPPED_STAT} \<longleftrightarrow>
      j \<in> insert i {j. is_svc w' j \<and> s_state (svc_at w' j) \<noteq> TINIT_SVC_STOPPED_STAT}" for j
    using i same(1) [of j] same(2) [of j] by (cases "j = i") simp_all
  then have "{j. is_svc w j \<and> s_state (svc_at w j) \<noteq> TINIT_SVC_STOPPED_STAT} =
      insert i {j. is_svc w' j \<and> s_state (svc_at w' j) \<noteq> TINIT_SVC_STOPPED_STAT}"
    by blast
  then show ?thesis
    using True by (simp add: live_cnt_def)
next
  case False
  have "j \<in> {j. is_svc w j \<and> s_state (svc_at w j) \<noteq> TINIT_SVC_STOPPED_STAT} \<longleftrightarrow>
      j \<in> {j. is_svc w' j \<and> s_state (svc_at w' j) \<noteq> TINIT_SVC_STOPPED_STAT}" for j
    using i same(1) [of j] same(2) [of j] False by (cases "j = i") simp_all
  then have "{j. is_svc w j \<and> s_state (svc_at w j) \<noteq> TINIT_SVC_STOPPED_STAT} =
      {j. is_svc w' j \<and> s_state (svc_at w' j) \<noteq> TINIT_SVC_STOPPED_STAT}"
    by blast
  then show ?thesis
    using False by (simp add: live_cnt_def)
qed

lemma live_cnt_zero: "live_cnt w = 0 \<longleftrightarrow> (\<forall>i. is_svc w i \<longrightarrow> s_state (svc_at w i) = TINIT_SVC_STOPPED_STAT)"
  by (auto simp: live_cnt_def)

lemma reap_winding:
  assumes E: "vfork_ok E" and down: "winding_down w" and info: "wait_ok (Inr info)" "si_pid info \<noteq> 0" "si_signo info \<noteq> 0"
    and i: "tinit_repo_search_bypid w (si_pid info) = Some i"
  defines "w' \<equiv> reap_svc E info i w"
  shows "winding_down w'"
    "live_cnt w = live_cnt w' + (if s_state (svc_at w' i) = TINIT_SVC_STOPPED_STAT then 1 else 0)"
proof -
  have ok: "world_ok w" and is_svc: "is_svc w i"
    using down bypid_Some [OF i] by (simp_all add: winding_down_def)
  have "0 < si_pid info"
    using info by (auto simp: wait_ok_def)
  then have "s_state (svc_at w i) \<noteq> TINIT_SVC_STOPPED_STAT"
    using bypid_expected [OF ok i] by (simp add: evt_expected_def)
  then have st: "s_state (svc_at w i) = TINIT_SVC_STOPPING_STAT"
    using world_okD(3) [OF ok is_svc] down is_svc
    by (cases "s_state (svc_at w i)") (auto simp: svc_wf_def winding_down_def)
  obtain s where "w' = svc_handle_evts E i SVC_EXIT_EVT s w"
    unfolding w'_def using reap_is_evts [OF info] by blast
  then have w': "w' = svc_spawn_stop_cmd E i w"
    using svc_evts_stopping [OF ok is_svc st] by simp
  have obs: "s_stopon_obsrv (svc_at w i) = []"
    using down is_svc by (simp add: winding_down_def)
  have other: "svc_at w' j = svc_at w j" if "j \<noteq> i" for j
    using that obs is_svc
    by (simp add: w' svc_chain_eqs attempts_other) (simp add: stopped_world_def next_stop_def)
  have stat: "statics w' = statics w" and calm: "calm w w'"
    unfolding w' by (rule svc_chain_statics, rule svc_chain_calm)
  have same: "is_svc w' j = is_svc w j" for j
    by (rule statics_is_svc [OF stat])
  have "world_ok w'"
    unfolding w' by (rule svc_steps_ok [OF svc_spawn_stop_cmd_steps [OF E ok is_svc st] E ok])
  moreover have "s_stopon_obsrv (svc_at w' j) = s_stopon_obsrv (svc_at w j)" if "is_svc w j" for j
    using statics_links(1) [OF stat that, of Stopon] by (simp add: svc_obsrv_def)
  ultimately show "winding_down w'"
    using down calm by (simp add: winding_down_def same calm_def)
  show "live_cnt w = live_cnt w' + (if s_state (svc_at w' i) = TINIT_SVC_STOPPED_STAT then 1 else 0)"
    by (rule live_cnt_one [OF is_svc st same other])
qed

lemma sigchld_winding:
  "vfork_ok E \<Longrightarrow> winding_down w \<Longrightarrow> waits_ok ws \<Longrightarrow> tinit_sigchan_handle_sigchld E ws cnt w = (n, ws', w') \<Longrightarrow>
     winding_down w' \<and> waits_ok ws' \<and> live_cnt w + cnt = live_cnt w' + n"
proof (induction E ws cnt w rule: tinit_sigchan_handle_sigchld.induct)
  case (3 E info ws cnt w)
  have ok: "wait_ok (Inr info)" "waits_ok ws"
    using "3.prems"(3) by (simp_all add: waits_ok_def)
  show ?case
  proof (cases "si_pid info = 0 \<or> si_signo info = 0")
    case False
    then have sig: "si_signo info = SIGCHLD" "si_pid info \<noteq> 0" "si_signo info \<noteq> 0"
      using ok(1) by (auto simp: wait_ok_def)
    show ?thesis
    proof (cases "tinit_repo_search_bypid w (si_pid info)")
      case None
      with "3.IH"(1) [OF False _ None] "3.prems" ok sig show ?thesis
        by simp
    next
      case (Some i)
      note one = reap_winding [OF "3.prems"(1,2) ok(1) sig(2,3) Some]
      have "\<not> si_signo info \<noteq> SIGCHLD"
        using sig by simp
      note IH = "3.IH"(2) [OF False this Some refl "3.prems"(1) one(1) ok(2)]
      show ?thesis
        using IH "3.prems"(4) Some sig one(2) by (simp add: Let_def split: if_splits)
    qed
  qed (use "3.prems" ok in auto)
qed (auto simp: waits_ok_def wait_ok_def split: if_splits)

lemma stopping_loop_winding:
  "vfork_ok E \<Longrightarrow> winding_down w \<Longrightarrow> waits_ok ws \<Longrightarrow> ch_cnt c = of_nat (live_cnt w) \<Longrightarrow> 0 < live_cnt w \<Longrightarrow>
     live_cnt w < 2 ^ 32 \<Longrightarrow> stopping_loop E infos c ws w = (r, c', ws', w') \<Longrightarrow>
     winding_down w' \<and> ch_cnt c' = of_nat (live_cnt w') \<and>
     r = (if live_cnt w' = 0 then - ESHUTDOWN else 0) \<and>
     ch_polled c' = (ch_polled c \<and> live_cnt w' \<noteq> 0)"
proof (induction E infos c ws w rule: stopping_loop.induct)
  case (1 E c ws w)
  then show ?case by auto
next
  case (2 E info infos c ws w)
  show ?case
  proof (cases "ssi_signo info = SIGCHLD")
    case True
    obtain n ws1 w1 where h: "tinit_sigchan_handle_sigchld E ws 0 w = (n, ws1, w1)"
      by (metis prod_cases3)
    have one: "winding_down w1" "waits_ok ws1" "live_cnt w = live_cnt w1 + n"
      using sigchld_winding [OF "2.prems"(1-3) h] by simp_all
    have un: "unat (ch_cnt c) = live_cnt w"
      using "2.prems"(4,6) by (simp add: unat_of_nat)
    let ?c = "c\<lparr>ch_cnt := ch_cnt c - of_nat n\<rparr>"
    have cnt: "ch_cnt ?c = of_nat (live_cnt w1)"
      using one(3) "2.prems"(4) by simp
    have zero: "ch_cnt ?c = 0 \<longleftrightarrow> live_cnt w1 = 0"
    proof
      assume "ch_cnt ?c = 0"
      then have "unat (of_nat (live_cnt w1) :: 32 word) = 0"
        using cnt by simp
      then show "live_cnt w1 = 0"
        using one(3) "2.prems"(6) by (simp add: unat_of_nat)
    qed (use cnt in simp)
    show ?thesis
    proof (cases "live_cnt w1 = 0")
      case True
      with "2.prems"(7) \<open>ssi_signo info = SIGCHLD\<close> h un one zero cnt show ?thesis
        by (simp add: Let_def) auto
    next
      case False
      have le: "n \<le> unat (ch_cnt c)"
        using un one(3) by simp
      have run: "stopping_loop E infos ?c ws1 w1 = (r, c', ws', w')"
        using "2.prems"(7) True h le zero False by (simp add: Let_def)
      have nz: "ch_cnt ?c \<noteq> 0"
        using zero False by blast
      have "w1 = (if n \<le> unat (ch_cnt c) then w1 else fault w1)"
        using le by simp
      from "2.IH"(1) [OF True h [symmetric] refl this refl nz "2.prems"(1) one(1,2) cnt _ _ run]
      show ?thesis
        using False one(3) "2.prems"(6) by simp
    qed
  next
    case False
    with 2 show ?thesis by simp
  qed
qed

lemma unlinked_ok:
  assumes "\<forall>s \<in> set ss. svc_wf s \<and> s_starton_obsrv s = [] \<and> s_stopon_obsrv s = [] \<and>
    s_starton_notif s = None \<and> s_stopon_notif s = None"
  shows "world_ok (world_of ss)"
proof -
  have "links_ok (world_of ss)"
    using assms nth_mem by (fastforce simp: links_ok_def svc_obsrv_def svc_poll_def split: dep.splits)
  with assms show ?thesis
    by (simp add: world_ok_def svcs_wf_def) (simp add: world_of_def)
qed

text \<open>
  C19. The count of a shutdown is right when no service waits for another to stop. With every service
  stopping or stopped and the channel's count the number of those not yet stopped, the stopping
  dispatcher keeps the count exact over any signals and exits it reads, no assertion fails, and
  it returns \<open>-ESHUTDOWN\<close> and leaves the poller exactly when the last service has stopped.
\<close>

theorem dispatch_stopping_counts:
  assumes "vfork_ok E" "winding_down w" "waits_ok ws" "ch_cnt c = of_nat (live_cnt w)" "0 < live_cnt w"
    and "live_cnt w < 2 ^ 32" "tinit_sigchan_dispatch_stopping E (Inr infos) c ws w = (r, c', ws', w')"
  shows "winding_down w' \<and> ch_cnt c' = of_nat (live_cnt w') \<and>
     r = (if \<forall>i. is_svc w' i \<longrightarrow> s_state (svc_at w' i) = TINIT_SVC_STOPPED_STAT then - ESHUTDOWN else 0) \<and>
     ch_polled c' = (ch_polled c \<and> r = 0)"
proof -
  have "unat (ch_cnt c) = live_cnt w"
    using assms(4,6) by (simp add: unat_of_nat)
  then have "ch_cnt c \<noteq> 0"
    using assms(5) by auto
  then have "stopping_loop E infos c ws w = (r, c', ws', w')"
    using assms(7) by (simp add: tinit_sigchan_dispatch_stopping_def Let_def)
  from stopping_loop_winding [OF assms(1-6) this] show ?thesis
    unfolding live_cnt_zero by simp
qed

definition last_stopping :: "sim world" where
  "last_stopping = world_of [run_stopping 7 (idle_svc (net_conf\<lparr>c_stop := empty_seq\<rparr>)), idle_svc web_conf]"

theorem dispatch_stopping_counts_witness:
  "fst (tinit_sigchan_dispatch_stopping sim_ext (Inr [\<lparr>ssi_signo = SIGCHLD, ssi_code = 1\<rparr>])
     (demo_chan\<lparr>ch_cnt := 1\<rparr>) [exited 7] last_stopping) \<in> {0, - ESHUTDOWN}"
proof -
  let ?infos = "[\<lparr>ssi_signo = SIGCHLD, ssi_code = 1\<rparr>]"
  have wf: "conf_wf (net_conf\<lparr>c_stop := empty_seq\<rparr>)"
    using demo_confs_wf(1) by (simp add: conf_wf_def conf_defs empty_seq_def)
  have two: "is_svc last_stopping i \<longleftrightarrow> i = 0 \<or> i = 1" for i
    by (auto simp: last_stopping_def)
  have "world_ok last_stopping"
    unfolding last_stopping_def using wf by (intro unlinked_ok) (simp add: run_stopping_def idle_svc_def svc_wf_def)
  then have down: "winding_down last_stopping"
    by (auto simp: winding_down_def two) (simp_all add: last_stopping_def run_stopping_def idle_svc_def)
  have "{i. is_svc last_stopping i \<and> s_state (svc_at last_stopping i) \<noteq> TINIT_SVC_STOPPED_STAT} = {0}"
    by (auto simp: two) (simp_all add: last_stopping_def run_stopping_def idle_svc_def)
  then have cnt: "live_cnt last_stopping = 1"
    by (simp add: live_cnt_def)
  obtain r c' ws' w' where run: "tinit_sigchan_dispatch_stopping sim_ext (Inr ?infos)
      (demo_chan\<lparr>ch_cnt := 1\<rparr>) [exited 7] last_stopping = (r, c', ws', w')"
    by (metis prod_cases4)
  have "waits_ok [exited 7]"
    by (simp add: waits_ok_def wait_ok_def exited_def)
  from dispatch_stopping_counts [OF sim_vfork_ok down this _ _ _ run] cnt run show ?thesis
    by simp
qed

end
