(* ===== verification/Target.thy ===== *)
theory Target imports Sigchan begin

text \<open>
  Targets (\<open>target.c\<close>): a target is a directory of symbolic links to service configuration files.
  The model has the validation of a link, the walk that collects the services a target names in a
  growing table, and the three operations on a target. A directory stream is the list of its
  entries, an error of \<open>readdir\<close> among them; the file system is the record \<open>fs\<close>.
\<close>

datatype d_type = DT_REG | DT_LNK | DT_OTHER

record dirent =
  d_type :: d_type
  d_name :: string

type_synonym dir = "(int + dirent) list"

record fs =
  fs_opendir :: "string \<Rightarrow> int + dir"
  fs_realpath :: "string \<Rightarrow> string option"
  fs_validate_path :: "string \<Rightarrow> nat \<Rightarrow> int"    \<comment> \<open>\<open>upath_validate_path\<close>: a length or a negative error\<close>

abbreviation (input) PATH_MAX :: nat where "PATH_MAX \<equiv> 4096"

definition TINIT_SVC_PATH_MAX :: "string \<Rightarrow> nat" where
  "TINIT_SVC_PATH_MAX incl = length incl + 1 + (TINIT_SVC_NAME_MAX - 1) + 1"

abbreviation (input) TINIT_TARGET_PATH_MAX :: nat where
  "TINIT_TARGET_PATH_MAX \<equiv> (PATH_MAX - 1) - 1 - (TINIT_SVC_NAME_MAX - 1) - 1 - (TINIT_SVC_NAME_MAX - 1) + 1"

text \<open>\<open>f_dpath\<close> is the directory's path with its final slash, the first \<open>dlen\<close> bytes of the buffer.\<close>

record folder =
  f_dir :: dir
  f_dpath :: string

definition tinit_target_probe_folder_svc_base :: "fs \<Rightarrow> string \<Rightarrow> folder \<Rightarrow> string \<Rightarrow> int + string" where
  "tinit_target_probe_folder_svc_base F incl f base =
     (let len = tinit_parse_svc_name (fs_validate_path F) base
      in if len < 0 then Inl (- len)
         else case fs_realpath F (f_dpath f @ base) of
           None \<Rightarrow> Inl ENOENT
         | Some spath \<Rightarrow>
             (let len = fs_validate_path F spath (TINIT_SVC_PATH_MAX incl)
              in if len < 0 then Inl (- len)
                 else if nat len \<le> length incl + 1 \<or> take (length incl + 1) spath \<noteq> incl @ ''/'' then Inl EPERM
                 else let real = drop (length incl + 1) spath
                      in if tinit_probe_inval_char real (nat len - (length incl + 1)) \<noteq> 0 then Inl EINVAL
                         else Inr real))"

text \<open>The next service of the target, or the error of \<open>readdir\<close>, 0 at the end of the directory.\<close>

fun tinit_target_walk_folder :: "fs \<Rightarrow> string \<Rightarrow> 'k world \<Rightarrow> string \<Rightarrow> dir \<Rightarrow> (int + svc_id) \<times> dir" where
  "tinit_target_walk_folder F incl w dpath [] = (Inl 0, [])"
| "tinit_target_walk_folder F incl w dpath (Inl err # r) = (Inl err, r)"
| "tinit_target_walk_folder F incl w dpath (Inr ent # r) =
     (if d_type ent \<noteq> DT_LNK then tinit_target_walk_folder F incl w dpath r
      else case tinit_target_probe_folder_svc_base F incl \<lparr>f_dir = r, f_dpath = dpath\<rparr> (d_name ent) of
        Inl err \<Rightarrow> tinit_target_walk_folder F incl w dpath r
      | Inr base \<Rightarrow> (case tinit_repo_search_bypath w base of
            Some i \<Rightarrow> (Inr i, r)
          | None \<Rightarrow> tinit_target_walk_folder F incl w dpath r))"

definition tinit_target_init_folder :: "fs \<Rightarrow> string \<Rightarrow> string \<Rightarrow> mem \<Rightarrow> (int + folder) \<times> mem" where
  "tinit_target_init_folder F path name m =
     (let plen = fs_validate_path F path TINIT_TARGET_PATH_MAX
      in if plen < 0 then (Inl plen, m)
         else let nlen = tinit_parse_svc_name (fs_validate_path F) name
              in case mem_alloc m of
                (False, m1) \<Rightarrow> (Inl (- ENOMEM), m1)
              | (True, m1) \<Rightarrow> (case mem_alloc m1 of
                    (False, m2) \<Rightarrow> (Inl (- ENOMEM), mem_free 1 m2)
                  | (True, m2) \<Rightarrow>
                      (let dpath = take (nat plen) path @ ''/'' @ take (nat nlen) name
                       in case fs_opendir F dpath of
                         Inl err \<Rightarrow> (Inl (- err), mem_free 2 m2)
                       | Inr dir \<Rightarrow> (Inr \<lparr>f_dir = dir, f_dpath = dpath @ ''/''\<rparr>, m2))))"

definition tinit_target_fini_folder :: "mem \<Rightarrow> mem" where
  "tinit_target_fini_folder m = mem_free 2 m"

section \<open>The table of services\<close>

record iter =
  it_nr :: nat
  it_tbl :: "svc_id list"
  it_cap :: nat        \<comment> \<open>entries allocated\<close>

lemma walk_shorter: "tinit_target_walk_folder F incl w dpath d = (Inr i, r) \<Longrightarrow> length r < length d"
  by (induction F incl w dpath d rule: tinit_target_walk_folder.induct)
    (auto split: if_splits sum.splits option.splits)

text \<open>The loop of \<open>tinit_target_init_iter\<close>: the table doubles when it is full.\<close>

function init_iter_loop :: "fs \<Rightarrow> string \<Rightarrow> 'k world \<Rightarrow> string \<Rightarrow> dir \<Rightarrow> nat \<Rightarrow> svc_id list \<Rightarrow> mem \<Rightarrow>
    (int + iter) \<times> mem" where
  "init_iter_loop F incl w dpath d nr tbl m = (case tinit_target_walk_folder F incl w dpath d of
      (Inl err, r) \<Rightarrow>
        (if err \<noteq> 0 then (Inl (- err), mem_free 1 m)
         else (Inr \<lparr>it_nr = length tbl, it_tbl = tbl, it_cap = nr\<rparr>, m))
    | (Inr i, r) \<Rightarrow>
        (if length tbl = nr then
           (case mem_alloc m of
              (False, m1) \<Rightarrow> (Inl (- ENOMEM), mem_free 1 m1)
            | (True, m1) \<Rightarrow> init_iter_loop F incl w dpath r (nr * 2) (tbl @ [i]) (mem_free 1 m1))
         else init_iter_loop F incl w dpath r nr (tbl @ [i]) m))"
  by pat_completeness auto

termination init_iter_loop
  by (relation "measure (\<lambda>(F, incl, w, dpath, d, nr, tbl, m). length d)") (auto dest: walk_shorter [OF sym])

definition tinit_target_init_iter :: "fs \<Rightarrow> string \<Rightarrow> string \<Rightarrow> string \<Rightarrow> 'k world \<Rightarrow> mem \<Rightarrow> (int + iter) \<times> mem" where
  "tinit_target_init_iter F incl path name w m = (case tinit_target_init_folder F path name m of
      (Inl err, m1) \<Rightarrow> (Inl err, m1)
    | (Inr f, m1) \<Rightarrow> (case mem_alloc m1 of
          (False, m2) \<Rightarrow> (Inl (- ENOMEM), tinit_target_fini_folder m2)
        | (True, m2) \<Rightarrow> (case init_iter_loop F incl w (f_dpath f) (f_dir f) 4 [] m2 of
              (r, m3) \<Rightarrow> (r, tinit_target_fini_folder m3))))"

definition tinit_target_fini_iter :: "mem \<Rightarrow> mem" where
  "tinit_target_fini_iter m = mem_free 1 m"

section \<open>Operations on a target\<close>

definition tinit_target_start :: "'k ext \<Rightarrow> fs \<Rightarrow> string \<Rightarrow> string \<Rightarrow> string \<Rightarrow> int \<Rightarrow> sigchan \<Rightarrow> 'k world \<Rightarrow> mem \<Rightarrow>
    int \<times> sigchan \<times> 'k world \<times> mem" where
  "tinit_target_start E F incl path name registered c w m =
     (case tinit_target_init_iter F incl path name w m of
        (Inl err, m1) \<Rightarrow> (err, c, w, m1)
      | (Inr it, m1) \<Rightarrow>
          (if it_nr it = 0 then (- ENOENT, c, w, tinit_target_fini_iter m1)
           else case tinit_sigchan_start registered c of
             (ret, c1) \<Rightarrow>
               if ret \<noteq> 0 then (ret, c1, w, tinit_target_fini_iter m1)
               else (0, c1, fold (svc_start E) (it_tbl it) w, tinit_target_fini_iter m1)))"

text \<open>One service of the loop of \<open>tinit_target_stop\<close>; the count is of the services not stopped.\<close>

definition stop_one_svc :: "'k ext \<Rightarrow> svc_id \<Rightarrow> nat \<times> 'k world \<Rightarrow> nat \<times> 'k world" where
  "stop_one_svc E i = (\<lambda>(cnt, w).
     if s_state (svc_at w i) = TINIT_SVC_STOPPED_STAT then (cnt, w)
     else if s_state (svc_at w i) = TINIT_SVC_STARTING_STAT \<or> s_state (svc_at w i) = TINIT_SVC_READY_STAT then
       (let w1 = svc_stop E i w
        in if s_state (svc_at w1 i) = TINIT_SVC_STOPPED_STAT then (cnt, w1) else (Suc cnt, w1))
     else (Suc cnt, w))"

definition tinit_target_stop :: "'k ext \<Rightarrow> sigchan \<Rightarrow> 'k world \<Rightarrow> sigchan \<times> 'k world" where
  "tinit_target_stop E c w = (case fold (stop_one_svc E) [0..<length (w_svcs w)] (0, w) of
      (cnt, w1) \<Rightarrow> (tinit_sigchan_stop c cnt, w1))"

text \<open>\<open>strcmp\<close> of the two names.\<close>

definition same_name :: "'k world \<Rightarrow> svc_id \<Rightarrow> svc_id \<Rightarrow> bool" where
  "same_name w i j \<longleftrightarrow> map_option cstr (conf_get_name (s_conf (svc_at w i))) =
     map_option cstr (conf_get_name (s_conf (svc_at w j)))"

definition switch_one_svc :: "'k ext \<Rightarrow> svc_id list \<Rightarrow> svc_id \<Rightarrow> 'k world \<Rightarrow> 'k world" where
  "switch_one_svc E tbl i w =
     (if \<not> (\<exists>c \<in> set tbl. same_name w c i) then
        (if s_state (svc_at w i) = TINIT_SVC_STARTING_STAT \<or> s_state (svc_at w i) = TINIT_SVC_READY_STAT
         then svc_stop E i w else w)
      else if s_state (svc_at w i) = TINIT_SVC_STOPPED_STAT \<or> s_state (svc_at w i) = TINIT_SVC_STOPPING_STAT
        then svc_start E i w else w)"

definition tinit_target_switch :: "'k ext \<Rightarrow> fs \<Rightarrow> string \<Rightarrow> string \<Rightarrow> string \<Rightarrow> 'k world \<Rightarrow> mem \<Rightarrow>
    int \<times> 'k world \<times> mem" where
  "tinit_target_switch E F incl path name w m =
     (case tinit_target_init_iter F incl path name w m of
        (Inl err, m1) \<Rightarrow> (err, w, m1)
      | (Inr it, m1) \<Rightarrow>
          (if it_nr it = 0 then (- ENOENT, w, tinit_target_fini_iter m1)
           else (0, fold (switch_one_svc E (it_tbl it)) [0..<length (w_svcs w)] w, tinit_target_fini_iter m1)))"

section \<open>The table holds what the directory names\<close>

text \<open>
  The reference for the walk: the service a directory entry links to, and the services of a
  directory up to its end or the first error of \<open>readdir\<close>.
\<close>

definition link_svc :: "fs \<Rightarrow> string \<Rightarrow> 'k world \<Rightarrow> string \<Rightarrow> int + dirent \<Rightarrow> svc_id option" where
  "link_svc F incl w dpath e = (case e of
      Inr ent \<Rightarrow> (if d_type ent = DT_LNK then
          (case tinit_target_probe_folder_svc_base F incl \<lparr>f_dir = [], f_dpath = dpath\<rparr> (d_name ent) of
             Inr base \<Rightarrow> tinit_repo_search_bypath w base
           | Inl _ \<Rightarrow> None)
        else None)
    | Inl _ \<Rightarrow> None)"

definition target_list :: "fs \<Rightarrow> string \<Rightarrow> 'k world \<Rightarrow> string \<Rightarrow> dir \<Rightarrow> svc_id list" where
  "target_list F incl w dpath d = List.map_filter (link_svc F incl w dpath) (takeWhile (\<lambda>e. \<not> isl e) d)"

definition target_dir :: "fs \<Rightarrow> string \<Rightarrow> string \<Rightarrow> string" where
  "target_dir F path name = take (nat (fs_validate_path F path TINIT_TARGET_PATH_MAX)) path @ ''/'' @
     take (nat (tinit_parse_svc_name (fs_validate_path F) name)) name"

lemma probe_dir_irrelevant:
  "tinit_target_probe_folder_svc_base F incl \<lparr>f_dir = d, f_dpath = p\<rparr> b =
     tinit_target_probe_folder_svc_base F incl \<lparr>f_dir = [], f_dpath = p\<rparr> b"
  unfolding tinit_target_probe_folder_svc_base_def folder.simps ..

lemma target_list_simps [simp]:
  "target_list F incl w p [] = []" "target_list F incl w p (Inl e # d) = []"
  "target_list F incl w p (Inr ent # d) = (case link_svc F incl w p (Inr ent) of
      Some i \<Rightarrow> i # target_list F incl w p d | None \<Rightarrow> target_list F incl w p d)"
  by (simp_all add: target_list_def map_filter_simps split: option.split)

lemma walk_target_list:
  "case tinit_target_walk_folder F incl w p d of
     (Inr i, r) \<Rightarrow> target_list F incl w p d = i # target_list F incl w p r
   | (Inl err, r) \<Rightarrow> target_list F incl w p d = []"
proof (induction F incl w p d rule: tinit_target_walk_folder.induct)
  case (3 F incl w p ent r)
  show ?case
  proof (cases "link_svc F incl w p (Inr ent)")
    case None
    then have "tinit_target_walk_folder F incl w p (Inr ent # r) = tinit_target_walk_folder F incl w p r"
      by (auto simp: link_svc_def probe_dir_irrelevant [of F incl r] split: sum.splits option.splits if_splits)
    moreover have "case tinit_target_walk_folder F incl w p r of
        (Inr i, r') \<Rightarrow> target_list F incl w p r = i # target_list F incl w p r'
      | (Inl err, r') \<Rightarrow> target_list F incl w p r = []"
      using 3 None by (cases "d_type ent = DT_LNK")
        (auto simp: link_svc_def probe_dir_irrelevant [of F incl r] simp del: target_list_simps
          split: sum.split_asm option.split_asm)
    moreover have "target_list F incl w p (Inr ent # r) = target_list F incl w p r"
      using None by simp
    ultimately show ?thesis
      by (simp only:)
  next
    case (Some i)
    then have "tinit_target_walk_folder F incl w p (Inr ent # r) = (Inr i, r)"
      by (auto simp: link_svc_def probe_dir_irrelevant [of F incl r] split: sum.splits option.splits if_splits)
    with Some show ?thesis
      by simp
  qed
qed simp_all

lemma init_iter_loop_spec:
  assumes "init_iter_loop F incl w p d nr tbl m = (r, m')" "length tbl \<le> nr"
    "nr = 4 \<or> nr < 2 * length tbl"
  shows "case r of
     Inr it \<Rightarrow> it_tbl it = tbl @ target_list F incl w p d \<and> it_nr it = length (it_tbl it) \<and>
       it_nr it \<le> it_cap it \<and> (it_cap it = 4 \<or> it_cap it < 2 * it_nr it) \<and> live m' = live m
   | Inl err \<Rightarrow> err \<noteq> 0 \<and> live m' = live m - 1"
  using assms
proof (induction F incl w p d nr tbl m rule: init_iter_loop.induct)
  case (1 F incl w p d nr tbl m)
  obtain x rest where walk: "tinit_target_walk_folder F incl w p d = (x, rest)"
    by fastforce
  show ?case
  proof (cases x)
    case (Inl err)
    then show ?thesis
      using 1(3-5) walk walk_target_list [of F incl w p d] by (auto split: if_splits)
  next
    case (Inr i)
    have tl: "target_list F incl w p d = i # target_list F incl w p rest"
      using walk_target_list [of F incl w p d] walk Inr by simp
    show ?thesis
    proof (cases "length tbl = nr")
      case True
      show ?thesis
      proof (cases "fst (mem_alloc m)")
        case True
        then obtain m1 where al: "mem_alloc m = (True, m1)"
          by (metis prod.collapse)
        then have live: "live m1 = live m + 1"
          using mem_alloc_True [of m m1] by simp
        have "init_iter_loop F incl w p rest (nr * 2) (tbl @ [i]) (mem_free 1 m1) = (r, m')"
          using 1(3) walk Inr al \<open>length tbl = nr\<close> by simp
        moreover have "length (tbl @ [i]) \<le> nr * 2" "nr * 2 = 4 \<or> nr * 2 < 2 * length (tbl @ [i])"
          using 1(5) \<open>length tbl = nr\<close> by (auto simp: Suc_le_eq)
        ultimately show ?thesis
          using 1(1) [OF walk [symmetric] Inr \<open>length tbl = nr\<close> al [symmetric] refl] tl live
          by (auto split: sum.splits)
      next
        case False
        then obtain m1 where al: "mem_alloc m = (False, m1)"
          by (metis prod.collapse)
        with 1(3) walk Inr \<open>length tbl = nr\<close> show ?thesis
          using mem_alloc_False [of m m1] by auto
      qed
    next
      case False
      then have "init_iter_loop F incl w p rest nr (tbl @ [i]) m = (r, m')"
        using 1(3) walk Inr by simp
      from 1(2) [OF walk [symmetric] Inr False this] False 1(4,5) show ?thesis
        using tl by (auto split: sum.splits)
    qed
  qed
qed

text \<open>\<open>opendir\<close> reports an error number when it fails.\<close>

definition fs_ok :: "fs \<Rightarrow> bool" where
  "fs_ok F \<longleftrightarrow> (\<forall>p e. fs_opendir F p = Inl e \<longrightarrow> e \<noteq> 0)"

lemma init_folder_spec:
  assumes "tinit_target_init_folder F path name m = (r, m')"
  shows "case r of
     Inr f \<Rightarrow> fs_opendir F (target_dir F path name) = Inr (f_dir f) \<and>
       f_dpath f = target_dir F path name @ ''/'' \<and> live m' = live m + 2
   | Inl err \<Rightarrow> (fs_ok F \<longrightarrow> err \<noteq> 0) \<and> live m' = live m"
proof -
  obtain ok1 m1 where a1: "mem_alloc m = (ok1, m1)" by fastforce
  obtain ok2 m2 where a2: "mem_alloc m1 = (ok2, m2)" by fastforce
  have live: "live m1 = live m + (if ok1 then 1 else 0)" "live m2 = live m1 + (if ok2 then 1 else 0)"
    using a1 a2 by (cases ok1; cases ok2; simp add: mem_alloc_True mem_alloc_False)+
  show ?thesis
  proof (cases "fs_validate_path F path TINIT_TARGET_PATH_MAX < 0")
    case False
    with assms show ?thesis
      by (cases ok1; cases ok2; cases "fs_opendir F (target_dir F path name)")
        (use a1 a2 live in \<open>auto simp: tinit_target_init_folder_def target_dir_def Let_def fs_ok_def\<close>)
  qed (use assms in \<open>auto simp: tinit_target_init_folder_def\<close>)
qed

lemma init_iter_spec:
  assumes "tinit_target_init_iter F incl path name w m = (r, m')"
  shows "case r of
     Inr it \<Rightarrow> (\<exists>d. fs_opendir F (target_dir F path name) = Inr d \<and>
         it_tbl it = target_list F incl w (target_dir F path name @ ''/'') d) \<and>
       it_nr it = length (it_tbl it) \<and> it_nr it \<le> it_cap it \<and>
       (it_cap it = 4 \<or> it_cap it < 2 * it_nr it) \<and> live m' = live m + 1
   | Inl err \<Rightarrow> (fs_ok F \<longrightarrow> err \<noteq> 0) \<and> live m' = live m"
proof -
  obtain rf m1 where f: "tinit_target_init_folder F path name m = (rf, m1)"
    by fastforce
  show ?thesis
  proof (cases rf)
    case (Inl err)
    with assms f init_folder_spec [OF f] show ?thesis
      by (auto simp: tinit_target_init_iter_def)
  next
    case (Inr f0)
    note fo = init_folder_spec [OF f, unfolded Inr sum.case]
    show ?thesis
    proof (cases "fst (mem_alloc m1)")
      case False
      then obtain m2 where "mem_alloc m1 = (False, m2)"
        by (metis prod.collapse)
      with assms f Inr fo mem_alloc_False [of m1 m2] show ?thesis
        by (auto simp: tinit_target_init_iter_def tinit_target_fini_folder_def)
    next
      case True
      then obtain m2 where al: "mem_alloc m1 = (True, m2)"
        by (metis prod.collapse)
      obtain r3 m3 where loop: "init_iter_loop F incl w (f_dpath f0) (f_dir f0) 4 [] m2 = (r3, m3)"
        by fastforce
      from assms f Inr al loop have r: "r = r3" "m' = tinit_target_fini_folder m3"
        by (simp_all add: tinit_target_init_iter_def)
      show ?thesis
        using init_iter_loop_spec [OF loop] fo mem_alloc_True [OF al]
        by (auto simp: r tinit_target_fini_folder_def split: sum.splits)
    qed
  qed
qed

section \<open>Which services an operation turns on or off\<close>

lemma calm_is_on: "calm w w' \<Longrightarrow> svc_is_on w' j = svc_is_on w j"
  by (simp add: calm_def svc_is_on_def)

lemma svc_kill_calm: "svc_kill E i sig w = (r, w') \<Longrightarrow> calm w w'"
  by (auto simp: calm_def is_svc_def svc_at_def dest: svc_kill_svcs)

lemma prefix_sel [simp]:
  "is_svc (start_prefix E i w) j = is_svc w j" "is_svc (stop_prefix E i w) j = is_svc w j"
  "svc_at (start_prefix E i w) j = (if i = j \<and> is_svc w i then set_starting (svc_at w i) else svc_at w j)"
  "svc_at (stop_prefix E i w) j = (if i = j \<and> is_svc w i then set_stopping (svc_at w i) else svc_at w j)"
  by (auto simp: start_prefix_def stop_prefix_def svc_at_upd)

lemma svc_start_calm: "calm (start_prefix E i w) (svc_start E i w)"
  by (simp add: svc_start_eq svc_chain_calm)

lemma svc_stop_calm: "calm (stop_prefix E i w) (svc_stop E i w)"
proof -
  obtain r w1 where k: "svc_kill E i (conf_get_stop_sig (s_conf (svc_at (stop_prefix E i w) i))) (stop_prefix E i w) = (r, w1)"
    by fastforce
  have "calm w1 (upd_kern (x_timer_arm_sec E i 5) w1)"
    by (simp add: calm_def)
  with svc_kill_calm [OF k] k svc_chain_calm(8) [of w1 E i] show ?thesis
    by (auto simp: svc_stop_eq intro: calm_trans)
qed

lemma svc_start_on: "is_svc w i \<Longrightarrow> svc_is_on (svc_start E i w) j = (j = i \<or> svc_is_on w j)"
  using calm_is_on [OF svc_start_calm, of E i w j] by (auto simp: svc_is_on_def set_starting_def)

lemma svc_stop_on: "is_svc w i \<Longrightarrow> svc_is_on (svc_stop E i w) j = (j \<noteq> i \<and> svc_is_on w j)"
  using calm_is_on [OF svc_stop_calm, of E i w j] by (auto simp: svc_is_on_def set_stopping_def)

lemma is_on_state:
  "world_ok w \<Longrightarrow> is_svc w i \<Longrightarrow> svc_is_on w i \<longleftrightarrow>
     s_state (svc_at w i) = TINIT_SVC_STARTING_STAT \<or> s_state (svc_at w i) = TINIT_SVC_READY_STAT"
  using world_okD(3) [of w i] by (simp add: svc_wf_def svc_is_on_def)

text \<open>What stopping a service leaves of the stopped ones, and of all others when none waits for it.\<close>

lemma svc_stop_quiet:
  assumes "is_svc w i" "j \<noteq> i" "\<not> is_transient (svc_at w j) \<or> s_stopon_obsrv (svc_at w i) = []"
  shows "svc_at (svc_stop E i w) j = svc_at w j"
proof -
  obtain r w1 where k: "svc_kill E i (conf_get_stop_sig (s_conf (svc_at (stop_prefix E i w) i))) (stop_prefix E i w) = (r, w1)"
    by fastforce
  have w1: "svc_at w1 l = svc_at (stop_prefix E i w) l" for l
    using svc_kill_svcs [OF k] by (simp add: svc_at_def)
  have sv: "is_svc w1 i"
    using svc_kill_svcs [OF k] assms(1) by (simp add: is_svc_def stop_prefix_def)
  have "svc_at (svc_spawn_stop_cmd E i w1) j = svc_at w1 j"
  proof (cases "s_stopon_obsrv (svc_at w i) = []")
    case True
    then have "s_stopon_obsrv (svc_at (stopped_world i (next_stop i w1)) i) = []"
      using w1 [of i] assms(1) sv by (simp add: stopped_world_def next_stop_def set_stopping_def)
    then show ?thesis
      using assms(2) by (simp add: svc_chain_eqs attempts_other)
  next
    case False
    then show ?thesis
      using assms w1 [of j] by (intro svc_chain_quiet(8)) auto
  qed
  with k w1 assms show ?thesis
    by (simp add: svc_stop_eq)
qed

section \<open>The interface of a pass over services\<close>

text \<open>
  Targets run an operation of supervision over a list of services, from a world whose links it
  does not change. \<open>each\<close> is what such a pass owes: every single operation is one of the contract.
\<close>

locale svc_pass = svc_ops laws R for laws :: "'k ext \<Rightarrow> bool" and R :: "'k ext \<Rightarrow> 'k world \<Rightarrow> 'k world \<Rightarrow> bool" +
  fixes f :: "'k ext \<Rightarrow> svc_id \<Rightarrow> 'k world \<Rightarrow> 'k world"
  assumes each: "laws E \<Longrightarrow> world_ok w \<Longrightarrow> is_svc w i \<Longrightarrow>
    f E i w = w \<or> f E i w = svc_start E i w \<or> f E i w = svc_stop E i w"
begin

lemma one:
  assumes "laws E" "world_ok w" "is_svc w i"
  shows "R E w (f E i w) \<and> world_ok (f E i w) \<and> statics (f E i w) = statics w"
proof -
  note v = laws_vfork [OF assms(1)]
  from each [OF assms] show ?thesis
    using start [OF assms] stop [OF assms] R_refl [of E w] wf.ops.start [OF v assms(2,3)]
      wf.ops.stop [OF v assms(2,3)] frame.ops.start [OF v assms(2,3)] frame.ops.stop [OF v assms(2,3)] assms(2)
    by auto
qed

lemma pass:
  "laws E \<Longrightarrow> world_ok w \<Longrightarrow> \<forall>i \<in> set is. is_svc w i \<Longrightarrow>
     R E w (fold (f E) is w) \<and> world_ok (fold (f E) is w) \<and> statics (fold (f E) is w) = statics w"
proof (induction "is" arbitrary: w)
  case Nil
  then show ?case by (simp add: R_refl)
next
  case (Cons i "is")
  then have i: "is_svc w i"
    by simp
  note o = one [OF Cons.prems(1,2) i]
  then have "\<forall>j \<in> set is. is_svc (f E i w) j"
    using Cons.prems(3) statics_is_svc [of "f E i w" w] by simp
  with Cons.IH [OF Cons.prems(1) conjunct1 [OF conjunct2 [OF o]]] o show ?case
    by (auto intro: R_trans)
qed

end

definition kept :: "'k ext \<Rightarrow> 'k world \<Rightarrow> 'k world \<Rightarrow> bool" where
  "kept E w w' \<longleftrightarrow> lost E w' \<subseteq> lost E w \<and> (log_true w \<longrightarrow> log_true w')"

interpretation kept: svc_ops timer_laws kept
proof (unfold_locales, goal_cases)
  case (4 E w i)
  then show ?case
    using wakeup.start [OF 4] truth.ops.start [OF timer_lawsD(1) [OF 4(1)] 4(2,3)] by (simp add: kept_def)
next
  case (5 E w i)
  then show ?case
    using wakeup.stop [OF 5] truth.ops.stop [OF timer_lawsD(1) [OF 5(1)] 5(2,3)] by (simp add: kept_def)
next
  case (6 E w i)
  then show ?case
    using wakeup.reload [OF 6] truth.ops.reload [OF timer_lawsD(1) [OF 6(1)] 6(2-5)] by (simp add: kept_def)
next
  case (7 E w i evt status)
  then show ?case
    using wakeup.evts [OF 7] truth.ops.evts [OF timer_lawsD(1) [OF 7(1)] 7(2-4)] by (simp add: kept_def)
next
  case (8 E w i cb)
  then show ?case
    using wakeup.expire [OF 8] truth.ops.expire [OF timer_lawsD(1) [OF 8(1)] 8(2-4)] by (simp add: kept_def)
qed (auto simp: kept_def dest: timer_lawsD(1))

definition stop_if_on :: "'k ext \<Rightarrow> svc_id \<Rightarrow> 'k world \<Rightarrow> 'k world" where
  "stop_if_on E i w = (if s_state (svc_at w i) = TINIT_SVC_STARTING_STAT \<or>
      s_state (svc_at w i) = TINIT_SVC_READY_STAT then svc_stop E i w else w)"

interpretation starts: svc_pass timer_laws kept svc_start
  by unfold_locales simp

interpretation stops: svc_pass timer_laws kept stop_if_on
  by unfold_locales (simp add: stop_if_on_def)

interpretation switches: svc_pass timer_laws kept "\<lambda>E. switch_one_svc E tbl" for tbl
  by unfold_locales (simp add: switch_one_svc_def)

lemma stop_one_snd: "snd (stop_one_svc E i cw) = stop_if_on E i (snd cw)"
proof (cases cw)
  case (Pair cnt w)
  then show ?thesis
    by (cases "s_state (svc_at w i)") (simp_all add: stop_one_svc_def stop_if_on_def Let_def)
qed

lemma stop_one_is_pass: "snd (fold (stop_one_svc E) is cw) = fold (stop_if_on E) is (snd cw)"
  by (induction "is" arbitrary: cw) (simp_all add: stop_one_snd)

section \<open>Switching targets\<close>

lemma same_name_statics:
  assumes "statics w' = statics w" "is_svc w i" "is_svc w j"
  shows "same_name w' i j = same_name w i j"
  using statics_links(3) [OF assms(1,2)] statics_links(3) [OF assms(1,3)] by (simp add: same_name_def)

lemma switch_one_on:
  assumes "world_ok w" "is_svc w i"
  shows "svc_is_on (switch_one_svc E tbl i w) j =
    (if j = i then \<exists>c \<in> set tbl. same_name w c i else svc_is_on w j)"
  using assms is_on_state [OF assms] svc_start_on [OF assms(2), of E j] svc_stop_on [OF assms(2), of E j]
  by (cases "s_state (svc_at w i)") (auto simp: switch_one_svc_def)

lemma switch_pass_on:
  assumes "timer_laws E" "\<forall>c \<in> set tbl. is_svc w c"
  shows "world_ok w \<Longrightarrow> distinct is \<Longrightarrow> \<forall>i \<in> set is. is_svc w i \<Longrightarrow>
     svc_is_on (fold (switch_one_svc E tbl) is w) j =
       (if j \<in> set is then \<exists>c \<in> set tbl. same_name w c j else svc_is_on w j)"
  using assms(2)
proof (induction "is" arbitrary: w)
  case (Cons i "is")
  let ?w = "switch_one_svc E tbl i w"
  have i: "is_svc w i"
    using Cons.prems(3) by simp
  note one = switches.one [OF assms(1) Cons.prems(1) i, of tbl]
  have sv: "is_svc ?w l = is_svc w l" for l
    using one statics_is_svc by blast
  have same: "same_name ?w c l = same_name w c l" if "is_svc w c" "is_svc w l" for c l
    using one same_name_statics that by blast
  have "svc_is_on (fold (switch_one_svc E tbl) is ?w) j =
      (if j \<in> set is then \<exists>c \<in> set tbl. same_name ?w c j else svc_is_on ?w j)"
    using Cons one by (simp add: sv)
  then show ?case
    using Cons.prems same switch_one_on [OF Cons.prems(1) i, of E tbl j] by auto
qed simp

lemma target_list_svc: "i \<in> set (target_list F incl w p d) \<Longrightarrow> is_svc w i"
proof (induction d)
  case (Cons e d)
  have "is_svc w j" if "link_svc F incl w p e = Some j" for j
    using that search_svc_Some
    by (auto simp: link_svc_def tinit_repo_search_bypath_def split: sum.splits option.splits if_splits)
  with Cons show ?case
    by (cases e) (auto split: option.splits)
qed simp

text \<open>
  The services of a target are those its directory links to, in the directory's order, whatever the
  table's growth.
\<close>

definition target_svcs :: "fs \<Rightarrow> string \<Rightarrow> string \<Rightarrow> string \<Rightarrow> 'k world \<Rightarrow> svc_id list" where
  "target_svcs F incl path name w = (case fs_opendir F (target_dir F path name) of
      Inr d \<Rightarrow> target_list F incl w (target_dir F path name @ ''/'') d
    | Inl _ \<Rightarrow> [])"

lemma target_svcs_svc: "i \<in> set (target_svcs F incl path name w) \<Longrightarrow> is_svc w i"
  by (auto simp: target_svcs_def dest: target_list_svc split: sum.splits)

lemma init_iter_target:
  assumes "tinit_target_init_iter F incl path name w m = (r, m')" "fs_ok F"
  shows "case r of Inr it \<Rightarrow> it_tbl it = target_svcs F incl path name w \<and> it_nr it = length (it_tbl it) \<and>
      live m' = live m + 1
    | Inl err \<Rightarrow> err \<noteq> 0 \<and> live m' = live m"
  using init_iter_spec [OF assms(1)] assms(2) by (auto simp: target_svcs_def split: sum.splits)

lemma target_switch_lemma:
  assumes "timer_laws E" "world_ok w" "log_true w" "fs_ok F"
    and "tinit_target_switch E F incl path name w m = (r, w', m')"
  shows "live m' = live m \<and>
    (if r = 0
     then target_svcs F incl path name w \<noteq> [] \<and> world_ok w' \<and> log_true w' \<and> lost E w' \<subseteq> lost E w \<and>
       statics w' = statics w \<and>
       (\<forall>i. is_svc w i \<longrightarrow>
          (svc_is_on w' i \<longleftrightarrow> (\<exists>c \<in> set (target_svcs F incl path name w). same_name w c i)))
     else w' = w)"
proof -
  obtain x m1 where it: "tinit_target_init_iter F incl path name w m = (x, m1)"
    by fastforce
  note spec = init_iter_target [OF it assms(4)]
  show ?thesis
  proof (cases x)
    case (Inl err)
    with assms(5) it spec show ?thesis
      by (simp add: tinit_target_switch_def)
  next
    case (Inr t)
    let ?tbl = "target_svcs F incl path name w"
    let ?w = "fold (switch_one_svc E ?tbl) [0..<length (w_svcs w)] w"
    have tbl: "it_tbl t = ?tbl" "it_nr t = length ?tbl" "live m1 = live m + 1"
      using spec Inr by simp_all
    have all: "\<forall>i \<in> set [0..<length (w_svcs w)]. is_svc w i"
      by (simp add: is_svc_def)
    have known: "\<forall>c \<in> set ?tbl. is_svc w c"
      using target_svcs_svc by blast
    note pass = switches.pass [OF assms(1,2) all, of ?tbl]
    have on: "svc_is_on ?w i \<longleftrightarrow> (\<exists>c \<in> set ?tbl. same_name w c i)" if "is_svc w i" for i
      using switch_pass_on [OF assms(1) known assms(2) distinct_upt all, of i] that
      by (simp add: is_svc_def)
    show ?thesis
    proof (cases "?tbl = []")
      case True
      with assms(5) it Inr tbl show ?thesis
        by (auto simp: tinit_target_switch_def tinit_target_fini_iter_def)
    next
      case False
      with assms(5) it Inr tbl have "r = 0" "w' = ?w" "live m' = live m"
        by (auto simp: tinit_target_switch_def tinit_target_fini_iter_def)
      with False pass on assms(3) show ?thesis
        by (simp add: kept_def)
    qed
  qed
qed

text \<open>
  C4. Switching to a target turns on exactly the services it names: when the target can be read and
  names a service at all, every service of the repository is on afterwards if and only if a link of
  the target's directory leads to one of its name; supervision stays sound (no assertion fails, the
  log is true, no waiting service is lost) and neither configurations nor links change. Otherwise no service is touched. Nothing is leaked either way.
\<close>

theorem target_switch_spec:
  assumes "timer_laws E" "world_ok w" "log_true w" "fs_ok F"
    and "tinit_target_switch E F incl path name w m = (r, w', m')"
  shows "live m' = live m \<and>
    (if r = 0
     then target_svcs F incl path name w \<noteq> [] \<and> world_ok w' \<and> log_true w' \<and> lost E w' \<subseteq> lost E w \<and>
       statics w' = statics w \<and>
       (\<forall>i. is_svc w i \<longrightarrow>
          (svc_is_on w' i \<longleftrightarrow> (\<exists>c \<in> set (target_svcs F incl path name w). same_name w c i)))
     else w' = w)"
  using assms by (rule target_switch_lemma)

section \<open>Starting a target\<close>

text \<open>The announcements of a start in a log.\<close>

definition starts :: "'k world \<Rightarrow> log_msg list" where
  "starts w = filter (\<lambda>m. case m of Log_starting i \<Rightarrow> True | _ \<Rightarrow> False) (w_log w)"

lemma starts_spawn: "svc_spawn E i a t w = (pid, w') \<Longrightarrow> starts w' = starts w"
  using svc_spawn_log_cases [of E i a t w pid w'] by (auto simp: starts_def)

lemma starts_simps [simp]:
  "starts (fault w) = starts w" "starts (upd_kern g w) = starts w" "starts (upd_svc i f w) = starts w"
  by (simp_all add: starts_def)

lemma starts_attempts:
  "starts (stopped_world i w) = starts w" "starts (ready_world i w) = starts w"
  "starts (fst (start_attempt E i w)) = starts w" "starts (next_stop i w) = starts w"
  "starts (stop_attempt E i w) = starts w"
  by (simp_all add: stopped_world_def ready_world_def next_stop_def)
    (auto simp: starts_def start_attempt_def stop_attempt_def next_stop_def split: option.splits prod.splits
      dest!: starts_spawn [unfolded starts_def])

lemma svc_chain_starts:
  "starts (svc_mark_stopped E i w) = starts w"
  "starts (svc_mark_ready E i w) = starts w"
  "starts (svc_notify E d obs i w) = starts w"
  "starts (svc_handle_notif E i src w) = starts w"
  "starts (svc_handle_on_notif E i src w) = starts w"
  "starts (svc_handle_off_notif E i src w) = starts w"
  "starts (svc_spawn_start_cmd E i w) = starts w"
  "starts (svc_spawn_stop_cmd E i w) = starts w"
proof (induction i w and i w and d obs i w and i src w and i src w and i src w and i w and i w
    rule: svc_chain_rule [where E = E])
  case (8 i w)
  then show ?case
    using starts_attempts(3) [of E i w] by (auto simp: svc_chain_eqs split: prod.splits)
qed (simp_all add: svc_chain_eqs svc_notif_simps starts_attempts split: handler.splits)

lemma starts_svc_start: "starts (svc_start E i w) = Log_starting i # starts w"
proof -
  have "starts (start_prefix E i w) = Log_starting i # starts w"
    by (simp add: start_prefix_def) (simp add: starts_def)
  then show ?thesis
    by (simp add: svc_start_eq svc_chain_starts)
qed

lemma starts_fold: "starts (fold (svc_start E) is w) = map Log_starting (rev is) @ starts w"
  by (induction "is" arbitrary: w) (simp_all add: starts_svc_start)

lemma start_pass_on:
  assumes "timer_laws E"
  shows "world_ok w \<Longrightarrow> \<forall>i \<in> set is. is_svc w i \<Longrightarrow>
     svc_is_on (fold (svc_start E) is w) j \<longleftrightarrow> j \<in> set is \<or> svc_is_on w j"
proof (induction "is" arbitrary: w)
  case (Cons i "is")
  then have i: "is_svc w i"
    by simp
  note one = starts.one [OF assms Cons.prems(1) i]
  then have "\<forall>l \<in> set is. is_svc (svc_start E i w) l"
    using Cons.prems(2) statics_is_svc [of "svc_start E i w" w] by simp
  with Cons.IH [of "svc_start E i w"] one svc_start_on [OF i, of E j] show ?case
    by auto
qed simp

lemma target_start_lemma:
  assumes "timer_laws E" "world_ok w" "log_true w" "fs_ok F"
    and "tinit_target_start E F incl path name registered c w m = (r, c', w', m')"
  shows "live m' = live m \<and>
    (if r = 0
     then target_svcs F incl path name w \<noteq> [] \<and> ch_dispatch c' = Dispatch_started \<and> ch_polled c' \<and>
       world_ok w' \<and> log_true w' \<and> lost E w' \<subseteq> lost E w \<and> statics w' = statics w \<and>
       (\<forall>i \<in> set (target_svcs F incl path name w). svc_is_on w' i) \<and>
       starts w' = map Log_starting (rev (target_svcs F incl path name w)) @ starts w
     else w' = w)"
proof -
  obtain x m1 where it: "tinit_target_init_iter F incl path name w m = (x, m1)"
    by fastforce
  note spec = init_iter_target [OF it assms(4)]
  let ?tbl = "target_svcs F incl path name w"
  show ?thesis
  proof (cases x)
    case (Inl err)
    with assms(5) it spec show ?thesis
      by (simp add: tinit_target_start_def)
  next
    case (Inr t)
    have tbl: "it_tbl t = ?tbl" "it_nr t = length ?tbl" "live m1 = live m + 1"
      using spec Inr by simp_all
    have all: "\<forall>i \<in> set ?tbl. is_svc w i"
      using target_svcs_svc by blast
    note pass = starts.pass [OF assms(1,2) all] and on = start_pass_on [OF assms(1,2) all]
    show ?thesis
    proof (cases "?tbl = [] \<or> registered \<noteq> 0")
      case True
      with assms(5) it Inr tbl show ?thesis
        by (auto simp: tinit_target_start_def tinit_target_fini_iter_def tinit_sigchan_start_def split: if_splits)
    next
      case False
      with assms(5) it Inr tbl have "r = 0" "w' = fold (svc_start E) ?tbl w" "live m' = live m"
        "ch_dispatch c' = Dispatch_started" "ch_polled c'"
        by (auto simp: tinit_target_start_def tinit_target_fini_iter_def tinit_sigchan_start_def Let_def)
      with False pass on assms(3) starts_fold show ?thesis
        by (simp add: kept_def)
    qed
  qed
qed

text \<open>
  C20. Starting a target starts the services its directory links to, one by one in the directory's
  order, once the signal channel listens: each is announced, in that order, and is on afterwards, no
  other service is announced; supervision stays sound. If the target cannot be read, names no
  service or the channel cannot be registered, no service is touched. Nothing is leaked either way.
\<close>

theorem target_start_spec:
  assumes "timer_laws E" "world_ok w" "log_true w" "fs_ok F"
    and "tinit_target_start E F incl path name registered c w m = (r, c', w', m')"
  shows "live m' = live m \<and>
    (if r = 0
     then target_svcs F incl path name w \<noteq> [] \<and> ch_dispatch c' = Dispatch_started \<and> ch_polled c' \<and>
       world_ok w' \<and> log_true w' \<and> lost E w' \<subseteq> lost E w \<and> statics w' = statics w \<and>
       (\<forall>i \<in> set (target_svcs F incl path name w). svc_is_on w' i) \<and>
       starts w' = map Log_starting (rev (target_svcs F incl path name w)) @ starts w
     else w' = w)"
  using assms by (rule target_start_lemma)

section \<open>Stopping everything\<close>

text \<open>
  What holds once the loop of \<open>tinit_target_stop\<close> has passed the first \<open>k\<close> services: they are off,
  and the count covers those among them that are not stopped, exactly when no service waits for
  another to stop.
\<close>

definition stop_count :: "'k world \<Rightarrow> nat \<Rightarrow> nat \<Rightarrow> bool" where
  "stop_count w k cnt \<longleftrightarrow> (\<forall>j < k. \<not> svc_is_on w j) \<and>
     card {j. j < k \<and> s_state (svc_at w j) \<noteq> TINIT_SVC_STOPPED_STAT} \<le> cnt \<and> cnt \<le> k \<and>
     ((\<forall>j. is_svc w j \<longrightarrow> s_stopon_obsrv (svc_at w j) = []) \<longrightarrow>
        cnt = card {j. j < k \<and> s_state (svc_at w j) \<noteq> TINIT_SVC_STOPPED_STAT})"

lemma card_less_Suc_Collect:
  "card {j. j < Suc k \<and> P j} = card {j. j < k \<and> P j} + (if P k then 1 else 0)"
proof (cases "P k")
  case True
  then have "{j. j < Suc k \<and> P j} = insert k {j. j < k \<and> P j}"
    by (auto simp: less_Suc_eq)
  with True show ?thesis
    by simp
next
  case False
  then have "{j. j < Suc k \<and> P j} = {j. j < k \<and> P j}"
    by (auto simp: less_Suc_eq)
  with False show ?thesis
    by simp
qed

lemma stop_count_mono:
  assumes "stop_count w k cnt" and "\<And>j. j < k \<Longrightarrow> \<not> svc_is_on w' j"
    and "\<And>j. j < k \<Longrightarrow> s_state (svc_at w j) = TINIT_SVC_STOPPED_STAT \<Longrightarrow> svc_at w' j = svc_at w j"
    and "(\<forall>j. is_svc w' j \<longrightarrow> s_stopon_obsrv (svc_at w' j) = []) \<Longrightarrow>
      (\<forall>j. is_svc w j \<longrightarrow> s_stopon_obsrv (svc_at w j) = []) \<and> (\<forall>j < k. svc_at w' j = svc_at w j)"
  shows "stop_count w' k cnt"
proof -
  let ?live = "\<lambda>w. {j. j < k \<and> s_state (svc_at w j) \<noteq> TINIT_SVC_STOPPED_STAT}"
  have "?live w' \<subseteq> ?live w"
    using assms(3) by auto
  then have "card (?live w') \<le> card (?live w)"
    by (intro card_mono) simp_all
  moreover have "?live w' = ?live w" if "\<forall>j. is_svc w' j \<longrightarrow> s_stopon_obsrv (svc_at w' j) = []"
    using assms(4) [OF that] by auto
  ultimately show ?thesis
    using assms(1,2,4) by (auto simp: stop_count_def)
qed

lemma stop_count_step:
  assumes E: "timer_laws E" and ok: "world_ok w" and k: "is_svc w k" and inv: "stop_count w k cnt"
    and run: "stop_one_svc E k (cnt, w) = (cnt', w')"
  shows "stop_count w' (Suc k) cnt'"
proof (cases "svc_is_on w k")
  case False
  then have "w' = w" "cnt' = (if s_state (svc_at w k) = TINIT_SVC_STOPPED_STAT then cnt else Suc cnt)"
    using run is_on_state [OF ok k] by (auto simp: stop_one_svc_def split: if_splits)
  with inv False show ?thesis
    by (auto simp: stop_count_def card_less_Suc_Collect All_less_Suc)
next
  case True
  then have w': "w' = svc_stop E k w"
    and cnt': "cnt' = (if s_state (svc_at w' k) = TINIT_SVC_STOPPED_STAT then cnt else Suc cnt)"
    using run is_on_state [OF ok k] by (auto simp: stop_one_svc_def Let_def split: if_splits)
  have stat: "statics w' = statics w"
    using stops.one [OF E ok k] is_on_state [OF ok k] True by (simp add: stop_if_on_def w')
  have obs: "s_stopon_obsrv (svc_at w' j) = s_stopon_obsrv (svc_at w j)" if "is_svc w j" for j
    using statics_links(1) [OF stat that, of Stopon] by (simp add: svc_obsrv_def)
  have sv: "is_svc w' j = is_svc w j" for j
    by (rule statics_is_svc [OF stat])
  have "stop_count w' k cnt"
  proof (rule stop_count_mono [OF inv])
    fix j
    assume j: "j < k"
    then show "\<not> svc_is_on w' j"
      using inv svc_stop_on [OF k, of E j] by (simp add: stop_count_def w')
    show "svc_at w' j = svc_at w j" if "s_state (svc_at w j) = TINIT_SVC_STOPPED_STAT"
      unfolding w' using k j that by (intro svc_stop_quiet) (auto simp: is_transient_def)
  next
    assume none: "\<forall>j. is_svc w' j \<longrightarrow> s_stopon_obsrv (svc_at w' j) = []"
    then have "svc_at w' j = svc_at w j" if "j < k" for j
      unfolding w' using k that obs [OF k] sv by (intro svc_stop_quiet) (auto simp: w')
    with none show "(\<forall>j. is_svc w j \<longrightarrow> s_stopon_obsrv (svc_at w j) = []) \<and> (\<forall>j < k. svc_at w' j = svc_at w j)"
      using obs sv by simp
  qed
  with svc_stop_on [OF k, of E k] show ?thesis
    by (auto simp: stop_count_def card_less_Suc_Collect All_less_Suc cnt' w')
qed

lemma stop_loop:
  assumes E: "timer_laws E" and ok: "world_ok w" and n: "n \<le> length (w_svcs w)"
    and run: "fold (stop_one_svc E) [0..<n] (0, w) = (cnt, w')"
  shows "stop_count w' n cnt \<and> world_ok w' \<and> statics w' = statics w"
  using n run
proof (induction n arbitrary: cnt w')
  case 0
  with ok show ?case
    by (simp add: stop_count_def)
next
  case (Suc n)
  obtain cnt1 w1 where one: "fold (stop_one_svc E) [0..<n] (0, w) = (cnt1, w1)"
    by fastforce
  with Suc have ih: "stop_count w1 n cnt1" "world_ok w1" "statics w1 = statics w"
    by simp_all
  from Suc.prems(2) one have last: "stop_one_svc E n (cnt1, w1) = (cnt, w')"
    by simp
  have n: "is_svc w1 n"
    using Suc.prems(1) statics_is_svc [OF ih(3)] by (simp add: is_svc_def)
  have "w' = stop_if_on E n w1"
    using stop_one_snd [of E n "(cnt1, w1)"] last by simp
  with stops.one [OF E ih(2) n] ih(3) stop_count_step [OF E ih(2) n ih(1) last] show ?case
    by simp
qed


section \<open>A directory, a switch, a start\<close>

text \<open>A target directory with a link to \<open>web\<close>'s configuration, a file and a dangling link.\<close>

definition demo_fs :: fs where
  "demo_fs = \<lparr>
     fs_opendir = (\<lambda>p. if p = ''/t/all'' then Inr
        [Inr \<lparr>d_type = DT_LNK, d_name = ''web''\<rparr>, Inr \<lparr>d_type = DT_REG, d_name = ''readme''\<rparr>,
         Inr \<lparr>d_type = DT_LNK, d_name = ''ghost''\<rparr>] else Inl ENOENT),
     fs_realpath = (\<lambda>p. if p = ''/t/all/web'' then Some ''/s/web.conf'' else None),
     fs_validate_path = (\<lambda>s n. if s = [] then - ENODATA else if length s \<ge> n then - ENAMETOOLONG
        else int (length s))\<rparr>"

definition demo_mem :: mem where
  "demo_mem = \<lparr>oom = [], live = 0, bad_free = False\<rparr>"

lemma demo_fs_ok: "fs_ok demo_fs"
  by (auto simp: fs_ok_def demo_fs_def)

lemma demo_target: "target_svcs demo_fs ''/s'' ''/t'' ''all'' boot = [1]"
  by code_simp

lemma demo_switch: "fst (tinit_target_switch sim_ext demo_fs ''/s'' ''/t'' ''all'' boot demo_mem) = 0"
  by code_simp

lemma demo_start: "fst (tinit_target_start sim_ext demo_fs ''/s'' ''/t'' ''all'' 0 demo_chan boot demo_mem) = 0"
  by code_simp

theorem target_switch_spec_witness:
  "\<exists>w' m'. tinit_target_switch sim_ext demo_fs ''/s'' ''/t'' ''all'' boot demo_mem = (0, w', m') \<and>
     svc_is_on w' 1 \<and> \<not> svc_is_on w' 0"
proof -
  obtain w' m' where run: "tinit_target_switch sim_ext demo_fs ''/s'' ''/t'' ''all'' boot demo_mem = (0, w', m')"
    using demo_switch by (metis prod_cases3 fst_conv)
  have "same_name boot 1 1" "\<not> same_name boot 1 0" "is_svc boot 0" "is_svc boot 1"
    by code_simp+
  then show ?thesis
    using target_switch_spec [OF sim_timer_laws boot_ok boot_log_true demo_fs_ok run] run
    by (simp add: demo_target)
qed

theorem target_start_spec_witness:
  "\<exists>c' w' m'. tinit_target_start sim_ext demo_fs ''/s'' ''/t'' ''all'' 0 demo_chan boot demo_mem = (0, c', w', m') \<and>
     svc_is_on w' 1 \<and> starts w' = [Log_starting 1]"
proof -
  obtain c' w' m' where run:
    "tinit_target_start sim_ext demo_fs ''/s'' ''/t'' ''all'' 0 demo_chan boot demo_mem = (0, c', w', m')"
    using demo_start by (metis prod_cases4 fst_conv)
  have "starts boot = []"
    by code_simp
  with target_start_spec [OF sim_timer_laws boot_ok boot_log_true demo_fs_ok run] run show ?thesis
    by (simp add: demo_target)
qed


section \<open>A count that never comes down\<close>

text \<open>
  C35. Once every service is stopped, a non-zero count never comes down: the stopping dispatcher then
  returns 0 whatever it reads, and changes neither the count nor any service. A count that is too
  high is a shutdown that does not end.
\<close>

theorem stopped_never_counted:
  assumes "world_ok w" "\<forall>i. is_svc w i \<longrightarrow> s_state (svc_at w i) = TINIT_SVC_STOPPED_STAT"
    and "waits_ok ws" "ch_cnt c \<noteq> 0"
    and "tinit_sigchan_dispatch_stopping E (Inr infos) c ws w = (r, c', ws', w')"
  shows "r = 0 \<and> c' = c \<and> w' = w"
proof -
  have child: "s_child (svc_at w i) = -1" if "is_svc w i" for i
    using world_okD(3) [OF assms(1) that] assms(2) that by (simp add: svc_wf_def)
  have pid: "tinit_repo_search_bypid w p = None" if "0 < p" for p
    using child that by (auto simp: tinit_repo_search_bypid_def search_svc_None)
  have reap: "tinit_sigchan_handle_sigchld E ws cnt w = (n, ws', w') \<Longrightarrow> waits_ok ws \<Longrightarrow>
      n = cnt \<and> w' = w \<and> waits_ok ws'" for ws cnt n ws' w'
  proof (induction ws arbitrary: cnt)
    case (Cons x ws)
    then have x: "wait_ok x" "waits_ok ws"
      by (simp_all add: waits_ok_def)
    show ?case
    proof (cases x)
      case (Inl err)
      with Cons.prems(1) x show ?thesis
        by (simp add: wait_ok_def)
    next
      case (Inr info)
      show ?thesis
      proof (cases "si_pid info = 0 \<or> si_signo info = 0")
        case True
        with Inr Cons.prems(1) x show ?thesis
          by auto
      next
        case False
        then have "si_signo info = SIGCHLD" "0 < si_pid info"
          using Inr x(1) by (auto simp: wait_ok_def)
        with False Inr Cons.prems(1) Cons.IH x pid [of "si_pid info"] show ?thesis
          by simp
      qed
    qed
  qed simp
  have loop: "stopping_loop E infos c ws w = (r, c', ws', w') \<Longrightarrow> waits_ok ws \<Longrightarrow> r = 0 \<and> c' = c \<and> w' = w"
    for ws
  proof (induction infos arbitrary: ws)
    case (Cons info infos)
    show ?case
    proof (cases "ssi_signo info = SIGCHLD")
      case True
      obtain n ws1 w1 where h: "tinit_sigchan_handle_sigchld E ws 0 w = (n, ws1, w1)"
        by (metis prod_cases3)
      with reap [OF h Cons.prems(2)] Cons True assms(4) show ?thesis
        by (simp add: Let_def)
    next
      case False
      with Cons show ?thesis by simp
    qed
  qed simp
  show ?thesis
    using assms(4,5) loop [OF _ assms(3)] by (simp add: tinit_sigchan_dispatch_stopping_def Let_def)
qed


text \<open>
  The two services of the scenario, \<open>net\<close> without stop commands, both running. \<open>tinit_target_stop\<close>
  counts two; the exit of \<open>web\<close> stops \<open>net\<close> in the same chain of notifications, and one is counted.
\<close>

definition mute_conf :: conf_svc where
  "mute_conf = net_conf\<lparr>c_stop := empty_seq\<rparr>"

definition mute_at :: "(svc \<Rightarrow> svc) \<Rightarrow> (svc \<Rightarrow> svc) \<Rightarrow> sim world" where
  "mute_at f g = world_of [f (net_svc\<lparr>s_conf := mute_conf\<rparr>), g web_svc]"

definition chld :: sfd_info where
  "chld = \<lparr>ssi_signo = SIGCHLD, ssi_code = 1\<rparr>"

lemma mute_links: "links_ok (mute_at (\<lambda>s. s) (\<lambda>s. s))"
  unfolding links_ok_def
proof (intro allI impI)
  fix i d
  assume "is_svc (mute_at (\<lambda>s. s) (\<lambda>s. s)) i"
  then have "i = 0 \<or> i = 1"
    by (auto simp: mute_at_def)
  then show "(\<forall>r \<in> set (svc_obsrv d (svc_at (mute_at (\<lambda>s. s) (\<lambda>s. s)) i)). obsrv_ok d (mute_at (\<lambda>s. s) (\<lambda>s. s)) i r) \<and>
      (\<forall>q. svc_poll d (svc_at (mute_at (\<lambda>s. s) (\<lambda>s. s)) i) = Some q \<longrightarrow> poll_ok d (mute_at (\<lambda>s. s) (\<lambda>s. s)) i q)"
    by (cases d) (auto simp: mute_at_def net_svc_def web_svc_def idle_svc_def svc_obsrv_def svc_poll_def
        obsrv_ok_def poll_ok_def notif_get_sink_def notif_get_src_def notif_at_def)
qed

lemma mute_ok: "world_ok (mute_at (run_ready 5) (run_ready 6))"
proof -
  have "statics (mute_at (run_ready 5) (run_ready 6)) = statics (mute_at (\<lambda>s. s) (\<lambda>s. s))"
    by (simp add: statics_def mute_at_def world_of_def)
  then have "links_ok (mute_at (run_ready 5) (run_ready 6))"
    using statics_links_ok mute_links by blast
  moreover have "conf_wf mute_conf"
    using demo_confs_wf(1) by (simp add: conf_wf_def conf_defs mute_conf_def empty_seq_def)
  then have "svc_wf (net_svc\<lparr>s_conf := mute_conf\<rparr>)"
    by (simp add: svc_wf_def net_svc_def idle_svc_def)
  ultimately show ?thesis
    by (simp add: world_ok_def svcs_wf_def mute_at_def less_Suc_eq) (simp add: world_of_def)
qed

theorem stopped_never_counted_witness:
  "case tinit_target_stop sim_ext demo_chan (mute_at (run_ready 5) (run_ready 6)) of (c, w) \<Rightarrow>
     (case tinit_sigchan_dispatch_stopping sim_ext (Inr [chld]) c [exited 6, Inl ECHILD] w of
        (r, c', ws, w') \<Rightarrow> map s_state (w_svcs w') = [TINIT_SVC_STOPPED_STAT, TINIT_SVC_STOPPED_STAT] \<and>
          ch_cnt c' = 1 \<and> fst (tinit_sigchan_dispatch_stopping sim_ext (Inr [chld]) c' [Inl ECHILD] w') = 0)"
proof -
  let ?w0 = "mute_at (run_ready 5) (run_ready 6)"
  obtain c w where stop: "tinit_target_stop sim_ext demo_chan ?w0 = (c, w)"
    by fastforce
  obtain r c' ws w' where disp:
    "tinit_sigchan_dispatch_stopping sim_ext (Inr [chld]) c [exited 6, Inl ECHILD] w = (r, c', ws, w')"
    by (metis prod_cases4)
  have res: "map s_state (w_svcs w') = [TINIT_SVC_STOPPED_STAT, TINIT_SVC_STOPPED_STAT] \<and> ch_cnt c' = 1 \<and> ch_cnt c = 2"
  proof -
    have "case tinit_target_stop sim_ext demo_chan ?w0 of (c, w) \<Rightarrow>
      (case tinit_sigchan_dispatch_stopping sim_ext (Inr [chld]) c [exited 6, Inl ECHILD] w of
        (r, c', ws, w') \<Rightarrow> map s_state (w_svcs w') = [TINIT_SVC_STOPPED_STAT, TINIT_SVC_STOPPED_STAT] \<and>
          ch_cnt c' = 1 \<and> ch_cnt c = 2)"
      by code_simp
    then show ?thesis
      by (simp add: stop disp)
  qed
  have ok1: "world_ok w"
    using stop_loop [OF sim_timer_laws mute_ok order_refl] stop
    by (auto simp: tinit_target_stop_def split: prod.splits)
  obtain n ws1 w1 where h: "tinit_sigchan_handle_sigchld sim_ext [exited 6, Inl ECHILD] 0 w = (n, ws1, w1)"
    by (metis prod_cases3)
  have waits: "waits_ok [exited 6, Inl ECHILD]" "waits_ok [Inl ECHILD]"
    by (simp_all add: waits_ok_def wait_ok_def exited_def)
  have ok: "world_ok w1"
    using wf.ops.sigchld [OF sim_vfork_ok ok1 waits(1) h] by blast
  have "w' = w1 \<or> w' = fault w1"
    using disp h res by (auto simp: tinit_sigchan_dispatch_stopping_def chld_def Let_def split: if_splits)
  moreover have "\<not> w_fault w'"
  proof -
    have "case tinit_target_stop sim_ext demo_chan ?w0 of (c, w) \<Rightarrow>
      (case tinit_sigchan_dispatch_stopping sim_ext (Inr [chld]) c [exited 6, Inl ECHILD] w of
        (r, c', ws, w') \<Rightarrow> \<not> w_fault w')"
      by code_simp
    then show ?thesis
      by (simp add: stop disp)
  qed
  ultimately have "world_ok w'"
    using ok by auto
  moreover have "\<forall>i. is_svc w' i \<longrightarrow> s_state (svc_at w' i) = TINIT_SVC_STOPPED_STAT"
  proof (intro allI impI)
    fix i
    assume "is_svc w' i"
    then have "map s_state (w_svcs w') ! i = s_state (svc_at w' i)" "i < length (map s_state (w_svcs w'))"
      by (simp_all add: is_svc_def svc_at_def)
    then show "s_state (svc_at w' i) = TINIT_SVC_STOPPED_STAT"
      using res by (auto simp: less_Suc_eq)
  qed
  moreover obtain r2 c2 ws2 w2 where last:
    "tinit_sigchan_dispatch_stopping sim_ext (Inr [chld]) c' [Inl ECHILD] w' = (r2, c2, ws2, w2)"
    by (metis prod_cases4)
  moreover have "ch_cnt c' \<noteq> 0"
    using res by simp
  ultimately have "r2 = 0"
    using stopped_never_counted [of w' "[Inl ECHILD]" c' sim_ext "[chld]" r2 c2 ws2 w2] waits(2) by blast
  with res last show ?thesis
    by (simp add: stop disp)
qed

end
