(* ===== verification/Srv.thy ===== *)
theory Srv imports Proto Target begin

text \<open>
  The control server (\<open>srv.c\<close>): parsing requests, building replies, the six requests, and the
  transport loops over the queue of datagram buffers. The buffer queue and the datagram socket
  belong to the utils package: they are records of operations over states of their own. The world,
  the allocations and the server's descriptor are passed explicitly.
\<close>

abbreviation (input) TINIT_SRV_SEND_BUFF_NR :: nat where "TINIT_SRV_SEND_BUFF_NR \<equiv> 16"

record dgram =
  d_data :: bytes
  d_bytes :: nat       \<comment> \<open>\<open>unsk.bytes\<close>, a \<open>size_t\<close>\<close>
  d_peer :: nat        \<comment> \<open>where the socket keeps the client's address\<close>

record 'q buffq =
  bq_init :: "nat \<Rightarrow> nat \<Rightarrow> int + 'q"
  bq_has_free :: "'q \<Rightarrow> bool"
  bq_dqueue_free :: "'q \<Rightarrow> dgram \<times> 'q"
  bq_release :: "dgram \<Rightarrow> 'q \<Rightarrow> 'q"
  bq_nqueue_busy :: "dgram \<Rightarrow> 'q \<Rightarrow> 'q"
  bq_has_busy :: "'q \<Rightarrow> bool"
  bq_dqueue_busy :: "'q \<Rightarrow> dgram \<times> 'q"
  bq_requeue_busy :: "dgram \<Rightarrow> 'q \<Rightarrow> 'q"

record ucred =
  c_uid :: nat
  c_gid :: nat

record 'u unsk =
  us_open :: "string \<Rightarrow> 'u \<Rightarrow> int \<times> 'u"
  us_recv :: "dgram \<Rightarrow> nat \<Rightarrow> 'u \<Rightarrow> int \<times> dgram \<times> ucred \<times> 'u"
  us_send :: "dgram \<Rightarrow> 'u \<Rightarrow> int \<times> 'u"
  us_enable_out :: "'u \<Rightarrow> 'u"      \<comment> \<open>\<open>upoll_enable_watch\<close> of \<open>EPOLLOUT\<close>\<close>
  us_disable_out :: "'u \<Rightarrow> 'u"
  us_apply_watch :: "'u \<Rightarrow> 'u"
  us_close :: "'u \<Rightarrow> int \<times> 'u"

record ('q, 'u) srv =
  sv_unsk :: 'u
  sv_buffq :: 'q
  sv_pattern :: bytes

text \<open>What the requests act through: supervision, the file system, \<open>fnmatch\<close> with the flags of the
  source, and the directories and group of the build configuration.\<close>

record 'k env =
  e_ext :: "'k ext"
  e_fs :: fs
  e_fnmatch :: "string \<Rightarrow> string \<Rightarrow> int"
  e_incl :: string
  e_sysconf :: string
  e_gid :: nat

section \<open>Payloads\<close>

definition tinit_srv_parse_request :: "dgram \<Rightarrow> bytes \<Rightarrow> (int + msg_type \<times> nat) \<times> bytes" where
  "tinit_srv_parse_request buff pattern =
     (let sz = nat ((int (d_bytes buff) - int request_size) mod 2 ^ 64)
      in if sz \<le> 1 \<or> sz > SVC_PATTERN_MAX then (Inl (- EPROTO), pattern)
         else if get16 (d_data buff) 2 \<ge> TINIT_MSG_TYPE_NR then (Inl (- EPROTO), pattern)
         else if strnlen (drop request_size (d_data buff)) sz + 1 \<noteq> sz then (Inl (- EPROTO), pattern)
         else (Inr (msg_types ! get16 (d_data buff) 2, sz - 1),
               poke 0 (take sz (drop request_size (d_data buff))) pattern))"

definition tinit_srv_build_reply :: "dgram \<Rightarrow> int \<Rightarrow> 'k world \<Rightarrow> dgram \<times> 'k world" where
  "tinit_srv_build_reply buff ret w =
     (if ret > 0 \<or> ret < - 4096 \<or> get16 (d_data buff) 2 \<ge> TINIT_MSG_TYPE_NR then (buff, fault w)
      else (buff\<lparr>d_data := poke 4 (u16 (nat (- ret))) (d_data buff), d_bytes := head_size\<rparr>, w))"

definition tinit_srv_setup_status_reply :: "dgram \<Rightarrow> 'k world \<Rightarrow> dgram \<times> 'k world" where
  "tinit_srv_setup_status_reply buff w =
     (if get16 (d_data buff) 2 \<noteq> type_no TINIT_STATUS_MSG_TYPE then (buff, fault w)
      else (buff\<lparr>d_data := poke 4 (u16 0) (d_data buff), d_bytes := reply_size\<rparr>, w))"

text \<open>\<open>path\<close> is the C string, \<open>len\<close> its length.\<close>

definition tinit_srv_append_status_reply ::
  "dgram \<Rightarrow> int \<Rightarrow> bool \<Rightarrow> svc_state \<Rightarrow> string \<Rightarrow> nat \<Rightarrow> 'k world \<Rightarrow> int \<times> dgram \<times> 'k world" where
  "tinit_srv_append_status_reply buff pid on state path len w =
     (if len = 0 \<or> len \<ge> NAME_MAX \<or> get16 (d_data buff) 4 \<noteq> 0 \<or>
         d_bytes buff < reply_size \<or> d_bytes buff > TINIT_MSG_SIZE_MAX
      then (0, buff, fault w)
      else let st = stroll_round_upper (d_bytes buff) status_size;
               sz = st + status_size + len + 1
           in if sz > TINIT_MSG_SIZE_MAX then
                (- ENOSPC,
                 buff\<lparr>d_data := poke 4 (u16 (nat ENOSPC)) (d_data buff), d_bytes := head_size\<rparr>, w)
              else
                (0,
                 buff\<lparr>d_data := poke (st + path_off) (take len path @ [NUL])
                        (poke (st + 5) (u8 (state_no state)) (poke (st + 4) (u8 (of_bool on))
                           (poke st (u32 (u32_of_int pid)) (d_data buff)))),
                      d_bytes := sz\<rparr>, w))"

section \<open>Requests\<close>

text \<open>The loop over the repository; \<open>cnt\<close> is the number of services that match.\<close>

fun status_loop :: "(string \<Rightarrow> string \<Rightarrow> int) \<Rightarrow> string \<Rightarrow> svc_id list \<Rightarrow> nat \<Rightarrow> dgram \<Rightarrow> 'k world \<Rightarrow>
    dgram \<times> 'k world" where
  "status_loop fnm pattern [] cnt buff w =
     (if cnt = 0 then tinit_srv_build_reply buff (- ENOENT) w else (buff, w))"
| "status_loop fnm pattern (i # is) cnt buff w =
     (case conf_get_name (s_conf (svc_at w i)) of
        None \<Rightarrow> (buff, fault w)
      | Some name \<Rightarrow>
          (let ret = fnm pattern (cstr name)
           in if ret = FNM_NOMATCH then status_loop fnm pattern is cnt buff w
              else if ret \<noteq> 0 then tinit_srv_build_reply buff (- EINVAL) w
              else case conf_get_path (s_conf (svc_at w i)) of
                None \<Rightarrow> (buff, fault w)
              | Some path \<Rightarrow>
                  (case tinit_srv_append_status_reply buff (s_child (svc_at w i)) (svc_is_on w i)
                      (s_state (svc_at w i)) (cstr path) (length (cstr path)) w of
                     (r, buff1, w1) \<Rightarrow>
                       if r \<noteq> 0 then (buff1, w1) else status_loop fnm pattern is (Suc cnt) buff1 w1)))"

definition tinit_srv_request_status :: "(string \<Rightarrow> string \<Rightarrow> int) \<Rightarrow> dgram \<Rightarrow> string \<Rightarrow> 'k world \<Rightarrow>
    int \<times> dgram \<times> 'k world" where
  "tinit_srv_request_status fnm buff pattern w =
     (case tinit_srv_setup_status_reply buff w of
        (buff1, w1) \<Rightarrow> (0, status_loop fnm pattern [0..<length (w_svcs w1)] 0 buff1 w1))"

text \<open>The three requests on a named service share their frame: check the name, find the service,
  act on it, reply.\<close>

definition request_named :: "(svc_id \<Rightarrow> 'k world \<Rightarrow> 'k world) \<Rightarrow> dgram \<Rightarrow> string \<Rightarrow> nat \<Rightarrow> 'k world \<Rightarrow>
    int \<times> dgram \<times> 'k world" where
  "request_named act buff name len w =
     (let ret = tinit_check_svc_name name len
      in if ret \<noteq> 0 then (0, tinit_srv_build_reply buff ret w)
         else case tinit_repo_search_byname w name of
           Some i \<Rightarrow> (0, tinit_srv_build_reply buff 0 (act i w))
         | None \<Rightarrow> (0, tinit_srv_build_reply buff (- ENOENT) w))"

definition start_named :: "'k ext \<Rightarrow> svc_id \<Rightarrow> 'k world \<Rightarrow> 'k world" where
  "start_named E i w = (case s_state (svc_at w i) of
      TINIT_SVC_STARTING_STAT \<Rightarrow> w
    | TINIT_SVC_READY_STAT \<Rightarrow> w
    | _ \<Rightarrow> svc_start E i w)"

definition tinit_srv_request_start :: "'k ext \<Rightarrow> dgram \<Rightarrow> string \<Rightarrow> nat \<Rightarrow> 'k world \<Rightarrow> int \<times> dgram \<times> 'k world" where
  "tinit_srv_request_start E = request_named (start_named E)"

definition stop_named :: "'k ext \<Rightarrow> svc_id \<Rightarrow> 'k world \<Rightarrow> 'k world" where
  "stop_named E i w = (case s_state (svc_at w i) of
      TINIT_SVC_STOPPED_STAT \<Rightarrow> w
    | TINIT_SVC_STOPPING_STAT \<Rightarrow> w
    | _ \<Rightarrow> svc_stop E i w)"

definition tinit_srv_request_stop :: "'k ext \<Rightarrow> dgram \<Rightarrow> string \<Rightarrow> nat \<Rightarrow> 'k world \<Rightarrow> int \<times> dgram \<times> 'k world" where
  "tinit_srv_request_stop E = request_named (stop_named E)"

definition tinit_srv_request_restart :: "dgram \<Rightarrow> string \<Rightarrow> nat \<Rightarrow> 'k world \<Rightarrow> int \<times> dgram \<times> 'k world" where
  "tinit_srv_request_restart buff name len w = (0, tinit_srv_build_reply buff 0 w)"

definition reload_named :: "'k ext \<Rightarrow> svc_id \<Rightarrow> 'k world \<Rightarrow> 'k world" where
  "reload_named E i w = (case s_state (svc_at w i) of
      TINIT_SVC_STOPPED_STAT \<Rightarrow> svc_start E i w
    | TINIT_SVC_STOPPING_STAT \<Rightarrow> svc_start E i w
    | TINIT_SVC_STARTING_STAT \<Rightarrow> w
    | TINIT_SVC_READY_STAT \<Rightarrow> svc_reload E i w)"

definition tinit_srv_request_reload :: "'k ext \<Rightarrow> dgram \<Rightarrow> string \<Rightarrow> nat \<Rightarrow> 'k world \<Rightarrow> int \<times> dgram \<times> 'k world" where
  "tinit_srv_request_reload E = request_named (reload_named E)"

definition tinit_srv_request_switch :: "'k env \<Rightarrow> dgram \<Rightarrow> string \<Rightarrow> nat \<Rightarrow> 'k world \<Rightarrow> mem \<Rightarrow>
    int \<times> dgram \<times> 'k world \<times> mem" where
  "tinit_srv_request_switch V buff name len w m =
     (let ret = tinit_check_svc_name name len;
          (ret, w1, m1) = (if ret = 0 then tinit_target_switch (e_ext V) (e_fs V) (e_incl V) (e_sysconf V) name w m
                           else (ret, w, m));
          (buff1, w2) = tinit_srv_build_reply buff ret w1
      in (0, buff1, w2, m1))"

section \<open>Transport\<close>

definition tinit_srv_are_creds_ok :: "nat \<Rightarrow> ucred \<Rightarrow> bool" where
  "tinit_srv_are_creds_ok gid creds \<longleftrightarrow> c_uid creds = 0 \<or> c_gid creds = gid"

definition tinit_srv_recv :: "'u unsk \<Rightarrow> nat \<Rightarrow> dgram \<Rightarrow> 'u \<Rightarrow> 'k world \<Rightarrow> int \<times> dgram \<times> 'u \<times> 'k world" where
  "tinit_srv_recv U gid buff u w = (case us_recv U buff TINIT_MSG_SIZE_MAX u of
      (ret, buff1, creds, u1) \<Rightarrow>
        if ret = 0 then
          (if tinit_srv_are_creds_ok gid creds then (0, buff1, u1, w) else (- EACCES, buff1, u1, w))
        else if ret \<in> {- EAGAIN, - EINTR, - ENOMEM, - EADDRNOTAVAIL, - EMSGSIZE, - EPROTO} then (ret, buff1, u1, w)
        else (ret, buff1, u1, fault w))"

definition tinit_srv_process_request :: "'k env \<Rightarrow> dgram \<Rightarrow> bytes \<Rightarrow> 'k world \<Rightarrow> mem \<Rightarrow>
    int \<times> dgram \<times> bytes \<times> 'k world \<times> mem" where
  "tinit_srv_process_request V buff pattern w m = (case tinit_srv_parse_request buff pattern of
      (Inl err, pat) \<Rightarrow> (err, buff, pat, w, m)
    | (Inr (type, len), pat) \<Rightarrow>
        (let name = cstr pat;
             keep = (\<lambda>(ret, b, w1). (ret, b, pat, w1, m))
         in case type of
              TINIT_STATUS_MSG_TYPE \<Rightarrow> keep (tinit_srv_request_status (e_fnmatch V) buff name w)
            | TINIT_START_MSG_TYPE \<Rightarrow> keep (tinit_srv_request_start (e_ext V) buff name len w)
            | TINIT_STOP_MSG_TYPE \<Rightarrow> keep (tinit_srv_request_stop (e_ext V) buff name len w)
            | TINIT_RESTART_MSG_TYPE \<Rightarrow> keep (tinit_srv_request_restart buff name len w)
            | TINIT_RELOAD_MSG_TYPE \<Rightarrow> keep (tinit_srv_request_reload (e_ext V) buff name len w)
            | TINIT_SWITCH_MSG_TYPE \<Rightarrow>
                (case tinit_srv_request_switch V buff name len w m of
                   (ret, b, w1, m1) \<Rightarrow> (ret, b, pat, w1, m1))))"

text \<open>One turn of the loop of \<open>tinit_srv_handle_requests\<close>: its result decides whether to go on.\<close>

definition handle_one_request :: "'k env \<Rightarrow> 'q buffq \<Rightarrow> 'u unsk \<Rightarrow> ('q, 'u) srv \<Rightarrow> 'k world \<Rightarrow> mem \<Rightarrow>
    int \<times> ('q, 'u) srv \<times> 'k world \<times> mem" where
  "handle_one_request V Q U sv w m =
     (case bq_dqueue_free Q (sv_buffq sv) of (buff, q) \<Rightarrow>
      case tinit_srv_recv U (e_gid V) buff (sv_unsk sv) w of (ret, buff1, u, w1) \<Rightarrow>
        if ret \<noteq> 0 then (ret, sv\<lparr>sv_unsk := u, sv_buffq := bq_release Q buff1 q\<rparr>, w1, m)
        else case tinit_srv_process_request V buff1 (sv_pattern sv) w1 m of (ret2, buff2, pat, w2, m2) \<Rightarrow>
          (ret2, sv\<lparr>sv_unsk := u, sv_pattern := pat,
             sv_buffq := (if ret2 = 0 then bq_nqueue_busy Q buff2 q else bq_release Q buff2 q)\<rparr>, w2, m2))"

partial_function (option) tinit_srv_handle_requests :: "'k env \<Rightarrow> 'q buffq \<Rightarrow> 'u unsk \<Rightarrow> ('q, 'u) srv \<Rightarrow> 'k world \<Rightarrow>
    mem \<Rightarrow> (int \<times> ('q, 'u) srv \<times> 'k world \<times> mem) option" where
  "tinit_srv_handle_requests V Q U sv w m =
     (if \<not> bq_has_free Q (sv_buffq sv) then Some (0, sv, w, m)
      else case handle_one_request V Q U sv w m of (ret, sv1, w1, m1) \<Rightarrow>
        if ret = - EAGAIN then Some (0, sv1, w1, m1)
        else if ret = - EINTR \<or> ret = - ENOMEM then Some (ret, sv1, w1, m1)
        else tinit_srv_handle_requests V Q U sv1 w1 m1)"

definition tinit_srv_send :: "'u unsk \<Rightarrow> dgram \<Rightarrow> 'u \<Rightarrow> 'k world \<Rightarrow> int \<times> 'u \<times> 'k world" where
  "tinit_srv_send U buff u w = (case us_send U buff u of
      (ret, u1) \<Rightarrow>
        if ret \<in> {0, - EAGAIN, - EINTR, - ENOMEM, - ECONNREFUSED} then (ret, u1, w) else (ret, u1, fault w))"

partial_function (option) tinit_srv_handle_replies :: "'q buffq \<Rightarrow> 'u unsk \<Rightarrow> ('q, 'u) srv \<Rightarrow> 'k world \<Rightarrow>
    (int \<times> ('q, 'u) srv \<times> 'k world) option" where
  "tinit_srv_handle_replies Q U sv w =
     (if \<not> bq_has_busy Q (sv_buffq sv) then Some (0, sv\<lparr>sv_unsk := us_disable_out U (sv_unsk sv)\<rparr>, w)
      else case bq_dqueue_busy Q (sv_buffq sv) of (buff, q) \<Rightarrow>
           case tinit_srv_send U buff (sv_unsk sv) w of (ret, u, w1) \<Rightarrow>
        if ret = 0 \<or> ret = - ECONNREFUSED
        then tinit_srv_handle_replies Q U (sv\<lparr>sv_unsk := u, sv_buffq := bq_release Q buff q\<rparr>) w1
        else if ret = - EAGAIN
        then Some (0, sv\<lparr>sv_unsk := us_enable_out U u, sv_buffq := bq_requeue_busy Q buff q\<rparr>, w1)
        else if ret = - EINTR then Some (- EINTR, sv\<lparr>sv_unsk := u, sv_buffq := bq_requeue_busy Q buff q\<rparr>, w1)
        else if ret = - ENOMEM then Some (- ENOMEM, sv\<lparr>sv_unsk := u, sv_buffq := bq_release Q buff q\<rparr>, w1)
        else Some (ret, sv\<lparr>sv_unsk := u, sv_buffq := q\<rparr>, w1))"

text \<open>The events of a poll, as the bits the handler tests.\<close>

record pollst =
  ev_in :: bool
  ev_out :: bool
  ev_other :: bool   \<comment> \<open>\<open>EPOLLRDHUP\<close>, \<open>EPOLLPRI\<close>, \<open>EPOLLERR\<close> or \<open>EPOLLHUP\<close>\<close>

definition tinit_srv_dispatch :: "'k env \<Rightarrow> 'q buffq \<Rightarrow> 'u unsk \<Rightarrow> pollst \<Rightarrow> ('q, 'u) srv \<Rightarrow> 'k world \<Rightarrow> mem \<Rightarrow>
    (int \<times> ('q, 'u) srv \<times> 'k world \<times> mem) option" where
  "tinit_srv_dispatch V Q U st sv w m =
     (if ev_other st \<or> \<not> (ev_in st \<or> ev_out st) then Some (0, sv, fault w, m)
      else case (if ev_in st then tinit_srv_handle_requests V Q U sv w m else Some (0, sv, w, m)) of
        None \<Rightarrow> None
      | Some (ret, sv1, w1, m1) \<Rightarrow>
          if ret \<noteq> 0 then Some (ret, sv1, w1, m1)
          else case tinit_srv_handle_replies Q U sv1 w1 of
            None \<Rightarrow> None
          | Some (ret, sv2, w2) \<Rightarrow> Some (ret, sv2\<lparr>sv_unsk := us_apply_watch U (sv_unsk sv2)\<rparr>, w2, m1))"

text \<open>\<open>block\<close> is the uninitialised memory \<open>malloc\<close> returns for the pattern.\<close>

definition tinit_srv_open :: "'q buffq \<Rightarrow> 'u unsk \<Rightarrow> bytes \<Rightarrow> string \<Rightarrow> 'u \<Rightarrow> mem \<Rightarrow> (int + ('q, 'u) srv) \<times> 'u \<times> mem" where
  "tinit_srv_open Q U block path u m =
     (case bq_init Q TINIT_MSG_SIZE_MAX TINIT_SRV_SEND_BUFF_NR of
        Inl err \<Rightarrow> (Inl err, u, m)
      | Inr q \<Rightarrow> (case mem_alloc m of
            (False, m1) \<Rightarrow> (Inl (- ENOMEM), u, m1)
          | (True, m1) \<Rightarrow> (case us_open U path u of
                (err, u1) \<Rightarrow>
                  if err \<noteq> 0 then (Inl err, u1, mem_free 1 m1)
                  else (Inr \<lparr>sv_unsk = u1, sv_buffq = q, sv_pattern = block\<rparr>, u1, m1))))"

definition tinit_srv_close :: "'u unsk \<Rightarrow> ('q, 'u) srv \<Rightarrow> mem \<Rightarrow> 'u \<times> mem" where
  "tinit_srv_close U sv m = (snd (us_close U (sv_unsk sv)), mem_free 1 m)"

end
