(* ===== verification/Lib.thy ===== *)
theory Lib imports Proto Names Conf begin

text \<open>
  The client library (\<open>lib.c\<close>, \<open>tinit.h\<close>): building a request, parsing the two kinds of reply,
  walking the list of statuses of a reply, and the exchanges of a client with the daemon. The reply
  buffer of the socket is a list of bytes the parser writes to; an iterator is an offset into it.
  The datagram socket of the utils package is the record \<open>clnt\<close> of operations over a state of its
  own.
\<close>

record sock =
  sk_seqno :: "16 word"
  sk_reply :: bytes

record status_iter =
  it_end :: nat
  it_status :: nat       \<comment> \<open>offset of the current status\<close>
  it_len :: nat          \<comment> \<open>length of its path\<close>

record 'n clnt =
  cl_send :: "bytes \<Rightarrow> 'n \<Rightarrow> int \<times> 'n"
  cl_recv :: "nat \<Rightarrow> 'n \<Rightarrow> (int + bytes) \<times> 'n"    \<comment> \<open>a negative error or the datagram received\<close>
  cl_open :: "'n \<Rightarrow> int \<times> 'n"
  cl_connect :: "'n \<Rightarrow> int \<times> 'n"
  cl_close :: "'n \<Rightarrow> 'n"

section \<open>Statuses of a reply\<close>

definition tinit_parse_status_data :: "nat \<Rightarrow> nat \<Rightarrow> bytes \<Rightarrow> int \<times> bytes" where
  "tinit_parse_status_data st fin b =
     (if st + path_off < fin then
        (let mx = min (fin - (st + path_off)) SVC_PATH_MAX;
             len = strnlen (drop (st + path_off) b) mx
         in if len = 0 \<or> len \<ge> mx then (- EPROTO, b)
            else if byte_at b (st + 4) = 0 then
              (if byte_at b (st + 5) = state_no TINIT_SVC_STOPPED_STAT \<or>
                  byte_at b (st + 5) = state_no TINIT_SVC_STOPPING_STAT
               then (int len, poke st (u32 0) b)
               else (- EPROTO, b))
            else if byte_at b (st + 4) = 1 then
              (if byte_at b (st + 5) = state_no TINIT_SVC_STARTING_STAT then (int len, poke st (u32 0) b)
               else if byte_at b (st + 5) = state_no TINIT_SVC_READY_STAT then
                 (if get32 b st = 0 then (- EPROTO, b) else (int len, b))
               else (- EPROTO, b))
            else (- EPROTO, b))
      else (- ENOENT, b))"

definition tinit_step_status :: "status_iter \<Rightarrow> bytes \<Rightarrow> int \<times> status_iter \<times> bytes" where
  "tinit_step_status it b =
     (let nxt = it_status it + stroll_round_upper (status_size + it_len it + 1) status_size
      in case tinit_parse_status_data nxt (it_end it) b of
        (len, b') \<Rightarrow>
          if len < 0 then (len, it, b')
          else (0, it\<lparr>it_len := nat len, it_status := nxt\<rparr>, b'))"

definition tinit_parse_status_reply :: "status_iter \<Rightarrow> bytes \<Rightarrow> nat \<Rightarrow> 16 word \<Rightarrow> int \<times> status_iter \<times> bytes" where
  "tinit_parse_status_reply it b sz seqno =
     (if sz < head_size \<or> get16 b 0 \<noteq> unat seqno \<or> get16 b 2 \<noteq> type_no TINIT_STATUS_MSG_TYPE then (- EPROTO, it, b)
      else if get16 b 4 \<noteq> 0 then (- int (get16 b 4), it, b)
      else if sz < reply_size then (- EPROTO, it, b)
      else case tinit_parse_status_data reply_size sz b of
        (len, b') \<Rightarrow>
          if len < 0 then (- EPROTO, it, b')
          else (0, \<lparr>it_end = sz, it_status = reply_size, it_len = nat len\<rparr>, b'))"

text \<open>The accessors, and the check they make when assertions are built in.\<close>

definition tinit_assert_status_iter :: "status_iter \<Rightarrow> bytes \<Rightarrow> bool" where
  "tinit_assert_status_iter it b \<longleftrightarrow>
     (let pid = get32 b (it_status it); adm = byte_at b (it_status it + 4); run = byte_at b (it_status it + 5)
      in it_len it \<noteq> 0 \<and> length (cstr (drop (it_status it + path_off) b)) = it_len it \<and>
         (run = state_no TINIT_SVC_STOPPED_STAT \<or> run = state_no TINIT_SVC_STOPPING_STAT \<longrightarrow> pid = 0 \<and> adm = 0) \<and>
         (run = state_no TINIT_SVC_STARTING_STAT \<longrightarrow> pid = 0 \<and> adm = 1) \<and>
         (run = state_no TINIT_SVC_READY_STAT \<longrightarrow> pid \<noteq> 0 \<and> adm = 1) \<and>
         run \<le> 3)"

definition tinit_get_status_pid :: "status_iter \<Rightarrow> bytes \<Rightarrow> int" where
  "tinit_get_status_pid it b =
     (let n = int (get32 b (it_status it)) in if n < 2 ^ 31 then n else n - 2 ^ 32)"

definition tinit_get_status_adm_state :: "status_iter \<Rightarrow> bytes \<Rightarrow> bool" where
  "tinit_get_status_adm_state it b \<longleftrightarrow> byte_at b (it_status it + 4) \<noteq> 0"

definition tinit_get_status_run_state :: "status_iter \<Rightarrow> bytes \<Rightarrow> nat" where
  "tinit_get_status_run_state it b = byte_at b (it_status it + 5)"

text \<open>\<open>incl\<close> is \<open>CONFIG_TINIT_INCLUDE_DIR\<close>; the path is built in a block of its own.\<close>

definition status_conf_path :: "string \<Rightarrow> status_iter \<Rightarrow> bytes \<Rightarrow> bytes" where
  "status_conf_path incl it b =
     incl @ ''/'' @ take (it_len it + 1) (drop (it_status it + path_off) b)"

definition tinit_get_status_conf :: "'s libcfg \<Rightarrow> (string \<Rightarrow> 's cfg_read) \<Rightarrow> int \<Rightarrow> string \<Rightarrow> status_iter \<Rightarrow> bytes \<Rightarrow>
    mem \<Rightarrow> conf_svc option \<times> mem" where
  "tinit_get_status_conf C read junk incl it b m = (case mem_alloc m of
      (False, m1) \<Rightarrow> (None, m1)
    | (True, m1) \<Rightarrow> (case conf_create_from_file C read junk (cstr (status_conf_path incl it b)) m1 of
          (Inl err, m2) \<Rightarrow> (None, mem_free 1 m2)
        | (Inr conf, m2) \<Rightarrow> (Some conf, mem_free 1 m2)))"

section \<open>Requests and exchanges\<close>

text \<open>The buffer is the caller's, uninitialised; the number of its bytes to send is returned.\<close>

definition tinit_build_request :: "bytes \<Rightarrow> 16 word \<Rightarrow> msg_type \<Rightarrow> string \<Rightarrow> nat \<Rightarrow> bytes \<times> nat" where
  "tinit_build_request buff seqno type name len =
     (poke (request_size + len) (u8 0) (poke request_size (take len name)
        (poke 2 (u16 (type_no type)) (poke 0 (u16 (unat seqno)) buff))),
      request_size + len + 1)"

definition tinit_load_status :: "'n clnt \<Rightarrow> bytes \<Rightarrow> sock \<Rightarrow> string \<Rightarrow> nat \<Rightarrow> status_iter \<Rightarrow> 'n \<Rightarrow>
    int \<times> status_iter \<times> sock \<times> 'n" where
  "tinit_load_status C req sk pattern len it n =
     (let seqno = sk_seqno sk;
          (buff, sz) = tinit_build_request req seqno TINIT_STATUS_MSG_TYPE pattern len;
          (ret, n1) = cl_send C (take sz buff) n
      in if ret \<noteq> 0 then (ret, it, sk, n1)
         else let sk1 = sk\<lparr>sk_seqno := seqno + 1\<rparr>
              in case cl_recv C TINIT_MSG_SIZE_MAX n1 of
                (Inl err, n2) \<Rightarrow> (err, it, sk1, n2)
              | (Inr msg, n2) \<Rightarrow>
                  (case tinit_parse_status_reply it (poke 0 msg (sk_reply sk1)) (length msg) seqno of
                     (r, it', b) \<Rightarrow> (r, it', sk1\<lparr>sk_reply := b\<rparr>, n2)))"

definition tinit_parse_named_reply :: "bytes \<Rightarrow> nat \<Rightarrow> 16 word \<Rightarrow> msg_type \<Rightarrow> int" where
  "tinit_parse_named_reply b sz seqno type =
     (if sz \<noteq> head_size \<or> get16 b 0 \<noteq> unat seqno \<or> get16 b 2 \<noteq> type_no type then - EPROTO
      else - int (get16 b 4))"

definition tinit_named_chat :: "'n clnt \<Rightarrow> bytes \<Rightarrow> sock \<Rightarrow> msg_type \<Rightarrow> string \<Rightarrow> nat \<Rightarrow> 'n \<Rightarrow> int \<times> sock \<times> 'n" where
  "tinit_named_chat C req sk type name len n =
     (let seqno = sk_seqno sk;
          (buff, sz) = tinit_build_request req seqno type name len;
          (ret, n1) = cl_send C (take sz buff) n
      in if ret \<noteq> 0 then (ret, sk, n1)
         else let sk1 = sk\<lparr>sk_seqno := seqno + 1\<rparr>
              in case cl_recv C TINIT_MSG_SIZE_MAX n1 of
                (Inl err, n2) \<Rightarrow> (err, sk1, n2)
              | (Inr msg, n2) \<Rightarrow>
                  (let sk2 = sk1\<lparr>sk_reply := poke 0 msg (sk_reply sk1)\<rparr>
                   in (tinit_parse_named_reply (sk_reply sk2) (length msg) seqno type, sk2, n2)))"

definition tinit_start_svc :: "'n clnt \<Rightarrow> bytes \<Rightarrow> sock \<Rightarrow> string \<Rightarrow> nat \<Rightarrow> 'n \<Rightarrow> int \<times> sock \<times> 'n" where
  "tinit_start_svc C req sk name len n = tinit_named_chat C req sk TINIT_START_MSG_TYPE name len n"

definition tinit_stop_svc :: "'n clnt \<Rightarrow> bytes \<Rightarrow> sock \<Rightarrow> string \<Rightarrow> nat \<Rightarrow> 'n \<Rightarrow> int \<times> sock \<times> 'n" where
  "tinit_stop_svc C req sk name len n = tinit_named_chat C req sk TINIT_STOP_MSG_TYPE name len n"

definition tinit_restart_svc :: "'n clnt \<Rightarrow> bytes \<Rightarrow> sock \<Rightarrow> string \<Rightarrow> nat \<Rightarrow> 'n \<Rightarrow> int \<times> sock \<times> 'n" where
  "tinit_restart_svc C req sk name len n = tinit_named_chat C req sk TINIT_RESTART_MSG_TYPE name len n"

definition tinit_reload_svc :: "'n clnt \<Rightarrow> bytes \<Rightarrow> sock \<Rightarrow> string \<Rightarrow> nat \<Rightarrow> 'n \<Rightarrow> int \<times> sock \<times> 'n" where
  "tinit_reload_svc C req sk name len n = tinit_named_chat C req sk TINIT_RELOAD_MSG_TYPE name len n"

definition tinit_switch_target :: "'n clnt \<Rightarrow> bytes \<Rightarrow> sock \<Rightarrow> string \<Rightarrow> nat \<Rightarrow> 'n \<Rightarrow> int \<times> sock \<times> 'n" where
  "tinit_switch_target C req sk name len n = tinit_named_chat C req sk TINIT_SWITCH_MSG_TYPE name len n"

text \<open>The block \<open>malloc\<close> returns is uninitialised: its bytes are the argument \<open>block\<close>.\<close>

definition tinit_open_sock :: "'n clnt \<Rightarrow> bytes \<Rightarrow> 16 word \<Rightarrow> mem \<Rightarrow> 'n \<Rightarrow> (int + sock) \<times> mem \<times> 'n" where
  "tinit_open_sock C block seqno m n = (case mem_alloc m of
      (False, m1) \<Rightarrow> (Inl (- ENOMEM), m1, n)
    | (True, m1) \<Rightarrow> (case cl_open C n of
          (err, n1) \<Rightarrow>
            if err \<noteq> 0 then (Inl err, mem_free 1 m1, n1)
            else (case cl_connect C n1 of
              (err, n2) \<Rightarrow>
                if err \<noteq> 0 then (Inl err, mem_free 1 m1, cl_close C n2)
                else (Inr \<lparr>sk_seqno = seqno, sk_reply = block\<rparr>, m1, n2))))"

definition tinit_close_sock :: "'n clnt \<Rightarrow> mem \<Rightarrow> 'n \<Rightarrow> mem \<times> 'n" where
  "tinit_close_sock C m n = (mem_free 1 m, cl_close C n)"

section \<open>What the parser accepts\<close>

lemma strnlen_take: "strnlen s k = length (takeWhile (\<lambda>c. c \<noteq> NUL) (take k s))"
  by (simp add: strnlen_def cstr_def)

lemma strnlen_less_cstr:
  assumes "strnlen s k < k" "k \<le> length s"
  shows "strnlen s k < length s" "s ! strnlen s k = NUL" "length (cstr s) = strnlen s k" "cstr s = take (strnlen s k) s"
proof -
  let ?t = "takeWhile (\<lambda>c. c \<noteq> NUL) (take k s)"
  have lt: "length ?t < length (take k s)"
    using assms by (simp add: strnlen_take)
  then show "strnlen s k < length s"
    using assms(2) by (simp add: strnlen_take)
  show nul: "s ! strnlen s k = NUL"
    using nth_length_takeWhile [OF lt] lt by (simp add: strnlen_take)
  have "\<exists>x \<in> set (take k s). x = NUL"
  proof (rule ccontr)
    assume "\<not> ?thesis"
    then have "?t = take k s"
      by (auto simp: takeWhile_eq_all_conv)
    with lt show False by simp
  qed
  then have "takeWhile (\<lambda>c. c \<noteq> NUL) (take k s @ drop k s) = ?t"
    by (intro takeWhile_append1) auto
  then have c: "cstr s = ?t"
    by (simp add: cstr_def)
  then show l: "length (cstr s) = strnlen s k"
    by (simp add: strnlen_take)
  show "cstr s = take (strnlen s k) s"
    unfolding l [symmetric] cstr_def by (rule takeWhile_eq_take)
qed

lemma cstr_at:
  assumes "take (length p + 1) s = p @ [NUL]" "is_cstr p"
  shows "cstr s = p" "strnlen s k = min (length p) k"
proof -
  have s: "s = p @ NUL # drop (length p + 1) s"
    using assms(1) append_take_drop_id [of "length p + 1" s] by simp
  then show "cstr s = p"
    using cstr_append_NUL [OF assms(2)] by metis
  have "strnlen s k = strnlen (p @ NUL # drop (length p + 1) s) k"
    using s by simp
  also have "\<dots> = min (length p) k"
  proof (cases "k \<le> length p")
    case True
    then show ?thesis
      using assms(2) by (simp add: strnlen_def cstr_id is_cstr_take)
  next
    case False
    then obtain j where "k = length p + Suc j"
      by (metis add_Suc_right less_imp_Suc_add not_le)
    then show ?thesis
      using assms(2) by (simp add: strnlen_def cstr_append_NUL)
  qed
  finally show "strnlen s k = min (length p) k" .
qed

text \<open>
  The status at offset \<open>st\<close> of a buffer of \<open>fin\<close> bytes: a process id, whether the service is on,
  its state and the path of its configuration.
\<close>

record status =
  st_pid :: nat
  st_on :: bool
  st_state :: svc_state
  st_path :: string

definition status_at :: "bytes \<Rightarrow> nat \<Rightarrow> status \<Rightarrow> bool" where
  "status_at b st s \<longleftrightarrow>
     get32 b st = st_pid s \<and> byte_at b (st + 4) = of_bool (st_on s) \<and> byte_at b (st + 5) = state_no (st_state s) \<and>
     take (length (st_path s) + 1) (drop (st + path_off) b) = st_path s @ [NUL] \<and> is_cstr (st_path s)"

text \<open>What the client accepts, and the process id it then reports.\<close>

definition status_ok :: "status \<Rightarrow> bool" where
  "status_ok s \<longleftrightarrow>
     st_path s \<noteq> [] \<and> length (st_path s) < SVC_PATH_MAX \<and> st_pid s < 2 ^ 32 \<and>
     (st_on s \<longleftrightarrow> st_state s = TINIT_SVC_STARTING_STAT \<or> st_state s = TINIT_SVC_READY_STAT) \<and>
     (st_state s = TINIT_SVC_READY_STAT \<longrightarrow> st_pid s \<noteq> 0)"

definition seen :: "status \<Rightarrow> status" where
  "seen s = (if st_state s = TINIT_SVC_READY_STAT then s else s\<lparr>st_pid := 0\<rparr>)"

lemma state_no_inj [simp]: "state_no a = state_no b \<longleftrightarrow> a = b"
  by (cases a; cases b) simp_all

lemma state_no_le: "state_no a \<le> 3"
  by (cases a) simp_all

lemma status_at_poke_pid:
  assumes "status_at b st s" "st + path_off < length b"
  shows "status_at (poke st (u32 0) b) st (s\<lparr>st_pid := 0\<rparr>)"
proof -
  have "drop (st + path_off) (poke st (u32 0) b) = drop (st + path_off) b"
    using assms(2) by (simp add: poke_def add.commute)
  moreover have "get32 (poke st (u32 0) b) st = 0"
    using assms(2) by (intro get32_poke_same) simp_all
  ultimately show ?thesis
    using assms by (simp add: status_at_def byte_at_poke)
qed

lemma parse_status_data:
  assumes s: "status_at b st s" "status_ok s" and fin: "st + path_off + length (st_path s) + 1 < fin" "fin \<le> length b"
  shows "\<exists>b'. tinit_parse_status_data st fin b = (int (length (st_path s)), b') \<and> status_at b' st (seen s) \<and>
    length b' = length b \<and> (\<forall>k. st + 4 \<le> k \<and> k < length b \<longrightarrow> b' ! k = b ! k)"
proof -
  define mx where "mx = min (fin - (st + path_off)) SVC_PATH_MAX"
  let ?p = "poke st (u32 0) b"
  have len: "strnlen (drop (st + path_off) b) mx = length (st_path s)" "\<not> mx \<le> length (st_path s)"
    "length (st_path s) \<noteq> 0"
    using s fin cstr_at(2) [of "st_path s" "drop (st + path_off) b" mx]
    by (auto simp: status_at_def status_ok_def mx_def)
  have p: "status_at ?p st (s\<lparr>st_pid := 0\<rparr>)" "length ?p = length b" "\<forall>k. st + 4 \<le> k \<and> k < length b \<longrightarrow> ?p ! k = b ! k"
    using s(1) fin by (simp_all add: status_at_poke_pid nth_poke)
  have f: "get32 b st = st_pid s" "byte_at b (st + 4) = of_bool (st_on s)" "byte_at b (st + 5) = state_no (st_state s)"
    using s(1) by (simp_all add: status_at_def)
  have "st + path_off < fin"
    using fin by simp
  then have go: "tinit_parse_status_data st fin b =
      (if st_state s = TINIT_SVC_READY_STAT then (int (length (st_path s)), b) else (int (length (st_path s)), ?p))"
    using s(2) unfolding tinit_parse_status_data_def mx_def [symmetric] Let_def len(1) f
    by (cases "st_state s") (simp_all add: len(2,3) status_ok_def)
  show ?thesis
    using s(1) p unfolding go by (simp add: seen_def)
qed

text \<open>Conversely, the parser only accepts a status that is complete, and leaves it as the accessors
  expect it.\<close>

lemma parse_status_data_accepts:
  assumes "tinit_parse_status_data st fin b = (len, b')" "0 \<le> len" "fin \<le> length b"
  shows "\<exists>s. status_at b st s \<and> status_ok s \<and> nat len = length (st_path s) \<and> status_at b' st (seen s) \<and>
    st + path_off + nat len + 1 \<le> fin \<and> length b' = length b"
proof -
  define mx where "mx = min (fin - (st + path_off)) SVC_PATH_MAX"
  define l where "l = strnlen (drop (st + path_off) b) mx"
  let ?path = "take l (drop (st + path_off) b)"
  let ?p = "poke st (u32 0) b"
  have st: "st + path_off < fin"
    using assms(1,2) by (auto simp: tinit_parse_status_data_def split: if_split_asm)
  have l: "l \<noteq> 0" "\<not> mx \<le> l" and nlen: "nat len = l"
    using assms(1,2) st
    by (auto simp: tinit_parse_status_data_def Let_def mx_def [symmetric] l_def [symmetric] split: if_split_asm)
  have "mx \<le> length (drop (st + path_off) b)"
    using assms(3) st by (simp add: mx_def)
  with strnlen_less_cstr [of "drop (st + path_off) b" mx] l(2)
  have path: "l < length (drop (st + path_off) b)" "drop (st + path_off) b ! l = NUL"
    "cstr (drop (st + path_off) b) = ?path"
    by (simp_all add: l_def)
  have lp: "length ?path = l" "take (l + 1) (drop (st + path_off) b) = ?path @ [NUL]" "is_cstr ?path"
    using path is_cstr_cstr [of "drop (st + path_off) b"] by (simp_all add: take_Suc_conv_app_nth)
  have fin: "st + path_off + l + 1 \<le> fin" "l < SVC_PATH_MAX"
    using l(2) st by (simp_all add: mx_def)
  have pid: "get32 b st < 2 ^ 32"
    by (rule get32_less)
  define s where "s = \<lparr>st_pid = get32 b st, st_on = (byte_at b (st + 4) = 1), st_state =
    (if byte_at b (st + 5) = 0 then TINIT_SVC_STOPPED_STAT else if byte_at b (st + 5) = 1 then TINIT_SVC_STARTING_STAT
     else if byte_at b (st + 5) = 2 then TINIT_SVC_READY_STAT else TINIT_SVC_STOPPING_STAT), st_path = ?path\<rparr>"
  have "status_at b st s \<and> status_ok s \<and> b' = (if st_state s = TINIT_SVC_READY_STAT then b else ?p)"
    using assms(1,2) st l lp fin(2) pid
    unfolding tinit_parse_status_data_def mx_def [symmetric] l_def [symmetric] Let_def
    by (auto simp: status_at_def status_ok_def s_def split: if_split_asm)
  then have s: "status_at b st s" "status_ok s" "b' = (if st_state s = TINIT_SVC_READY_STAT then b else ?p)"
    by blast+
  have "status_at b' st (seen s) \<and> length b' = length b"
    using s status_at_poke_pid [OF s(1)] st assms(3) by (auto simp: seen_def)
  with s(1,2) fin(1) nlen lp(1) show ?thesis
    by (intro exI [of _ s]) (simp add: s_def)
qed

section \<open>The iterators of a client\<close>

text \<open>What an iterator points to: a complete status, which ends within the reply.\<close>

definition iter_ok :: "status_iter \<Rightarrow> bytes \<Rightarrow> status \<Rightarrow> bool" where
  "iter_ok it b s \<longleftrightarrow>
     status_at b (it_status it) (seen s) \<and> status_ok s \<and> it_len it = length (st_path s) \<and>
     it_status it + path_off + it_len it + 1 \<le> it_end it \<and> it_end it \<le> length b"

lemma iter_ok_assert: "iter_ok it b s \<Longrightarrow> tinit_assert_status_iter it b"
  using cstr_at(1) [of "st_path s" "drop (it_status it + path_off) b"] state_no_le [of "st_state s"]
  by (cases "st_state s")
    (auto simp: iter_ok_def tinit_assert_status_iter_def status_at_def status_ok_def seen_def Let_def)

lemma parse_reply_cases:
  assumes "tinit_parse_status_reply it b sz seqno = (ret, it', b')"
  shows "(ret = - EPROTO \<and> it' = it \<and> length b' = length b) \<or>
    (ret < 0 \<and> ret = - int (get16 b 4) \<and> it' = it \<and> b' = b) \<or>
    (ret = 0 \<and> (\<exists>len. tinit_parse_status_data reply_size sz b = (len, b') \<and> 0 \<le> len \<and>
       it' = \<lparr>it_end = sz, it_status = reply_size, it_len = nat len\<rparr>))"
proof (cases "sz < head_size \<or> get16 b 0 \<noteq> unat seqno \<or> get16 b 2 \<noteq> 0 \<or> get16 b 4 \<noteq> 0 \<or> sz < reply_size")
  case True
  with assms show ?thesis
    by (auto simp: tinit_parse_status_reply_def split: if_split_asm)
next
  case False
  obtain len c where p: "tinit_parse_status_data reply_size sz b = (len, c)"
    by fastforce
  have "len < 0 \<Longrightarrow> length c = length b"
    using p by (auto simp: tinit_parse_status_data_def Let_def split: if_split_asm)
  with assms False p show ?thesis
    by (auto simp: tinit_parse_status_reply_def split: if_split_asm)
qed

lemma parse_reply_iter:
  assumes "tinit_parse_status_reply it b sz seqno = (0, it', b')" "sz \<le> length b"
  shows "\<exists>s. iter_ok it' b' s \<and> status_at b (it_status it') s"
proof -
  obtain len where "tinit_parse_status_data reply_size sz b = (len, b')" "0 \<le> len"
    "it' = \<lparr>it_end = sz, it_status = reply_size, it_len = nat len\<rparr>"
    using parse_reply_cases [OF assms(1)] by auto
  with parse_status_data_accepts [of reply_size sz b len b'] assms(2) show ?thesis
    by (auto simp: iter_ok_def)
qed

lemma step_iter:
  assumes "tinit_step_status it b = (0, it', b')" "it_end it \<le> length b"
  shows "\<exists>s. iter_ok it' b' s \<and> status_at b (it_status it') s"
    "it_end it' = it_end it" "it_status it < it_status it'" "length b' = length b"
proof -
  let ?nxt = "it_status it + stroll_round_upper (status_size + it_len it + 1) status_size"
  obtain len where p: "tinit_parse_status_data ?nxt (it_end it) b = (len, b')" "0 \<le> len"
    "it' = it\<lparr>it_len := nat len, it_status := ?nxt\<rparr>"
    using assms(1) by (auto simp: tinit_step_status_def Let_def split: prod.splits if_split_asm)
  then show "\<exists>s. iter_ok it' b' s \<and> status_at b (it_status it') s" "length b' = length b" "it_end it' = it_end it"
    using parse_status_data_accepts [OF p(1,2) assms(2)] assms(2) by (auto simp: iter_ok_def)
  show "it_status it < it_status it'"
    using p(3) round_upper_bounds(1) [of "status_size + it_len it + 1"] by simp
qed

text \<open>The iterators of a client that parses a reply of \<open>sz\<close> bytes and then steps through it.\<close>

inductive walked :: "bytes \<Rightarrow> nat \<Rightarrow> 16 word \<Rightarrow> status_iter \<Rightarrow> bytes \<Rightarrow> bool" for b0 sz seqno where
  Parsed: "tinit_parse_status_reply it0 b0 sz seqno = (0, it, b) \<Longrightarrow> walked b0 sz seqno it b"
| Stepped: "walked b0 sz seqno it b \<Longrightarrow> tinit_step_status it b = (0, it', b') \<Longrightarrow> walked b0 sz seqno it' b'"

inductive_cases walkedE: "walked b0 sz seqno it b"

lemma walked_ok:
  assumes "walked b0 sz seqno it b" "sz \<le> length b0"
  shows "(\<exists>s. iter_ok it b s) \<and> it_end it = sz \<and> length b = length b0"
  using assms
proof (induction rule: walked.induct)
  case (Parsed it0 it b)
  from parse_reply_cases [OF Parsed(1)] obtain len where
    len: "tinit_parse_status_data reply_size sz b0 = (len, b)" "0 \<le> len" "it_end it = sz"
    by auto
  then show ?case
    using parse_reply_iter [OF Parsed] parse_status_data_accepts [OF len(1,2) Parsed(2)] by auto
next
  case (Stepped it b it' b')
  then show ?case
    using step_iter [OF Stepped.hyps(2)] by simp blast
qed

text \<open>
  C28. Whatever bytes the daemon sends, every iterator a client obtains from a reply, by parsing it
  and by stepping through it, satisfies the assertion of the accessors, and the status it points
  to ends within the bytes received: the path is terminated there, the process id is that of a
  ready service and zero otherwise, and the administrative state agrees with the running one.
\<close>

theorem client_iterators_valid:
  assumes "walked b0 sz seqno it b" "sz \<le> length b0"
  shows "tinit_assert_status_iter it b \<and> it_status it + path_off + it_len it + 1 \<le> sz \<and>
    (tinit_get_status_adm_state it b \<longleftrightarrow> tinit_get_status_run_state it b \<in> {1, 2}) \<and>
    (tinit_get_status_pid it b \<noteq> 0 \<longleftrightarrow> tinit_get_status_run_state it b = 2)"
proof -
  from walked_ok [OF assms] obtain s where s: "iter_ok it b s" and fin: "it_end it = sz"
    by blast
  note a = iter_ok_assert [OF s]
  have run: "tinit_get_status_run_state it b \<le> 3"
    using a by (simp add: tinit_assert_status_iter_def tinit_get_status_run_state_def Let_def)
  have pid: "tinit_get_status_pid it b = 0 \<longleftrightarrow> get32 b (it_status it) = 0"
    using get32_less [of b "it_status it"] by (simp add: tinit_get_status_pid_def Let_def)
  show ?thesis
    using a s run unfolding pid
    by (auto simp: tinit_assert_status_iter_def tinit_get_status_run_state_def tinit_get_status_adm_state_def
        iter_ok_def fin Let_def le_Suc_eq numeral_3_eq_3 numeral_2_eq_2)
qed

end
