(* ===== verification/Svctl.thy ===== *)
theory Svctl imports Lib begin

text \<open>
  The command line client (\<open>svctl.c\<close>): the table of statuses, the commands on a named service or
  target, and the choice of the command. The table is libsmartcols': a record of operations over a
  state of its own. Messages to the standard error stream are not modelled.
\<close>

datatype view_col = NAME_COL | ADM_COL | RUN_COL

record 'v scols =
  sc_new_table :: "'v \<Rightarrow> bool \<times> 'v"            \<comment> \<open>false: no memory\<close>
  sc_enable_colors :: "bool \<Rightarrow> 'v \<Rightarrow> 'v"
  sc_new_column :: "string \<Rightarrow> 'v \<Rightarrow> bool \<times> 'v"
  sc_set_header_color :: "string \<Rightarrow> string \<Rightarrow> 'v \<Rightarrow> 'v"
  sc_new_line :: "'v \<Rightarrow> bool \<times> 'v"
  sc_set_data :: "view_col \<Rightarrow> string \<Rightarrow> 'v \<Rightarrow> int \<times> 'v"
  sc_print :: "'v \<Rightarrow> 'v"
  sc_unref :: "'v \<Rightarrow> 'v"

text \<open>How a client reads the configuration file of a service, and \<open>CONFIG_TINIT_INCLUDE_DIR\<close>.\<close>

record 's conf_env =
  ce_cfg :: "'s libcfg"
  ce_read :: "string \<Rightarrow> 's cfg_read"
  ce_junk :: int
  ce_incl :: string

definition state_names :: "string list" where
  "state_names = [''stopped'', ''starting'', ''ready'', ''stopping'']"

text \<open>The three cells of a row; the name comes from the service's configuration file.\<close>

definition view_set_name :: "'v scols \<Rightarrow> 's conf_env \<Rightarrow> status_iter \<Rightarrow> bytes \<Rightarrow> mem \<Rightarrow> 'v \<Rightarrow> bool \<times> mem \<times> 'v" where
  "view_set_name S X it b m v =
     (case tinit_get_status_conf (ce_cfg X) (ce_read X) (ce_junk X) (ce_incl X) it b m of
        (Some conf, m1) \<Rightarrow>
          (case sc_set_data S NAME_COL (case conf_get_name conf of Some n \<Rightarrow> cstr n | None \<Rightarrow> []) v of
             (err, v1) \<Rightarrow> (err = 0, conf_destroy conf m1, v1))
      | (None, m1) \<Rightarrow> (case sc_set_data S NAME_COL ''??'' v of (err, v1) \<Rightarrow> (err = 0, m1, v1)))"

definition view_new_row :: "'v scols \<Rightarrow> 's conf_env \<Rightarrow> status_iter \<Rightarrow> bytes \<Rightarrow> mem \<Rightarrow> 'v \<Rightarrow> bool \<times> mem \<times> 'v" where
  "view_new_row S X it b m v = (case sc_new_line S v of
      (False, v1) \<Rightarrow> (False, m, v1)
    | (True, v1) \<Rightarrow> (case view_set_name S X it b m v1 of
          (False, m1, v2) \<Rightarrow> (False, m1, v2)
        | (True, m1, v2) \<Rightarrow>
            (case sc_set_data S ADM_COL (if tinit_get_status_adm_state it b then ''on'' else ''off'') v2 of
               (err, v3) \<Rightarrow>
                 if err \<noteq> 0 then (False, m1, v3)
                 else case sc_set_data S RUN_COL (state_names ! tinit_get_status_run_state it b) v3 of
                   (err, v4) \<Rightarrow> (err = 0, m1, v4))))"

definition view_new_col :: "'v scols \<Rightarrow> string \<Rightarrow> 'v \<Rightarrow> bool \<times> 'v" where
  "view_new_col S name v = (case sc_new_column S name v of
      (False, v1) \<Rightarrow> (False, v1)
    | (True, v1) \<Rightarrow> (True, sc_set_header_color S name ''bold'' v1))"

definition view_create :: "'v scols \<Rightarrow> bool \<Rightarrow> 'v \<Rightarrow> bool \<times> 'v" where
  "view_create S colours v = (case sc_new_table S v of
      (False, v0) \<Rightarrow> (False, v0)
    | (True, v0) \<Rightarrow> (case view_new_col S ''NAME'' (sc_enable_colors S colours v0) of
          (False, v1) \<Rightarrow> (False, sc_unref S v1)
        | (True, v1) \<Rightarrow> (case view_new_col S ''ADM'' v1 of
              (False, v2) \<Rightarrow> (False, sc_unref S v2)
            | (True, v2) \<Rightarrow> (case view_new_col S ''RUN'' v2 of
                  (False, v3) \<Rightarrow> (False, sc_unref S v3)
                | (True, v3) \<Rightarrow> (True, v3)))))"

definition view_show :: "'v scols \<Rightarrow> 'v \<Rightarrow> 'v" where
  "view_show S v = sc_print S v"

definition view_destroy :: "'v scols \<Rightarrow> 'v \<Rightarrow> 'v" where
  "view_destroy S v = sc_unref S v"

section \<open>The loop over the statuses\<close>

lemma step_status_forward:
  assumes "tinit_step_status it b = (0, it', b')"
  shows "it_end it' = it_end it" "it_status it < it_status it'" "it_status it' < it_end it"
proof -
  let ?nxt = "it_status it + stroll_round_upper (status_size + it_len it + 1) status_size"
  obtain len where p: "tinit_parse_status_data ?nxt (it_end it) b = (len, b')" "0 \<le> len"
    "it' = it\<lparr>it_len := nat len, it_status := ?nxt\<rparr>"
    using assms by (auto simp: tinit_step_status_def Let_def split: prod.splits if_split_asm)
  then have "?nxt + path_off < it_end it"
    by (auto simp: tinit_parse_status_data_def split: if_split_asm)
  with p(3) round_upper_bounds(1) [of "status_size + it_len it + 1"]
  show "it_end it' = it_end it" "it_status it < it_status it'" "it_status it' < it_end it"
    by simp_all
qed

text \<open>\<open>row\<close> adds the row of the iterator's status, and may fail.\<close>

function show_loop :: "(status_iter \<Rightarrow> bytes \<Rightarrow> 'a \<Rightarrow> bool \<times> 'a) \<Rightarrow> status_iter \<Rightarrow> bytes \<Rightarrow> 'a \<Rightarrow> int \<times> bytes \<times> 'a" where
  "show_loop row it b a = (case row it b a of (made, a1) \<Rightarrow>
     if \<not> made then (- ENOMEM, b, a1)
     else case tinit_step_status it b of (ret, it', b') \<Rightarrow>
       if ret \<noteq> 0 then (ret, b', a1) else show_loop row it' b' a1)"
  by pat_completeness auto

lemma step_status_shorter:
  "(0, it', b') = tinit_step_status it b \<Longrightarrow> it_end it' - it_status it' < it_end it - it_status it"
  using step_status_forward [of it b it' b'] by simp

termination show_loop
  by (relation "measure (\<lambda>(row, it, b, a). it_end it - it_status it)") (auto dest: step_status_shorter)

definition show_status :: "'n clnt \<Rightarrow> 'v scols \<Rightarrow> 's conf_env \<Rightarrow> (string \<Rightarrow> string \<Rightarrow> int) \<Rightarrow> bool \<Rightarrow> bytes \<Rightarrow> status_iter \<Rightarrow>
    sock \<Rightarrow> string \<Rightarrow> mem \<Rightarrow> 'n \<Rightarrow> 'v \<Rightarrow> int \<times> sock \<times> mem \<times> 'n \<times> 'v" where
  "show_status C S X fnm tty req it0 sk pattern m n v =
     (let ret = tinit_parse_svc_pattern fnm pattern
      in if ret < 0 then (ret, sk, m, n, v)
         else case tinit_load_status C req sk pattern (nat ret) it0 n of (ret, it, sk1, n1) \<Rightarrow>
           if ret \<noteq> 0 then (ret, sk1, m, n1, v)
           else case view_create S tty v of
             (False, v1) \<Rightarrow> (- ENOMEM, sk1, m, n1, v1)
           | (True, v1) \<Rightarrow>
               (case show_loop (\<lambda>it b (m, v). view_new_row S X it b m v) it (sk_reply sk1) (m, v1) of
                  (ret, b, m1, v2) \<Rightarrow>
                    (if ret = - ENOENT then 0 else ret, sk1\<lparr>sk_reply := b\<rparr>, m1, n1,
                     view_destroy S (if ret = - ENOENT then view_show S v2 else v2))))"

section \<open>Commands\<close>

definition do_svc_cmd :: "(string \<Rightarrow> nat \<Rightarrow> int) \<Rightarrow> (sock \<Rightarrow> string \<Rightarrow> nat \<Rightarrow> 'n \<Rightarrow> int \<times> sock \<times> 'n) \<Rightarrow>
    sock \<Rightarrow> string \<Rightarrow> 'n \<Rightarrow> int \<times> sock \<times> 'n" where
  "do_svc_cmd validate do_cmd sk name n =
     (let ret = tinit_parse_svc_name validate name
      in if ret < 0 then (ret, sk, n) else do_cmd sk name (nat ret) n)"

text \<open>The command of the second argument, when there is one; \<open>status\<close> is apart.\<close>

definition named_cmd :: "string \<Rightarrow> ('n clnt \<Rightarrow> bytes \<Rightarrow> sock \<Rightarrow> string \<Rightarrow> nat \<Rightarrow> 'n \<Rightarrow> int \<times> sock \<times> 'n) option" where
  "named_cmd cmd =
     (if cmd = ''start'' then Some tinit_start_svc
      else if cmd = ''stop'' then Some tinit_stop_svc
      else if cmd = ''restart'' then Some tinit_restart_svc
      else if cmd = ''reload'' then Some tinit_reload_svc
      else if cmd = ''switch'' then Some tinit_switch_target
      else None)"

text \<open>The exit status of \<open>main\<close>; \<open>seqno\<close> is the random number it draws.\<close>

definition svctl_main :: "'n clnt \<Rightarrow> 'v scols \<Rightarrow> 's conf_env \<Rightarrow> (string \<Rightarrow> string \<Rightarrow> int) \<Rightarrow> (string \<Rightarrow> nat \<Rightarrow> int) \<Rightarrow>
    bool \<Rightarrow> bytes \<Rightarrow> bytes \<Rightarrow> status_iter \<Rightarrow> 16 word \<Rightarrow> string list \<Rightarrow> mem \<Rightarrow> 'n \<Rightarrow> 'v \<Rightarrow> int \<times> mem \<times> 'n \<times> 'v" where
  "svctl_main C S X fnm validate tty block req it0 seqno argv m n v =
     (if length argv \<noteq> 3 then (1, m, n, v)
      else case tinit_open_sock C block seqno m n of
        (Inl err, m1, n1) \<Rightarrow> (1, m1, n1, v)
      | (Inr sk, m1, n1) \<Rightarrow>
          (case (if argv ! 1 = ''status'' then show_status C S X fnm tty req it0 sk (argv ! 2) m1 n1 v
                 else case named_cmd (argv ! 1) of
                   Some cmd \<Rightarrow> (case do_svc_cmd validate (cmd C req) sk (argv ! 2) n1 of
                      (ret, sk1, n2) \<Rightarrow> (ret, sk1, m1, n2, v))
                 | None \<Rightarrow> (- EINVAL, sk, m1, n1, v)) of
             (err, sk1, m2, n2, v1) \<Rightarrow>
               (case tinit_close_sock C m2 n2 of (m3, n3) \<Rightarrow> (if err \<noteq> 0 then 1 else 0, m3, n3, v1))))"

end
