(* ===== verification/Srv_Props.thy ===== *)
theory Srv_Props imports Srv Svctl begin

text \<open>
  Client and daemon together. The protocol is the identity on what it carries: a request parsed by
  the server is the request the client built, the result a client reads is the one the server
  replied, and the statuses a client walks are those of the repository. Whatever datagrams arrive,
  supervision keeps its invariants, the buffers are conserved, and only an authorised client has
  any effect.
\<close>

section \<open>Datagrams\<close>

definition sized :: "dgram \<Rightarrow> bool" where
  "sized d \<longleftrightarrow> length (d_data d) = TINIT_MSG_SIZE_MAX \<and> d_bytes d \<le> TINIT_MSG_SIZE_MAX"

definition payload :: "dgram \<Rightarrow> bytes" where
  "payload d = take (d_bytes d) (d_data d)"

definition request_bytes :: "16 word \<Rightarrow> msg_type \<Rightarrow> string \<Rightarrow> bytes" where
  "request_bytes seqno type name = u16 (unat seqno) @ u16 (type_no type) @ name @ [NUL]"

lemma type_no_less: "type_no t < TINIT_MSG_TYPE_NR"
  by (cases t) simp_all

lemma type_no_inj [simp]: "type_no a = type_no b \<longleftrightarrow> a = b"
  by (cases a; cases b) simp_all

lemma msg_types_type_no [simp]: "msg_types ! type_no t = t"
  by (cases t) (simp_all add: msg_types_def)

lemma poke_next: "n = length a \<Longrightarrow> poke n bs (a @ c) = a @ bs @ drop (length bs) c"
  by (simp add: poke_def)

lemma poke_start: "poke 0 bs c = bs @ drop (length bs) c"
  by (simp add: poke_def)

lemma char_of_0 [simp]: "char_of (0::nat) = NUL"
  by code_simp

lemma u8_0: "u8 0 = [NUL]"
  by (simp add: u8_def)

lemma build_request_bytes:
  "tinit_build_request buff seqno t name (length name) =
    (request_bytes seqno t name @ drop (5 + length name) buff, 5 + length name)"
proof -
  let ?s = "u16 (unat seqno)" and ?t = "u16 (type_no t)"
  have "poke 2 ?t (poke 0 ?s buff) = (?s @ ?t) @ drop 4 buff"
    using poke_next [of 2 ?s ?t "drop 2 buff"] by (simp add: poke_start)
  then have "poke 4 name (poke 2 ?t (poke 0 ?s buff)) = (?s @ ?t @ name) @ drop (4 + length name) buff"
    using poke_next [of 4 "?s @ ?t" name "drop 4 buff"] by (simp add: add.commute)
  then have "poke (4 + length name) (u8 0) (poke 4 name (poke 2 ?t (poke 0 ?s buff))) =
      ?s @ ?t @ name @ [NUL] @ drop (5 + length name) buff"
    using poke_next [of "4 + length name" "?s @ ?t @ name" "u8 0" "drop (4 + length name) buff"]
    by (simp add: u8_0)
  then show ?thesis
    by (simp add: tinit_build_request_def request_bytes_def)
qed

lemma get16_u16: "n < 65536 \<Longrightarrow> get16 (u16 n @ r) 0 = n"
  by (simp add: get16_def byte_at_def u16_def split16)

lemma get16_append: "get16 (a @ b) (length a) = get16 b 0"
  by (simp add: get16_def byte_at_def nth_append)

lemma get16_take: "i + 2 \<le> n \<Longrightarrow> n \<le> length b \<Longrightarrow> get16 (take n b) i = get16 b i"
  by (simp add: get16_def byte_at_def)

lemma unat16_less: "unat (x :: 16 word) < 65536"
  using unsigned_less [of x] by simp

lemma request_head:
  "get16 (request_bytes seqno t name) 0 = unat seqno" "get16 (request_bytes seqno t name) 2 = type_no t"
proof -
  show "get16 (request_bytes seqno t name) 0 = unat seqno"
    using get16_u16 [OF unat16_less] by (simp add: request_bytes_def)
  have "type_no t < 65536"
    using type_no_less [of t] by simp
  then have "get16 (u16 (unat seqno) @ u16 (type_no t) @ name @ [NUL]) (length (u16 (unat seqno))) = type_no t"
    unfolding get16_append by (rule get16_u16)
  then show "get16 (request_bytes seqno t name) 2 = type_no t"
    by (simp add: request_bytes_def)
qed

lemma payload_request:
  assumes "payload d = request_bytes seqno t name" "sized d"
  shows "d_bytes d = 5 + length name" "get16 (d_data d) 0 = unat seqno" "get16 (d_data d) 2 = type_no t"
    "take (length name + 1) (drop 4 (d_data d)) = name @ [NUL]"
proof -
  have "length (payload d) = d_bytes d"
    using assms(2) by (simp add: payload_def sized_def)
  with assms(1) show b: "d_bytes d = 5 + length name"
    by (simp add: request_bytes_def)
  show "get16 (d_data d) 0 = unat seqno" "get16 (d_data d) 2 = type_no t"
    using request_head [of seqno t name] assms b get16_take [of _ "d_bytes d" "d_data d"]
    by (simp_all add: payload_def sized_def)
  have "take (length name + 1) (drop 4 (d_data d)) = drop 4 (payload d)"
    by (simp add: payload_def b drop_take)
  then show "take (length name + 1) (drop 4 (d_data d)) = name @ [NUL]"
    by (simp add: assms(1) request_bytes_def u16_def)
qed

lemma parse_request_built:
  assumes "payload d = request_bytes seqno t name" "sized d" "is_cstr name" "name \<noteq> []" "length name < 256"
  shows "\<exists>pat'. tinit_srv_parse_request d pat = (Inr (t, length name), pat') \<and> cstr pat' = name"
proof -
  note p = payload_request [OF assms(1,2)]
  have sz: "nat ((int (d_bytes d) - int 4) mod 2 ^ 64) = length name + 1"
    using assms(5) by (simp add: p(1))
  have ne: "length name + 1 > 1"
    using assms(4) by (cases name) simp_all
  have "strnlen (drop 4 (d_data d)) (length name + 1) = length name"
    using cstr_at(2) [OF p(4) assms(3), of "length name + 1"] by simp
  then have "tinit_srv_parse_request d pat = (Inr (t, length name), poke 0 (name @ [NUL]) pat)"
    using ne assms(5) type_no_less [of t] unfolding tinit_srv_parse_request_def sz Let_def p(3)
    by (simp add: p(4) [simplified])
  moreover have "cstr (poke 0 (name @ [NUL]) pat) = name"
    using cstr_append_NUL [OF assms(3)] by (simp add: poke_def)
  ultimately show ?thesis
    by blast
qed

section \<open>Results\<close>

text \<open>What a client finds in its reply buffer after it received a datagram.\<close>

abbreviation (input) received :: "dgram \<Rightarrow> bytes \<Rightarrow> bytes" where
  "received d reply \<equiv> poke 0 (payload d) reply"

lemma byte_at_received:
  assumes "sized d" "i < d_bytes d"
  shows "byte_at (received d reply) i = byte_at (d_data d) i"
  using assms by (simp add: byte_at_def payload_def sized_def poke_def nth_append)

lemma get16_received: "sized d \<Longrightarrow> i + 2 \<le> d_bytes d \<Longrightarrow> get16 (received d reply) i = get16 (d_data d) i"
  by (simp add: get16_def byte_at_received)

lemma get32_received: "sized d \<Longrightarrow> i + 4 \<le> d_bytes d \<Longrightarrow> get32 (received d reply) i = get32 (d_data d) i"
  by (simp add: get32_def get16_received)

lemma build_reply_result:
  assumes "sized d" "get16 (d_data d) 2 < TINIT_MSG_TYPE_NR" "- 4096 \<le> ret" "ret \<le> 0"
  shows "\<exists>d'. tinit_srv_build_reply d ret w = (d', w) \<and> sized d' \<and> d_bytes d' = head_size \<and> d_peer d' = d_peer d \<and>
    get16 (d_data d') 0 = get16 (d_data d) 0 \<and> get16 (d_data d') 2 = get16 (d_data d) 2 \<and>
    get16 (d_data d') 4 = nat (- ret)"
proof -
  have "get16 (poke 4 (u16 (nat (- ret))) (d_data d)) 4 = nat (- ret)"
    using assms by (intro get16_poke_same) (simp_all add: sized_def)
  with assms show ?thesis
    by (simp add: tinit_srv_build_reply_def sized_def get16_poke_other)
qed

lemma named_reply_read:
  assumes "sized d" "d_bytes d = head_size"
  shows "tinit_parse_named_reply (received d reply) (d_bytes d) seqno t =
    (if get16 (d_data d) 0 = unat seqno \<and> get16 (d_data d) 2 = type_no t then - int (get16 (d_data d) 4) else - EPROTO)"
  using assms get16_received [OF assms(1)] by (simp add: tinit_parse_named_reply_def)

text \<open>Error numbers, as the file system and the kernel give them.\<close>

definition fs_errnos :: "fs \<Rightarrow> bool" where
  "fs_errnos F \<longleftrightarrow>
     (\<forall>p n. - 4096 \<le> fs_validate_path F p n) \<and>
     (\<forall>p e. fs_opendir F p = Inl e \<longrightarrow> 0 < e \<and> e \<le> 4096) \<and>
     (\<forall>p d e. fs_opendir F p = Inr d \<longrightarrow> Inl e \<in> set d \<longrightarrow> 0 < e \<and> e \<le> 4096)"

lemma walk_errno:
  "tinit_target_walk_folder F incl w p d = (x, r) \<Longrightarrow>
     set r \<subseteq> set d \<and> (\<forall>e. x = Inl e \<longrightarrow> e = 0 \<or> Inl e \<in> set d)"
proof (induction F incl w p d arbitrary: x r rule: tinit_target_walk_folder.induct)
  case (3 F incl w dpath ent d)
  then show ?case
    by (auto split: if_split_asm sum.split_asm option.split_asm)
qed auto

lemma init_iter_loop_errno:
  assumes "init_iter_loop F incl w p d nr tbl m = (Inl err, m')" "\<forall>e. Inl e \<in> set d \<longrightarrow> 0 < e \<and> e \<le> 4096"
  shows "- 4096 \<le> err \<and> err < 0"
  using assms
proof (induction F incl w p d nr tbl m rule: init_iter_loop.induct)
  case (1 F incl w p d nr tbl m)
  obtain x r where walk: "tinit_target_walk_folder F incl w p d = (x, r)"
    by fastforce
  note e = walk_errno [OF walk]
  then have r: "\<forall>e. Inl e \<in> set r \<longrightarrow> 0 < e \<and> e \<le> 4096"
    using 1(4) by auto
  show ?case
  proof (cases x)
    case (Inl e0)
    with 1(3,4) walk e show ?thesis
      by (auto split: if_split_asm)
  next
    case (Inr i)
    show ?thesis
    proof (cases "length tbl = nr")
      case True
      then show ?thesis
        using 1(1) [OF walk [symmetric] Inr True _ _ _ r] 1(3) walk Inr
        by (cases "mem_alloc m"; cases "fst (mem_alloc m)") auto
    next
      case False
      then show ?thesis
        using 1(2) [OF walk [symmetric] Inr False _ r] 1(3) walk Inr by simp
    qed
  qed
qed

lemma init_iter_errno:
  assumes "fs_errnos F" and it: "tinit_target_init_iter F incl path name w m = (x, m1)"
  shows "x = Inl err \<Longrightarrow> - 4096 \<le> err \<and> err \<le> 0"
proof -
  assume that: "x = Inl err"
  show ?thesis
  proof -
    obtain rf m2 where f: "tinit_target_init_folder F path name m = (rf, m2)"
      by fastforce
    show ?thesis
    proof (cases rf)
      case (Inl e)
      have "e = fs_validate_path F path TINIT_TARGET_PATH_MAX \<and> e < 0 \<or> e = - ENOMEM \<or>
          (\<exists>p err. fs_opendir F p = Inl err \<and> e = - err)"
        using f Inl
        by (auto simp: tinit_target_init_folder_def Let_def
            split: if_split_asm prod.split_asm bool.split_asm sum.split_asm)
      then have "- 4096 \<le> e \<and> e \<le> 0"
      proof (elim disjE exE conjE)
        fix p err
        assume "fs_opendir F p = Inl err" "e = - err"
        with assms(1) show ?thesis
          unfolding fs_errnos_def by fastforce
      qed (use assms(1) in \<open>simp_all add: fs_errnos_def\<close>)
      with it f Inl that show ?thesis
        by (simp add: tinit_target_init_iter_def)
    next
      case (Inr f0)
      have dir: "fs_opendir F (target_dir F path name) = Inr (f_dir f0)"
        using init_folder_spec [OF f] Inr by simp
      obtain ok m3 where al: "mem_alloc m2 = (ok, m3)"
        by fastforce
      obtain r4 m4 where loop: "init_iter_loop F incl w (f_dpath f0) (f_dir f0) 4 [] m3 = (r4, m4)"
        by fastforce
      have "\<forall>e. Inl e \<in> set (f_dir f0) \<longrightarrow> 0 < e \<and> e \<le> 4096"
        using assms(1) dir by (auto simp: fs_errnos_def)
      with init_iter_loop_errno [of F incl w "f_dpath f0" "f_dir f0" 4 "[]" m3 err m4] loop it f Inr al that
      show ?thesis
        by (cases ok) (auto simp: tinit_target_init_iter_def)
    qed
  qed
qed

lemma switch_errno:
  assumes "fs_errnos F" "tinit_target_switch E F incl path name w m = (ret, w', m')"
  shows "- 4096 \<le> ret \<and> ret \<le> 0"
proof -
  obtain x m1 where it: "tinit_target_init_iter F incl path name w m = (x, m1)"
    by fastforce
  from init_iter_errno [OF assms(1) it] assms(2) it show ?thesis
    by (cases x) (auto simp: tinit_target_switch_def split: if_split_asm)
qed

section \<open>Commands on a name\<close>

text \<open>
  The abstract effect of a command, in terms of the administrative state of the service its name
  finds: starting one that is on and stopping one that is off change nothing, and reloading starts
  a service that is off and signals one that is ready.
\<close>

definition command_action :: "'k ext \<Rightarrow> msg_type \<Rightarrow> svc_id \<Rightarrow> 'k world \<Rightarrow> 'k world" where
  "command_action E t i w = (case t of
      TINIT_START_MSG_TYPE \<Rightarrow> if svc_is_on w i then w else svc_start E i w
    | TINIT_STOP_MSG_TYPE \<Rightarrow> if svc_is_on w i then svc_stop E i w else w
    | TINIT_RELOAD_MSG_TYPE \<Rightarrow>
        if \<not> svc_is_on w i then svc_start E i w
        else if s_state (svc_at w i) = TINIT_SVC_READY_STAT then svc_reload E i w else w
    | _ \<Rightarrow> w)"

definition command :: "'k env \<Rightarrow> msg_type \<Rightarrow> string \<Rightarrow> 'k world \<Rightarrow> mem \<Rightarrow> int \<times> 'k world \<times> mem" where
  "command V t name w m =
     (if t = TINIT_RESTART_MSG_TYPE then (0, w, m)
      else if length name \<ge> TINIT_SVC_NAME_MAX then (- ENAMETOOLONG, w, m)
      else if \<not> svc_name_ok name then (- EINVAL, w, m)
      else if t = TINIT_SWITCH_MSG_TYPE
        then tinit_target_switch (e_ext V) (e_fs V) (e_incl V) (e_sysconf V) name w m
      else case tinit_repo_search_byname w name of
        Some i \<Rightarrow> (0, command_action (e_ext V) t i w, m)
      | None \<Rightarrow> (- ENOENT, w, m))"

lemma command_actions:
  assumes "world_ok w" "is_svc w i"
  shows "start_named E i w = command_action E TINIT_START_MSG_TYPE i w"
    "stop_named E i w = command_action E TINIT_STOP_MSG_TYPE i w"
    "reload_named E i w = command_action E TINIT_RELOAD_MSG_TYPE i w"
  using is_on_state [OF assms]
  by (cases "s_state (svc_at w i)"; simp add: start_named_def stop_named_def reload_named_def command_action_def)+

lemma name_check:
  assumes "is_cstr name" "name \<noteq> []"
  shows "tinit_check_svc_name name (length name) =
    (if length name \<ge> TINIT_SVC_NAME_MAX then - ENAMETOOLONG else if svc_name_ok name then 0 else - EINVAL)"
  using check_svc_name_zero [OF assms(1)] assms(2)
  by (auto simp: tinit_check_svc_name_def split: if_splits)

lemma request_named_command:
  assumes "is_cstr name" "name \<noteq> []"
    and "t \<noteq> TINIT_RESTART_MSG_TYPE" "t \<noteq> TINIT_SWITCH_MSG_TYPE"
    and act: "\<And>i. is_svc w i \<Longrightarrow> act i w = command_action (e_ext V) t i w"
  shows "\<exists>r w'. command V t name w m = (r, w', m) \<and> - 4096 \<le> r \<and> r \<le> 0 \<and>
    request_named act buff name (length name) w = (0, tinit_srv_build_reply buff r w')"
  using assms(3,4) act search_svc_Some(1) [of _ w]
  by (auto simp: command_def request_named_def name_check [OF assms(1,2)] Let_def tinit_repo_search_byname_def
      split: option.split)

lemma process_named:
  assumes "world_ok w" "fs_errnos (e_fs V)" "t \<noteq> TINIT_STATUS_MSG_TYPE"
    and "payload d = request_bytes seqno t name" "sized d" "is_cstr name" "name \<noteq> []" "length name < 256"
  shows "\<exists>pat' r w' m'. command V t name w m = (r, w', m') \<and> - 4096 \<le> r \<and> r \<le> 0 \<and>
    tinit_srv_process_request V d pat w m =
      (0, fst (tinit_srv_build_reply d r w'), pat', snd (tinit_srv_build_reply d r w'), m')"
proof -
  obtain pat' where p: "tinit_srv_parse_request d pat = (Inr (t, length name), pat')" "cstr pat' = name"
    using parse_request_built [OF assms(4-8)] by blast
  note named = request_named_command [OF assms(6,7), of _ w]
  note act = command_actions [OF assms(1), of _ "e_ext V"]
  show ?thesis
  proof (cases t)
    case TINIT_RESTART_MSG_TYPE
    then show ?thesis
      by (simp add: tinit_srv_process_request_def p command_def tinit_srv_request_restart_def split: prod.split)
  next
    case TINIT_SWITCH_MSG_TYPE
    obtain r w' m' where c: "command V t name w m = (r, w', m')"
      by (metis prod_cases3)
    have r: "- 4096 \<le> r \<and> r \<le> 0"
      using c TINIT_SWITCH_MSG_TYPE switch_errno [OF assms(2), of "e_ext V" "e_incl V" "e_sysconf V" name w m r w' m']
      by (auto simp: command_def split: if_split_asm)
    have "tinit_srv_request_switch V d name (length name) w m =
        (case tinit_srv_build_reply d r w' of (b, w2) \<Rightarrow> (0, b, w2, m'))"
      using c TINIT_SWITCH_MSG_TYPE
      by (auto simp: command_def tinit_srv_request_switch_def name_check [OF assms(6,7)] Let_def split: if_split_asm)
    with c r TINIT_SWITCH_MSG_TYPE show ?thesis
      by (simp add: tinit_srv_process_request_def p split: prod.split)
  next
    case TINIT_START_MSG_TYPE
    then show ?thesis
      using named [of t "start_named (e_ext V)" V m d] act
      by (fastforce simp: tinit_srv_process_request_def p tinit_srv_request_start_def split: prod.split)
  next
    case TINIT_STOP_MSG_TYPE
    then show ?thesis
      using named [of t "stop_named (e_ext V)" V m d] act
      by (fastforce simp: tinit_srv_process_request_def p tinit_srv_request_stop_def split: prod.split)
  next
    case TINIT_RELOAD_MSG_TYPE
    then show ?thesis
      using named [of t "reload_named (e_ext V)" V m d] act
      by (fastforce simp: tinit_srv_process_request_def p tinit_srv_request_reload_def split: prod.split)
  qed (use assms(3) in simp)
qed

lemma named_exchange_lemma:
  assumes "world_ok w" "fs_errnos (e_fs V)" "t \<noteq> TINIT_STATUS_MSG_TYPE"
    and "is_cstr name" "name \<noteq> []" "length name < 256" "260 \<le> length req" "sized d"
    and "tinit_build_request req seqno t name (length name) = (buff, sz)" "payload d = take sz buff"
    and "tinit_srv_process_request V d pat w m = (ret, d', pat', w', m')"
  shows "ret = 0 \<and> sized d' \<and> d_peer d' = d_peer d \<and>
    command V t name w m = (tinit_parse_named_reply (received d' reply) (d_bytes d') seqno t, w', m')"
proof -
  have req: "payload d = request_bytes seqno t name"
    using assms(7,9,10) assms(6)
    by (auto simp: build_request_bytes request_bytes_def)
  obtain pat1 r w1 m1 where run: "command V t name w m = (r, w1, m1)" "- 4096 \<le> r" "r \<le> 0"
    "tinit_srv_process_request V d pat w m =
      (0, fst (tinit_srv_build_reply d r w1), pat1, snd (tinit_srv_build_reply d r w1), m1)"
    using process_named [OF assms(1-3) req assms(8,4,5,6)] by blast
  note p = payload_request [OF req assms(8)]
  obtain d1 where d1: "tinit_srv_build_reply d r w1 = (d1, w1)" "sized d1" "d_bytes d1 = head_size"
    "d_peer d1 = d_peer d" "get16 (d_data d1) 0 = unat seqno" "get16 (d_data d1) 2 = type_no t"
    "get16 (d_data d1) 4 = nat (- r)"
    using build_reply_result [OF assms(8) _ run(2,3)] p(2,3) type_no_less [of t] by auto
  have "tinit_parse_named_reply (received d1 reply) (d_bytes d1) seqno t = r"
    using named_reply_read [OF d1(2,3), of reply seqno t] d1(5-7) run(3) by simp
  with assms(11) run d1 show ?thesis
    by simp
qed


section \<open>The statuses of a reply\<close>

text \<open>Where the statuses of a list end when the bytes before them end at \<open>off\<close>, and that a buffer
  holds them there, each on the next multiple of the size of its fixed part.\<close>

fun fin_of :: "nat \<Rightarrow> status list \<Rightarrow> nat" where
  "fin_of off [] = off"
| "fin_of off (s # ss) = fin_of (stroll_round_upper off status_size + status_size + length (st_path s) + 1) ss"

fun laid_out :: "bytes \<Rightarrow> nat \<Rightarrow> status list \<Rightarrow> bool" where
  "laid_out b off [] \<longleftrightarrow> True"
| "laid_out b off (s # ss) \<longleftrightarrow> status_at b (stroll_round_upper off status_size) s \<and>
     laid_out b (stroll_round_upper off status_size + status_size + length (st_path s) + 1) ss"

lemma fin_of_ge: "off \<le> fin_of off ss"
proof (induction ss arbitrary: off)
  case (Cons s ss)
  show ?case
    using Cons.IH [of "stroll_round_upper off 8 + 8 + length (st_path s) + 1"] round_upper_bounds(1) [of off] by simp
qed simp

lemma fin_of_append: "fin_of off (ss @ ts) = fin_of (fin_of off ss) ts"
  by (induction ss arbitrary: off) simp_all

lemma laid_out_append: "laid_out b off (ss @ ts) \<longleftrightarrow> laid_out b off ss \<and> laid_out b (fin_of off ss) ts"
  by (induction ss arbitrary: off) simp_all

lemma status_at_cong:
  assumes "\<forall>k. st \<le> k \<and> k < fin \<longrightarrow> b' ! k = b ! k" "st + status_size + length (st_path s) + 1 \<le> fin" "fin \<le> length b" "fin \<le> length b'"
  shows "status_at b' st s = status_at b st s"
proof -
  have "take (length (st_path s) + 1) (drop (st + 6) b') = take (length (st_path s) + 1) (drop (st + 6) b)"
    using assms by (intro nth_equalityI) simp_all
  then show ?thesis
    using assms by (simp add: status_at_def get32_def get16_def byte_at_def)
qed

lemma laid_out_cong:
  assumes "\<forall>k. off \<le> k \<and> k < fin_of off ss \<longrightarrow> b' ! k = b ! k" "fin_of off ss \<le> length b" "fin_of off ss \<le> length b'"
  shows "laid_out b' off ss = laid_out b off ss"
  using assms
proof (induction ss arbitrary: off)
  case (Cons s ss)
  let ?off = "stroll_round_upper off 8 + 8 + length (st_path s) + 1"
  have "status_at b' (stroll_round_upper off 8) s = status_at b (stroll_round_upper off 8) s"
    using Cons.prems fin_of_ge [of ?off ss] round_upper_bounds(1) [of off]
    by (intro status_at_cong [of _ "fin_of ?off ss"]) simp_all
  moreover have "laid_out b' ?off ss = laid_out b ?off ss"
    using Cons.prems round_upper_bounds(1) [of off] by (intro Cons.IH) simp_all
  ultimately show ?case
    by simp
qed simp

lemma append_status:
  assumes d: "sized d" "d_bytes d = fin_of reply_size ss" "laid_out (d_data d) reply_size ss" "get16 (d_data d) 4 = 0"
    and s: "s = \<lparr>st_pid = u32_of_int pid, st_on = on, st_state = state, st_path = path\<rparr>"
    "is_cstr path" "path \<noteq> []" "length path < SVC_PATH_MAX"
  shows "\<exists>d'. tinit_srv_append_status_reply d pid on state path (length path) w =
      (if fin_of reply_size (ss @ [s]) > TINIT_MSG_SIZE_MAX then - ENOSPC else 0, d', w) \<and>
    sized d' \<and> d_peer d' = d_peer d \<and>
    get16 (d_data d') 0 = get16 (d_data d) 0 \<and> get16 (d_data d') 2 = get16 (d_data d) 2 \<and>
    (if fin_of reply_size (ss @ [s]) > TINIT_MSG_SIZE_MAX then d_bytes d' = head_size \<and> get16 (d_data d') 4 = nat ENOSPC
     else d_bytes d' = fin_of reply_size (ss @ [s]) \<and> laid_out (d_data d') reply_size (ss @ [s]) \<and> get16 (d_data d') 4 = 0)"
proof -
  let ?st = "stroll_round_upper (d_bytes d) 8"
  have fin: "fin_of 8 (ss @ [s]) = ?st + 8 + length path + 1"
    using d(2) by (simp add: fin_of_append s)
  have b: "8 \<le> d_bytes d" "d_bytes d \<le> 4096" "length (d_data d) = 4096" "d_bytes d \<le> ?st"
    using d(1,2) fin_of_ge [of 8 ss] round_upper_bounds(1) [of "d_bytes d"] by (simp_all add: sized_def)
  show ?thesis
  proof (cases "fin_of 8 (ss @ [s]) > 4096")
    case True
    have "get16 (poke 4 (u16 (nat ENOSPC)) (d_data d)) 4 = nat ENOSPC"
      using b by (intro get16_poke_same) simp_all
    moreover have "4096 < ?st + 8 + length path + 1"
      using True unfolding fin .
    ultimately show ?thesis
      using True b d(1,4) s(2-4)
      by (simp add: tinit_srv_append_status_reply_def Let_def sized_def get16_poke_other)
  next
    case False
    define b1 where "b1 = poke ?st (u32 (u32_of_int pid)) (d_data d)"
    define b2 where "b2 = poke (?st + 4) (u8 (of_bool on)) b1"
    define b3 where "b3 = poke (?st + 5) (u8 (state_no state)) b2"
    define b4 where "b4 = poke (?st + 6) (path @ [NUL]) b3"
    have len: "length b1 = 4096" "length b2 = 4096" "length b3 = 4096" "length b4 = 4096"
      using False b fin by (simp_all add: b1_def b2_def b3_def b4_def)
    have low: "b4 ! k = d_data d ! k" if "k < ?st" for k
      using that False b fin len by (simp add: b4_def b3_def b2_def b1_def nth_poke)
    have "u32_of_int pid < 2 ^ 32"
      by (simp add: u32_of_int_def nat_less_iff)
    then have pid: "get32 b1 ?st = u32_of_int pid"
      using False b fin by (simp only: b1_def) (intro get32_poke_same; simp)
    have "get32 b4 ?st = u32_of_int pid"
      using pid False b fin len by (simp add: b4_def b3_def b2_def get32_poke_other)
    moreover have "byte_at b4 (?st + 4) = of_bool on"
      using False b fin len by (simp add: b4_def b3_def b2_def byte_at_poke) (simp add: u8_def)
    moreover have "byte_at b4 (?st + 5) = state_no state"
      using False b fin len state_no_le [of state] by (simp add: b4_def b3_def byte_at_poke) (simp add: u8_def)
    moreover have "take (length path + 1) (drop (?st + 6) b4) = path @ [NUL]"
      using False b fin len by (simp add: b4_def poke_def)
    ultimately have "status_at b4 ?st s"
      using s by (simp add: status_at_def)
    moreover have "laid_out b4 8 ss"
      using laid_out_cong [of 8 ss b4 "d_data d"] d(2,3) b len low by simp
    ultimately have "laid_out b4 8 (ss @ [s])"
      using d(2) by (simp add: laid_out_append)
    moreover have "get16 b4 k = get16 (d_data d) k" if "k + 2 \<le> 8" for k
      using that b low by (simp add: get16_def byte_at_def)
    moreover have "tinit_srv_append_status_reply d pid on state path (length path) w =
        (0, d\<lparr>d_data := b4, d_bytes := ?st + 8 + length path + 1\<rparr>, w)"
      using False b d s fin
      by (simp add: tinit_srv_append_status_reply_def Let_def b4_def b3_def b2_def b1_def)
    ultimately show ?thesis
      using False d(4) len fin by (simp add: sized_def)
  qed
qed

text \<open>The services a pattern selects, and their statuses.\<close>

definition selected :: "(string \<Rightarrow> string \<Rightarrow> int) \<Rightarrow> string \<Rightarrow> 'k world \<Rightarrow> svc_id \<Rightarrow> bool" where
  "selected fnm pattern w i = (case conf_get_name (s_conf (svc_at w i)) of
      Some n \<Rightarrow> fnm pattern (cstr n) = 0 | None \<Rightarrow> False)"

definition status_of :: "'k world \<Rightarrow> svc_id \<Rightarrow> status" where
  "status_of w i = \<lparr>st_pid = u32_of_int (s_child (svc_at w i)), st_on = svc_is_on w i,
     st_state = s_state (svc_at w i),
     st_path = (case conf_get_path (s_conf (svc_at w i)) of Some p \<Rightarrow> cstr p | None \<Rightarrow> [])\<rparr>"

definition statuses :: "(string \<Rightarrow> string \<Rightarrow> int) \<Rightarrow> string \<Rightarrow> 'k world \<Rightarrow> status list" where
  "statuses fnm pattern w = map (status_of w) (filter (selected fnm pattern w) [0..<length (w_svcs w)])"

text \<open>
  What the server needs of a service to list it: a name the pattern can be matched against, a path
  short enough for a status, and a child that is a \<open>pid_t\<close>.
\<close>

definition listable :: "(string \<Rightarrow> string \<Rightarrow> int) \<Rightarrow> string \<Rightarrow> 'k world \<Rightarrow> svc_id \<Rightarrow> bool" where
  "listable fnm pattern w i \<longleftrightarrow>
     (case conf_get_name (s_conf (svc_at w i)) of Some n \<Rightarrow> fnm pattern (cstr n) \<in> {0, FNM_NOMATCH} | None \<Rightarrow> False) \<and>
     (case conf_get_path (s_conf (svc_at w i)) of
        Some p \<Rightarrow> cstr p \<noteq> [] \<and> length (cstr p) < SVC_PATH_MAX | None \<Rightarrow> False) \<and>
     - 2147483648 \<le> s_child (svc_at w i) \<and> s_child (svc_at w i) < 2147483648"

definition answers :: "dgram \<Rightarrow> dgram \<Rightarrow> status list \<Rightarrow> bool" where
  "answers d d' ss \<longleftrightarrow> sized d' \<and> d_peer d' = d_peer d \<and>
     get16 (d_data d') 0 = get16 (d_data d) 0 \<and> get16 (d_data d') 2 = get16 (d_data d) 2 \<and>
     (if ss = [] then d_bytes d' = head_size \<and> get16 (d_data d') 4 = nat ENOENT
      else if fin_of reply_size ss > TINIT_MSG_SIZE_MAX then d_bytes d' = head_size \<and> get16 (d_data d') 4 = nat ENOSPC
      else d_bytes d' = fin_of reply_size ss \<and> laid_out (d_data d') reply_size ss \<and> get16 (d_data d') 4 = 0)"

lemma answers_trans:
  assumes "answers d1 d2 ss" "d_peer d1 = d_peer d" "get16 (d_data d1) 0 = get16 (d_data d) 0"
    "get16 (d_data d1) 2 = get16 (d_data d) 2"
  shows "answers d d2 ss"
  using assms by (simp add: answers_def)

lemma status_loop_answers:
  assumes "\<forall>i \<in> set is. listable fnm pattern w i" "sized d" "get16 (d_data d) 2 = 0" "get16 (d_data d) 4 = 0"
    and "d_bytes d = fin_of reply_size ss" "laid_out (d_data d) reply_size ss" "cnt = length ss"
  shows "\<exists>d'. status_loop fnm pattern is cnt d w = (d', w) \<and>
    answers d d' (ss @ map (status_of w) (filter (selected fnm pattern w) is))"
  using assms
proof (induction "is" arbitrary: cnt d ss)
  case Nil
  show ?case
  proof (cases "ss = []")
    case True
    with Nil build_reply_result [of d "- ENOENT" w] show ?thesis
      by (auto simp: answers_def)
  next
    case False
    have "fin_of 8 ss \<le> 4096"
      using Nil.prems(2,5) by (simp add: sized_def)
    with False Nil show ?thesis
      by (simp add: answers_def)
  qed
next
  case (Cons i "is")
  obtain n p where np: "conf_get_name (s_conf (svc_at w i)) = Some n" "conf_get_path (s_conf (svc_at w i)) = Some p"
    "fnm pattern (cstr n) = 0 \<or> fnm pattern (cstr n) = 1" "cstr p \<noteq> []" "length (cstr p) < 255"
    using Cons.prems(1) by (auto simp: listable_def split: option.splits)
  have l: "\<forall>i \<in> set is. listable fnm pattern w i"
    using Cons.prems(1) by simp
  show ?case
  proof (cases "fnm pattern (cstr n) = 0")
    case False
    with np Cons.IH [OF l Cons.prems(2-7)] show ?thesis
      by (simp add: selected_def)
  next
    case True
    let ?s = "status_of w i"
    have sel: "selected fnm pattern w i"
      using True np(1) by (simp add: selected_def)
    obtain d1 where d1: "tinit_srv_append_status_reply d (s_child (svc_at w i)) (svc_is_on w i) (s_state (svc_at w i))
        (cstr p) (length (cstr p)) w = (if fin_of 8 (ss @ [?s]) > 4096 then - ENOSPC else 0, d1, w)"
      "sized d1" "d_peer d1 = d_peer d"
      "get16 (d_data d1) 0 = get16 (d_data d) 0" "get16 (d_data d1) 2 = get16 (d_data d) 2"
      "if fin_of 8 (ss @ [?s]) > 4096 then d_bytes d1 = 6 \<and> get16 (d_data d1) 4 = nat ENOSPC
       else d_bytes d1 = fin_of 8 (ss @ [?s]) \<and> laid_out (d_data d1) 8 (ss @ [?s]) \<and> get16 (d_data d1) 4 = 0"
      using append_status [OF Cons.prems(2,5,6,4), of ?s "s_child (svc_at w i)" "svc_is_on w i" "s_state (svc_at w i)" "cstr p" w]
        np(2,4,5) by (auto simp: status_of_def)
    show ?thesis
    proof (cases "fin_of 8 (ss @ [?s]) > 4096")
      case big: True
      let ?rest = "map (status_of w) (filter (selected fnm pattern w) is)"
      have "fin_of 8 (ss @ ?s # ?rest) > 4096"
        using big fin_of_ge [of "fin_of 8 (ss @ [?s])" ?rest] fin_of_append [of 8 "ss @ [?s]" ?rest] by simp
      with big d1 np(1,2) sel True show ?thesis
        by (auto simp: answers_def)
    next
      case False
      with Cons.IH [OF l d1(2), of "ss @ [?s]" "Suc cnt"] d1 Cons.prems(3,7)
      obtain d2 where d2: "status_loop fnm pattern is (Suc cnt) d1 w = (d2, w)"
        "answers d1 d2 (ss @ ?s # map (status_of w) (filter (selected fnm pattern w) is))"
        by auto
      have "status_loop fnm pattern (i # is) cnt d w = (d2, w)"
        using np True d1(1) False d2(1) by simp
      then show ?thesis
        using answers_trans [OF d2(2) d1(3-5)] sel by simp
    qed
  qed
qed

lemma setup_status:
  assumes "sized d" "get16 (d_data d) 2 = 0"
  shows "\<exists>d'. tinit_srv_setup_status_reply d w = (d', w) \<and> sized d' \<and> d_peer d' = d_peer d \<and> d_bytes d' = reply_size \<and>
    get16 (d_data d') 0 = get16 (d_data d) 0 \<and> get16 (d_data d') 2 = 0 \<and> get16 (d_data d') 4 = 0"
proof -
  have "get16 (poke 4 (u16 0) (d_data d)) 4 = 0"
    using assms(1) by (intro get16_poke_same) (simp_all add: sized_def)
  with assms show ?thesis
    by (simp add: tinit_srv_setup_status_reply_def sized_def get16_poke_other)
qed

lemma process_status:
  assumes "\<forall>i. is_svc w i \<longrightarrow> listable (e_fnmatch V) pattern w i"
    and "payload d = request_bytes seqno TINIT_STATUS_MSG_TYPE pattern" "sized d"
    and "is_cstr pattern" "pattern \<noteq> []" "length pattern < 256"
  shows "\<exists>d' pat'. tinit_srv_process_request V d pat w m = (0, d', pat', w, m) \<and>
    answers d d' (statuses (e_fnmatch V) pattern w)"
proof -
  obtain pat' where p: "tinit_srv_parse_request d pat = (Inr (TINIT_STATUS_MSG_TYPE, length pattern), pat')" "cstr pat' = pattern"
    using parse_request_built [OF assms(2-6)] by blast
  note h = payload_request [OF assms(2,3)]
  obtain d1 where d1: "tinit_srv_setup_status_reply d w = (d1, w)" "sized d1" "d_peer d1 = d_peer d" "d_bytes d1 = 8"
    "get16 (d_data d1) 0 = get16 (d_data d) 0" "get16 (d_data d1) 2 = 0" "get16 (d_data d1) 4 = 0"
    using setup_status [OF assms(3), of w] h(3) by auto
  have "\<forall>i \<in> set [0..<length (w_svcs w)]. listable (e_fnmatch V) pattern w i"
    using assms(1) by (simp add: is_svc_def)
  from status_loop_answers [OF this d1(2,6,7), of "[]" 0] d1(4)
  obtain d2 where d2: "status_loop (e_fnmatch V) pattern [0..<length (w_svcs w)] 0 d1 w = (d2, w)"
    "answers d1 d2 (statuses (e_fnmatch V) pattern w)"
    by (auto simp: statuses_def)
  have "answers d d2 (statuses (e_fnmatch V) pattern w)"
    using answers_trans [OF d2(2) d1(3,5)] d1(6) h(3) by simp
  then show ?thesis
    by (simp add: tinit_srv_process_request_def p tinit_srv_request_status_def d1(1) d2(1))
qed

section \<open>Walking the statuses\<close>

text \<open>The loop of \<open>show_status\<close> over a list of statuses instead of a buffer.\<close>

fun rows :: "(status \<Rightarrow> 'a \<Rightarrow> bool \<times> 'a) \<Rightarrow> status list \<Rightarrow> 'a \<Rightarrow> int \<times> 'a" where
  "rows f [] a = (- ENOENT, a)"
| "rows f (s # ss) a = (case f s a of (made, a1) \<Rightarrow> if made then rows f ss a1 else (- ENOMEM, a1))"

lemma show_loop_rows:
  assumes f: "\<And>it b s a. iter_ok it b s \<Longrightarrow> row it b a = f (seen s) a"
    and "iter_ok it b s" "8 dvd it_status it" "\<forall>s \<in> set ss. status_ok s"
    and "fin_of (it_status it + status_size + length (st_path s) + 1) ss = it_end it"
    and "laid_out b (it_status it + status_size + length (st_path s) + 1) ss"
  shows "\<exists>b'. length b' = length b \<and> show_loop row it b a =
    (fst (rows f (map seen (s # ss)) a), b', snd (rows f (map seen (s # ss)) a))"
  using assms(2-)
proof (induction ss arbitrary: it b s a)
  case Nil
  let ?nxt = "it_status it + stroll_round_upper (8 + it_len it + 1) 8"
  have "tinit_parse_status_data ?nxt (it_end it) b = (- ENOENT, b)"
    using Nil.prems(1,4) round_upper_bounds(1) [of "8 + it_len it + 1"]
    by (simp add: tinit_parse_status_data_def iter_ok_def)
  then have st: "tinit_step_status it b = (- ENOENT, it, b)"
    by (simp add: tinit_step_status_def)
  obtain made a1 where "f (seen s) a = (made, a1)"
    by fastforce
  then show ?case
    using f [OF Nil.prems(1), of a] st by (subst show_loop.simps) simp
next
  case (Cons s2 ss)
  let ?off = "it_status it + 8 + length (st_path s) + 1"
  let ?nxt = "it_status it + stroll_round_upper (8 + it_len it + 1) 8"
  let ?it = "it\<lparr>it_len := length (st_path s2), it_status := ?nxt\<rparr>"
  have nxt: "stroll_round_upper ?off 8 = ?nxt"
  proof -
    have "?off = it_status it + (8 + it_len it + 1)"
      using Cons.prems(1) by (simp add: iter_ok_def)
    then show ?thesis
      using round_upper_plus [OF Cons.prems(2), of "8 + it_len it + 1"] by (simp only:)
  qed
  have st2: "status_at b ?nxt s2" and lay: "laid_out b (?nxt + 8 + length (st_path s2) + 1) ss"
    using Cons.prems(5) by (simp_all only: laid_out.simps nxt)
  have fin: "fin_of (?nxt + 8 + length (st_path s2) + 1) ss = it_end it"
    using Cons.prems(4) by (simp only: fin_of.simps nxt)
  then have le: "?nxt + 8 + length (st_path s2) + 1 \<le> it_end it"
    using fin_of_ge [of "?nxt + 8 + length (st_path s2) + 1" ss] by simp
  have ok: "status_ok s2" "\<forall>s \<in> set ss. status_ok s" "it_end it \<le> length b"
    using Cons.prems(1,3) by (simp_all add: iter_ok_def)
  obtain b2 where b2: "tinit_parse_status_data ?nxt (it_end it) b = (int (length (st_path s2)), b2)"
    "status_at b2 ?nxt (seen s2)" "length b2 = length b" "\<forall>k. ?nxt + 4 \<le> k \<and> k < length b \<longrightarrow> b2 ! k = b ! k"
    using parse_status_data [OF st2 ok(1) _ ok(3)] le by auto
  then have step: "tinit_step_status it b = (0, ?it, b2)"
    by (simp add: tinit_step_status_def)
  have "iter_ok ?it b2 s2"
    using b2(2,3) ok(1,3) le by (simp add: iter_ok_def)
  moreover have "8 dvd it_status ?it"
    using Cons.prems(2) round_upper_bounds(3) by simp
  moreover have "laid_out b2 (?nxt + 8 + length (st_path s2) + 1) ss"
    using lay laid_out_cong [of "?nxt + 8 + length (st_path s2) + 1" ss b2 b] b2(3,4) fin ok(3) by simp
  moreover obtain made a1 where fs: "f (seen s) a = (made, a1)"
    by fastforce
  ultimately obtain b3 where b3: "length b3 = length b" "show_loop row ?it b2 a1 =
      (fst (rows f (map seen (s2 # ss)) a1), b3, snd (rows f (map seen (s2 # ss)) a1))"
    using Cons.IH [of ?it b2 s2 a1] ok(2) fin b2(3) by auto
  have "show_loop row it b a = (if made then show_loop row ?it b2 a1 else (- ENOMEM, b, a1))"
    using f [OF Cons.prems(1), of a] fs step by (subst show_loop.simps) simp
  with b3 fs show ?case
    by auto
qed

text \<open>What the accessors of a client read at an iterator, and what there is to read of a service.\<close>

definition read_status :: "status_iter \<Rightarrow> bytes \<Rightarrow> int \<times> bool \<times> nat \<times> string" where
  "read_status it b = (tinit_get_status_pid it b, tinit_get_status_adm_state it b, tinit_get_status_run_state it b,
     take (it_len it) (drop (it_status it + path_off) b))"

definition report :: "'k world \<Rightarrow> svc_id \<Rightarrow> int \<times> bool \<times> nat \<times> string" where
  "report w i = (if s_state (svc_at w i) = TINIT_SVC_READY_STAT then s_child (svc_at w i) else 0,
     svc_is_on w i, state_no (s_state (svc_at w i)), st_path (status_of w i))"

definition view :: "status \<Rightarrow> int \<times> bool \<times> nat \<times> string" where
  "view s = (if int (st_pid s) < 2 ^ 31 then int (st_pid s) else int (st_pid s) - 2 ^ 32, st_on s,
     state_no (st_state s), st_path s)"

lemma read_status_view: "iter_ok it b s \<Longrightarrow> read_status it b = view (seen s)"
proof -
  assume ok: "iter_ok it b s"
  then have at: "status_at b (it_status it) (seen s)" and len: "it_len it = length (st_path (seen s))"
    by (auto simp: iter_ok_def seen_def)
  have "take (it_len it) (drop (it_status it + 6) b) =
      take (it_len it) (take (it_len it + 1) (drop (it_status it + 6) b))"
    by simp
  also have "\<dots> = st_path (seen s)"
    using at unfolding len by (simp add: status_at_def)
  finally show ?thesis
    using at by (simp add: read_status_def view_def status_at_def tinit_get_status_pid_def
        tinit_get_status_adm_state_def tinit_get_status_run_state_def Let_def)
qed

lemma pid_roundtrip:
  assumes "- 2147483648 \<le> pid" "pid < 2147483648"
  shows "(if int (u32_of_int pid) < 2 ^ 31 then int (u32_of_int pid) else int (u32_of_int pid) - 2 ^ 32) = pid"
proof (cases "0 \<le> pid")
  case True
  then have "pid mod 4294967296 = pid"
    using assms by simp
  with True assms show ?thesis
    by (simp add: u32_of_int_def)
next
  case False
  have "(pid + 4294967296) mod 4294967296 = pid + 4294967296"
    using False assms by (intro mod_pos_pos_trivial) simp_all
  then have "pid mod 4294967296 = pid + 4294967296"
    by (simp only: mod_add_self2)
  with False assms show ?thesis
    by (simp add: u32_of_int_def)
qed

lemma status_of_ok:
  assumes "world_ok w" "is_svc w i" "listable fnm pattern w i"
  shows "status_ok (status_of w i)" "view (seen (status_of w i)) = report w i"
proof -
  have wf: "s_child (svc_at w i) \<noteq> 0"
    using world_okD(3) [OF assms(1,2)] by (simp add: svc_wf_def)
  have b: "- 2147483648 \<le> s_child (svc_at w i)" "s_child (svc_at w i) < 2147483648"
    using assms(3) by (simp_all add: listable_def)
  note pid = pid_roundtrip [OF b]
  have "u32_of_int (s_child (svc_at w i)) \<noteq> 0"
    using pid wf by (auto split: if_split_asm)
  moreover have "u32_of_int (s_child (svc_at w i)) < 4294967296"
    by (simp add: u32_of_int_def nat_less_iff)
  ultimately show "status_ok (status_of w i)"
    using is_on_state [OF assms(1,2)] assms(3)
    by (auto simp: status_ok_def status_of_def listable_def split: option.splits)
  show "view (seen (status_of w i)) = report w i"
    using pid by (auto simp: view_def seen_def report_def status_of_def)
qed

lemma rows_collect: "rows (\<lambda>s a. (True, a @ [g s])) ss a = (- ENOENT, a @ map g ss)"
  by (induction ss arbitrary: a) simp_all

text \<open>Reading every status of a reply: the loop of \<open>show_status\<close> with a row that cannot fail.\<close>

definition read_all :: "status_iter \<Rightarrow> bytes \<Rightarrow> int \<times> bytes \<times> (int \<times> bool \<times> nat \<times> string) list" where
  "read_all it b = show_loop (\<lambda>it b a. (True, a @ [read_status it b])) it b []"

lemma status_reply_read:
  assumes "answers d d' ss" "get16 (d_data d) 0 = unat seqno" "get16 (d_data d) 2 = 0" "length reply = TINIT_MSG_SIZE_MAX"
    and "\<forall>s \<in> set ss. status_ok s"
    and "tinit_parse_status_reply it0 (received d' reply) (d_bytes d') seqno = (r, it, b)"
  shows "if ss = [] then r = - ENOENT else if fin_of reply_size ss > TINIT_MSG_SIZE_MAX then r = - ENOSPC
    else r = 0 \<and> (\<exists>b'. read_all it b = (- ENOENT, b', map (view \<circ> seen) ss))"
proof -
  have d': "sized d'" "get16 (d_data d') 0 = unat seqno" "get16 (d_data d') 2 = 0"
    using assms(1-3) by (simp_all add: answers_def)
  note g = get16_received [OF d'(1)]
  show ?thesis
  proof (cases "ss = [] \<or> fin_of 8 ss > 4096")
    case True
    then have "d_bytes d' = 6" "get16 (d_data d') 4 = nat (if ss = [] then ENOENT else ENOSPC)"
      using assms(1) by (cases "ss = []"; simp add: answers_def)+
    with assms(6) True d' g show ?thesis
      by (auto simp: tinit_parse_status_reply_def split: if_split_asm)
  next
    case False
    then obtain s ss' where ss: "ss = s # ss'"
      by (cases ss) simp_all
    have fin: "d_bytes d' = fin_of 8 ss" "laid_out (d_data d') 8 ss" "get16 (d_data d') 4 = 0" "fin_of 8 ss \<le> 4096"
      using assms(1) False by (auto simp: answers_def)
    let ?b = "received d' reply"
    have len: "length ?b = 4096"
      using assms(4) d'(1) by (simp add: payload_def sized_def)
    have r8: "stroll_round_upper 8 8 = 8"
      by (simp add: stroll_round_upper_def)
    have "?b ! k = d_data d' ! k" if "k < fin_of 8 ss" for k
      using that fin(1,4) d'(1) by (simp add: payload_def poke_def nth_append sized_def)
    then have lay: "laid_out ?b 8 ss"
      using laid_out_cong [of 8 ss ?b "d_data d'"] fin(2,4) len d'(1) by (simp add: sized_def)
    then have at: "status_at ?b 8 s" "laid_out ?b (8 + 8 + length (st_path s) + 1) ss'"
      by (simp_all add: ss r8)
    have f: "fin_of (8 + 8 + length (st_path s) + 1) ss' = fin_of 8 ss"
      by (simp add: ss r8)
    have ge: "8 + 8 + length (st_path s) + 1 \<le> fin_of 8 ss"
      using fin_of_ge [of "8 + 8 + length (st_path s) + 1" ss'] f by simp
    obtain b1 where b1: "tinit_parse_status_data 8 (fin_of 8 ss) ?b = (int (length (st_path s)), b1)"
      "status_at b1 8 (seen s)" "length b1 = 4096" "\<forall>k. 8 + 4 \<le> k \<and> k < 4096 \<longrightarrow> b1 ! k = ?b ! k"
      using parse_status_data [OF at(1), of "fin_of 8 ss"] assms(5) ge fin(4) len by (auto simp: ss)
    let ?it = "\<lparr>it_end = fin_of 8 ss, it_status = 8, it_len = length (st_path s)\<rparr>"
    have "8 \<le> fin_of 8 ss"
      using ge by simp
    then have "tinit_parse_status_reply it0 ?b (d_bytes d') seqno = (0, ?it, b1)"
      using b1(1) g [of 0] g [of 2] g [of 4] d' fin(1,3) by (simp add: tinit_parse_status_reply_def)
    with assms(6) have r: "r = 0" "it = ?it" "b = b1"
      by simp_all
    have ok: "iter_ok ?it b1 s"
      using b1(2,3) assms(5) ge fin(4) by (simp add: iter_ok_def ss)
    have lay1: "laid_out b1 (8 + 8 + length (st_path s) + 1) ss'"
      using at(2) laid_out_cong [of "8 + 8 + length (st_path s) + 1" ss' b1 ?b] b1(3,4) f fin(4) len by simp
    have "\<exists>b'. length b' = length b1 \<and> read_all ?it b1 = (- ENOENT, b', map (view \<circ> seen) ss)"
      using show_loop_rows [of "\<lambda>it b a. (True, a @ [read_status it b])" "\<lambda>s a. (True, a @ [view s])",
          OF _ ok _ _ _ _, of ss' "[]"] read_status_view assms(5) f lay1
      by (simp add: rows_collect read_all_def ss comp_def)
    then show ?thesis
      using False r by auto
  qed
qed

lemma status_exchange_lemma:
  assumes "world_ok w" "\<forall>i. is_svc w i \<longrightarrow> listable (e_fnmatch V) pattern w i"
    and "is_cstr pattern" "pattern \<noteq> []" "length pattern < 256" "260 \<le> length req" "sized d"
    and "tinit_build_request req seqno TINIT_STATUS_MSG_TYPE pattern (length pattern) = (buff, sz)" "payload d = take sz buff"
    and "tinit_srv_process_request V d pat w m = (ret, d', pat', w', m')" "length reply = TINIT_MSG_SIZE_MAX"
    and "tinit_parse_status_reply it0 (received d' reply) (d_bytes d') seqno = (r, it, b)"
  defines "is \<equiv> filter (selected (e_fnmatch V) pattern w) [0..<length (w_svcs w)]"
  shows "ret = 0 \<and> w' = w \<and> m' = m \<and>
    (if is = [] then r = - ENOENT
     else if fin_of reply_size (map (status_of w) is) > TINIT_MSG_SIZE_MAX then r = - ENOSPC
     else r = 0 \<and> (\<exists>b'. read_all it b = (- ENOENT, b', map (report w) is)))"
proof -
  have req: "payload d = request_bytes seqno TINIT_STATUS_MSG_TYPE pattern"
    using assms(6,8,9) assms(5) by (auto simp: build_request_bytes request_bytes_def)
  note h = payload_request [OF req assms(7)]
  have run: "ret = 0" "w' = w" "m' = m" "answers d d' (map (status_of w) is)"
    using process_status [OF assms(2) req assms(7,3-5), of pat m] assms(10) by (auto simp: statuses_def is_def)
  have "\<forall>i \<in> set is. is_svc w i"
    by (simp add: is_def is_svc_def)
  then have ok: "\<forall>i \<in> set is. status_ok (status_of w i) \<and> view (seen (status_of w i)) = report w i"
    using status_of_ok [OF assms(1)] assms(2) by blast
  then have "map (view \<circ> seen) (map (status_of w) is) = map (report w) is"
    by simp
  with status_reply_read [OF run(4) h(2) _ assms(11) _ assms(12)] h(3) ok run(1-3) show ?thesis
    by (auto split: if_split_asm)
qed

text \<open>
  C9. A client that asks for the status of a pattern gets the services the pattern selects, in the
  repository's order: for each, what its accessors read is the process id of a ready service (0 for
  any other), whether it is on, its state and the path of its configuration. The list ends with
  \<open>-ENOENT\<close>, as \<open>svctl\<close> expects. No selected service is the result \<open>-ENOENT\<close> of the request; a list that does
  not fit into a message of 4096 bytes is \<open>-ENOSPC\<close>. The request changes no service.
\<close>

theorem status_exchange:
  assumes "world_ok w" "\<forall>i. is_svc w i \<longrightarrow> listable (e_fnmatch V) pattern w i"
    and "is_cstr pattern" "pattern \<noteq> []" "length pattern < 256" "260 \<le> length req" "sized d"
    and "tinit_build_request req seqno TINIT_STATUS_MSG_TYPE pattern (length pattern) = (buff, sz)" "payload d = take sz buff"
    and "tinit_srv_process_request V d pat w m = (ret, d', pat', w', m')" "length reply = TINIT_MSG_SIZE_MAX"
    and "tinit_parse_status_reply it0 (received d' reply) (d_bytes d') seqno = (r, it, b)"
  shows "ret = 0 \<and> w' = w \<and> m' = m \<and>
    (let is = filter (selected (e_fnmatch V) pattern w) [0..<length (w_svcs w)]
     in if is = [] then r = - ENOENT
        else if fin_of reply_size (map (status_of w) is) > TINIT_MSG_SIZE_MAX then r = - ENOSPC
        else r = 0 \<and> (\<exists>b'. read_all it b = (- ENOENT, b', map (report w) is)))"
  using status_exchange_lemma [OF assms] by (simp add: Let_def)

end
