(* ===== verification/Srv_Loop.thy ===== *)
theory Srv_Loop imports Srv_Props "HOL-Library.Sublist" begin

text \<open>
  The server whatever arrives: which datagrams it accepts, that no request breaks supervision, that
  the transport loops end and conserve the buffers, and that only an authorised client has an effect.
\<close>

section \<open>The accepted datagrams\<close>

lemma u16_get16: "i + 2 \<le> length b \<Longrightarrow> u16 (get16 b i) = take 2 (drop i b)"
proof -
  assume l: "i + 2 \<le> length b"
  have "char_of (byte_at b i + 256 * byte_at b (i + 1)) = b ! i"
    using char_of_mod_256 [of "byte_at b i + 256 * byte_at b (i + 1)", symmetric] byte_at_less [of b i]
    by (simp add: byte_at_def)
  moreover have "char_of ((byte_at b i + 256 * byte_at b (i + 1)) div 256) = b ! (i + 1)"
    using byte_at_less [of b i] by (simp add: byte_at_def)
  moreover have "take 2 (drop i b) = [b ! i, b ! (i + 1)]"
    using l by (simp add: take_Suc_conv_app_nth numeral_2_eq_2)
  ultimately show ?thesis
    by (simp add: u16_def get16_def)
qed

lemma parse_request_accepts:
  assumes "tinit_srv_parse_request d pat = (Inr (t, len), pat')" "sized d"
  shows "\<exists>seqno name. payload d = request_bytes seqno t name \<and> is_cstr name \<and> name \<noteq> [] \<and> length name < 256 \<and>
    len = length name \<and> cstr pat' = name"
proof -
  define sz where "sz = nat ((int (d_bytes d) - int request_size) mod 2 ^ 64)"
  have acc: "1 < sz" "sz \<le> 256" "get16 (d_data d) 2 < 6" "strnlen (drop 4 (d_data d)) sz + 1 = sz"
    "t = msg_types ! get16 (d_data d) 2" "len = sz - 1" "pat' = poke 0 (take sz (drop 4 (d_data d))) pat"
    using assms(1) unfolding tinit_srv_parse_request_def sz_def [symmetric] Let_def
    by (auto split: if_split_asm)
  have b: "d_bytes d = sz + 4"
  proof (cases "4 \<le> d_bytes d")
    case True
    then have "(int (d_bytes d) - 4) mod 2 ^ 64 = int (d_bytes d) - 4"
      using assms(2) by (intro mod_pos_pos_trivial) (simp_all add: sized_def)
    then show ?thesis
      using True acc(1) by (simp add: sz_def)
  next
    case False
    then have "(int (d_bytes d) - 4 + 2 ^ 64) mod 2 ^ 64 = int (d_bytes d) - 4 + 2 ^ 64"
      by (intro mod_pos_pos_trivial) simp_all
    then have "(int (d_bytes d) - 4) mod 2 ^ 64 = int (d_bytes d) - 4 + 2 ^ 64"
      by (simp only: mod_add_self2)
    then have "sz > 256"
      by (simp add: sz_def)
    with acc(2) show ?thesis
      by simp
  qed
  define name where "name = take len (drop 4 (d_data d))"
  have dl: "length (d_data d) = 4096" "sz \<le> length (drop 4 (d_data d))"
    using assms(2) b acc(2) by (simp_all add: sized_def)
  have nul: "strnlen (drop 4 (d_data d)) sz = len" "len < sz"
    using acc(1,4,6) by simp_all
  note c = strnlen_less_cstr [OF _ dl(2), unfolded nul, OF nul(2)]
  have n: "is_cstr name" "length name = len" "take sz (drop 4 (d_data d)) = name @ [NUL]" "name \<noteq> []" "len < 256"
  proof -
    show "is_cstr name"
      using is_cstr_cstr [of "drop 4 (d_data d)"] c(4) by (simp add: name_def)
    show "length name = len"
      using c(1) by (simp add: name_def)
    then show "name \<noteq> []" "len < 256"
      using acc(1,2,6) by auto
    have "sz = Suc len"
      using acc(1,6) by simp
    then show "take sz (drop 4 (d_data d)) = name @ [NUL]"
      using c(1,2) by (simp add: name_def take_Suc_conv_app_nth)
  qed
  define seqno :: "16 word" where "seqno = of_nat (get16 (d_data d) 0)"
  have "unat seqno = get16 (d_data d) 0"
    using get16_less [of "d_data d" 0] by (simp add: seqno_def unat_of_nat)
  moreover have "type_no t = get16 (d_data d) 2"
    using acc(3) unfolding acc(5) by (auto simp: msg_types_def less_Suc_eq numeral_eq_Suc)
  ultimately have "request_bytes seqno t name = take 2 (d_data d) @ take 2 (drop 2 (d_data d)) @ take sz (drop 4 (d_data d))"
    using dl(1) u16_get16 [of 0 "d_data d"] u16_get16 [of 2 "d_data d"] n(3) by (simp add: request_bytes_def)
  also have "\<dots> = take (2 + (2 + sz)) (d_data d)"
    by (simp only: take_add) (simp add: take_drop add.commute)
  also have "2 + (2 + sz) = d_bytes d"
    by (simp add: b)
  also have "take (d_bytes d) (d_data d) = payload d"
    by (simp add: payload_def)
  finally have "payload d = request_bytes seqno t name" ..
  moreover have "cstr pat' = name"
    using cstr_append_NUL [OF n(1)] by (simp add: acc(7) n(3) poke_def)
  ultimately show ?thesis
    using n by blast
qed

lemma parse_request_rejects:
  "fst (tinit_srv_parse_request d pat) = Inl e \<Longrightarrow> e = - EPROTO \<and> snd (tinit_srv_parse_request d pat) = pat"
  by (auto simp: tinit_srv_parse_request_def Let_def split: if_split_asm)


section \<open>No request breaks supervision\<close>

text \<open>What the configuration loader guarantees of the services: a name, and a path that fits.\<close>

definition listed :: "'k world \<Rightarrow> bool" where
  "listed w \<longleftrightarrow> (\<forall>i. is_svc w i \<longrightarrow> conf_get_name (s_conf (svc_at w i)) \<noteq> None \<and>
     (case conf_get_path (s_conf (svc_at w i)) of
        Some p \<Rightarrow> cstr p \<noteq> [] \<and> length (cstr p) < SVC_PATH_MAX | None \<Rightarrow> False))"

text \<open>A ready service has a child, which a reload can signal.\<close>

definition reloadable :: "'k world \<Rightarrow> bool" where
  "reloadable w \<longleftrightarrow> (\<forall>i. is_svc w i \<longrightarrow> s_state (svc_at w i) = TINIT_SVC_READY_STAT \<longrightarrow> 0 < s_child (svc_at w i))"

definition same_head :: "dgram \<Rightarrow> dgram \<Rightarrow> bool" where
  "same_head d d' \<longleftrightarrow> sized d' \<and> d_peer d' = d_peer d \<and>
     get16 (d_data d') 0 = get16 (d_data d) 0 \<and> get16 (d_data d') 2 = get16 (d_data d) 2"

lemma same_head_trans: "same_head d d1 \<Longrightarrow> same_head d1 d2 \<Longrightarrow> same_head d d2"
  by (simp add: same_head_def)

lemma build_reply_head:
  assumes "sized d" "get16 (d_data d) 2 < 6" "- 4096 \<le> ret" "ret \<le> 0"
  shows "\<exists>d'. tinit_srv_build_reply d ret w = (d', w) \<and> same_head d d'"
  using build_reply_result [OF assms, of w] by (auto simp: same_head_def)

lemma status_loop_safe:
  assumes "listed w" "\<forall>i \<in> set is. is_svc w i" "sized d" "get16 (d_data d) 2 = 0" "get16 (d_data d) 4 = 0"
    and "d_bytes d = fin_of reply_size ss" "laid_out (d_data d) reply_size ss"
  shows "\<exists>d'. status_loop fnm pattern is cnt d w = (d', w) \<and> same_head d d'"
  using assms(2-)
proof (induction "is" arbitrary: cnt d ss)
  case Nil
  then show ?case
    using build_reply_head [of d "- ENOENT" w] by (simp add: same_head_def)
next
  case (Cons i "is")
  then obtain n p where np: "conf_get_name (s_conf (svc_at w i)) = Some n" "conf_get_path (s_conf (svc_at w i)) = Some p"
    "cstr p \<noteq> []" "length (cstr p) < 255"
    using assms(1) by (fastforce simp: listed_def split: option.splits)
  have l: "\<forall>i \<in> set is. is_svc w i"
    using Cons.prems(1) by simp
  let ?s = "status_of w i"
  obtain d1 where d1: "tinit_srv_append_status_reply d (s_child (svc_at w i)) (svc_is_on w i) (s_state (svc_at w i))
      (cstr p) (length (cstr p)) w = (if fin_of 8 (ss @ [?s]) > 4096 then - ENOSPC else 0, d1, w)"
    "same_head d d1"
    "if fin_of 8 (ss @ [?s]) > 4096 then d_bytes d1 = 6 \<and> get16 (d_data d1) 4 = nat ENOSPC
     else d_bytes d1 = fin_of 8 (ss @ [?s]) \<and> laid_out (d_data d1) 8 (ss @ [?s]) \<and> get16 (d_data d1) 4 = 0"
    using append_status [OF Cons.prems(2,5,6,4), of ?s "s_child (svc_at w i)" "svc_is_on w i" "s_state (svc_at w i)" "cstr p" w]
      np(2,3,4) by (auto simp: status_of_def same_head_def)
  show ?case
  proof (cases "fnm pattern (cstr n) = 0 \<and> fin_of 8 (ss @ [?s]) \<le> 4096")
    case True
    with Cons.IH [OF l, of d1 "ss @ [?s]" "Suc cnt"] d1(2,3) Cons.prems(3)
    obtain d2 where "status_loop fnm pattern is (Suc cnt) d1 w = (d2, w)" "same_head d1 d2"
      by (auto simp: same_head_def)
    with True np d1(1,2) same_head_trans show ?thesis
      by auto
  next
    case False
    obtain d2 where "tinit_srv_build_reply d (- EINVAL) w = (d2, w)" "same_head d d2"
      using build_reply_head [of d "- EINVAL" w] Cons.prems(2,3) by auto
    with False Cons.IH [OF l Cons.prems(2-6), of cnt] np d1(1,2) show ?thesis
      by (cases "fnm pattern (cstr n) = 0") (simp_all add: Let_def not_le)
  qed
qed

lemma process_status_safe:
  assumes "listed w" "tinit_srv_parse_request d pat = (Inr (TINIT_STATUS_MSG_TYPE, len), pat')" "sized d"
    "get16 (d_data d) 2 = 0"
  shows "\<exists>d'. tinit_srv_process_request V d pat w m = (0, d', pat', w, m) \<and> same_head d d'"
proof -
  obtain d1 where d1: "tinit_srv_setup_status_reply d w = (d1, w)" "sized d1" "d_bytes d1 = 8"
    "get16 (d_data d1) 2 = 0" "get16 (d_data d1) 4 = 0" "same_head d d1"
    using setup_status [OF assms(3,4), of w] assms(4) by (auto simp: same_head_def)
  have "\<forall>i \<in> set [0..<length (w_svcs w)]. is_svc w i"
    by (simp add: is_svc_def)
  from status_loop_safe [OF assms(1) this d1(2,4,5), where ss = "[]" and fnm = "e_fnmatch V" and pattern = "cstr pat'" and cnt = 0]
    d1(3) obtain d2 where
    "status_loop (e_fnmatch V) (cstr pat') [0..<length (w_svcs w)] 0 d1 w = (d2, w)" "same_head d1 d2"
    by auto
  with d1(1,6) assms(2) same_head_trans show ?thesis
    by (auto simp: tinit_srv_process_request_def tinit_srv_request_status_def)
qed

text \<open>The server is a client of supervision: an abstract command is one of its operations.\<close>

context svc_ops begin

lemma command_action_ops:
  assumes "laws E" "world_ok w" "is_svc w i" "t = TINIT_RELOAD_MSG_TYPE \<longrightarrow> reloadable w"
  shows "R E w (command_action E t i w)"
  using assms start [OF assms(1-3)] stop [OF assms(1-3)] reload [OF assms(1-3)] R_refl [of E w]
  by (cases t) (auto simp: command_action_def reloadable_def)

end

lemma command_safe:
  assumes "timer_laws (e_ext V)" "world_ok w" "log_true w" "fs_ok (e_fs V)"
    and "t = TINIT_RELOAD_MSG_TYPE \<longrightarrow> reloadable w" "command V t name w m = (r, w', m')"
  shows "world_ok w' \<and> log_true w' \<and> lost (e_ext V) w' \<subseteq> lost (e_ext V) w \<and> live m' = live m \<and> statics w' = statics w"
proof (cases "w' = w \<and> m' = m")
  case True
  then show ?thesis
    using assms by simp
next
  case False
  show ?thesis
  proof (cases "t = TINIT_SWITCH_MSG_TYPE")
    case True
    then have "tinit_target_switch (e_ext V) (e_fs V) (e_incl V) (e_sysconf V) name w m = (r, w', m')"
      using assms(6) False by (auto simp: command_def split: if_split_asm)
    from target_switch_lemma [OF assms(1-4) this] show ?thesis
      using assms(2,3) by (auto split: if_split_asm)
  next
    case no: False
    then obtain i where i: "tinit_repo_search_byname w name = Some i" "w' = command_action (e_ext V) t i w" "m' = m"
      using assms(6) False
      by (cases "tinit_repo_search_byname w name") (simp_all add: command_def no split: if_split_asm)
    then have "is_svc w i"
      by (auto simp: tinit_repo_search_byname_def dest: search_svc_Some(1))
    with kept.command_action_ops [OF assms(1,2) this assms(5)]
      wf.ops.command_action_ops [OF kept.laws_vfork [OF assms(1)] assms(2) this assms(5)]
      frame.ops.command_action_ops [OF kept.laws_vfork [OF assms(1)] assms(2) this assms(5)] i assms(2,3)
    show ?thesis
      by (simp add: kept_def)
  qed
qed

lemma process_safe:
  assumes "timer_laws (e_ext V)" "world_ok w" "log_true w" "fs_ok (e_fs V)" "fs_errnos (e_fs V)" "listed w" "sized d"
    and "get16 (d_data d) 2 = type_no TINIT_RELOAD_MSG_TYPE \<longrightarrow> reloadable w"
    and "tinit_srv_process_request V d pat w m = (ret, d', pat', w', m')"
  shows "world_ok w' \<and> log_true w' \<and> lost (e_ext V) w' \<subseteq> lost (e_ext V) w \<and> live m' = live m \<and> statics w' = statics w \<and>
    (if ret = 0 then same_head d d' else ret = - EPROTO \<and> w' = w \<and> m' = m \<and> d' = d)"
proof (cases "fst (tinit_srv_parse_request d pat)")
  case (Inl e)
  with parse_request_rejects [OF Inl] assms show ?thesis
    by (cases "tinit_srv_parse_request d pat") (auto simp: tinit_srv_process_request_def)
next
  case (Inr tl)
  obtain t len where tl: "tl = (t, len)"
    by fastforce
  with Inr obtain pat1 where p: "tinit_srv_parse_request d pat = (Inr (t, len), pat1)"
    by (metis prod.collapse)
  from parse_request_accepts [OF p assms(7)] obtain seqno name where
    req: "payload d = request_bytes seqno t name" and name: "is_cstr name" "name \<noteq> []" "length name < 256"
    by blast
  note h = payload_request [OF req assms(7)]
  show ?thesis
  proof (cases "t = TINIT_STATUS_MSG_TYPE")
    case True
    with process_status_safe [OF assms(6) p [unfolded True] assms(7), of V m] h(3) assms(2,3,9) show ?thesis
      by auto
  next
    case False
    obtain r w1 m1 pat2 where c: "command V t name w m = (r, w1, m1)" "- 4096 \<le> r" "r \<le> 0"
      "tinit_srv_process_request V d pat w m =
         (0, fst (tinit_srv_build_reply d r w1), pat2, snd (tinit_srv_build_reply d r w1), m1)"
      using process_named [OF assms(2,5) False req assms(7) name] by blast
    obtain d1 where "tinit_srv_build_reply d r w1 = (d1, w1)" "same_head d d1"
      using build_reply_head [OF assms(7) _ c(2,3), of w1] h(3) type_no_less [of t] by auto
    with c assms(9) command_safe [OF assms(1-4) _ c(1)] h(3) assms(8) show ?thesis
      by auto
  qed
qed

text \<open>
  C10. Processing a datagram of any content keeps supervision sound: no assertion of the server or of
  the services fails, the log stays true, no waiting service is lost, neither configurations nor
  links change and nothing leaks, provided
  that a reload finds every ready service with a child. A datagram that is answered keeps its
  sender, sequence number and type; one that is not changes nothing.
\<close>

theorem requests_are_safe:
  assumes "timer_laws (e_ext V)" "world_ok w" "log_true w" "fs_ok (e_fs V)" "fs_errnos (e_fs V)" "listed w" "sized d"
    and "get16 (d_data d) 2 = type_no TINIT_RELOAD_MSG_TYPE \<longrightarrow> reloadable w"
    and "tinit_srv_process_request V d pat w m = (ret, d', pat', w', m')"
  shows "world_ok w' \<and> log_true w' \<and> lost (e_ext V) w' \<subseteq> lost (e_ext V) w \<and> live m' = live m \<and> statics w' = statics w \<and>
    (if ret = 0 then same_head d d' else ret = - EPROTO \<and> w' = w \<and> m' = m \<and> d' = d)"
  using assms by (rule process_safe)

text \<open>
  The proviso is needed: a reload request for a ready service without a child, which a service that
  has no daemon or whose daemon has just exited is, fails the assertion of \<open>svc_reload\<close>.
\<close>

theorem reload_without_child_asserts:
  assumes "tinit_repo_search_byname w name = Some i" "s_state (svc_at w i) = TINIT_SVC_READY_STAT"
    and "s_child (svc_at w i) \<le> 0" "tinit_check_svc_name name len = 0"
  shows "w_fault (snd (snd (tinit_srv_request_reload E d name len w)))"
  using assms
  by (simp add: tinit_srv_request_reload_def request_named_def reload_named_def svc_reload_def tinit_srv_build_reply_def)

section \<open>The transport loops\<close>

text \<open>
  What the utils package documents of its queue of buffers: a number of free buffers of the size
  given to \<open>unsk_dgram_buffq_init\<close>, and busy ones in the order they were queued, where a requeued
  one comes first.
\<close>

definition buffq_laws :: "'q buffq \<Rightarrow> ('q \<Rightarrow> nat) \<Rightarrow> ('q \<Rightarrow> dgram list) \<Rightarrow> bool" where
  "buffq_laws Q nfree busy \<longleftrightarrow>
     (\<forall>q. bq_has_free Q q = (0 < nfree q) \<and> bq_has_busy Q q = (busy q \<noteq> [])) \<and>
     (\<forall>q. 0 < nfree q \<longrightarrow> (case bq_dqueue_free Q q of (d, q') \<Rightarrow>
        length (d_data d) = TINIT_MSG_SIZE_MAX \<and> nfree q' = nfree q - 1 \<and> busy q' = busy q)) \<and>
     (\<forall>q d. nfree (bq_release Q d q) = nfree q + 1 \<and> busy (bq_release Q d q) = busy q) \<and>
     (\<forall>q d. nfree (bq_nqueue_busy Q d q) = nfree q \<and> busy (bq_nqueue_busy Q d q) = busy q @ [d]) \<and>
     (\<forall>q. busy q \<noteq> [] \<longrightarrow> (case bq_dqueue_busy Q q of (d, q') \<Rightarrow>
        d = hd (busy q) \<and> nfree q' = nfree q \<and> busy q' = tl (busy q))) \<and>
     (\<forall>q d. nfree (bq_requeue_busy Q d q) = nfree q \<and> busy (bq_requeue_busy Q d q) = d # busy q)"

lemma buffq_lawsD:
  assumes "buffq_laws Q nfree busy"
  shows "bq_has_free Q q = (0 < nfree q)" "bq_has_busy Q q = (busy q \<noteq> [])"
    "0 < nfree q \<Longrightarrow> bq_dqueue_free Q q = (d, q') \<Longrightarrow>
       length (d_data d) = TINIT_MSG_SIZE_MAX \<and> nfree q' = nfree q - 1 \<and> busy q' = busy q"
    "nfree (bq_release Q d q) = nfree q + 1" "busy (bq_release Q d q) = busy q"
    "nfree (bq_nqueue_busy Q d q) = nfree q" "busy (bq_nqueue_busy Q d q) = busy q @ [d]"
    "busy q \<noteq> [] \<Longrightarrow> bq_dqueue_busy Q q = (d, q') \<Longrightarrow> d = hd (busy q) \<and> nfree q' = nfree q \<and> busy q' = tl (busy q)"
    "nfree (bq_requeue_busy Q d q) = nfree q" "busy (bq_requeue_busy Q d q) = d # busy q"
proof -
  have free: "0 < nfree q \<longrightarrow> (case bq_dqueue_free Q q of (d, q') \<Rightarrow>
      length (d_data d) = TINIT_MSG_SIZE_MAX \<and> nfree q' = nfree q - 1 \<and> busy q' = busy q)" for q
    using assms unfolding buffq_laws_def by (elim conjE) (erule spec)
  have busy: "busy q \<noteq> [] \<longrightarrow> (case bq_dqueue_busy Q q of (d, q') \<Rightarrow>
      d = hd (busy q) \<and> nfree q' = nfree q \<and> busy q' = tl (busy q))" for q
    using assms unfolding buffq_laws_def by (elim conjE) (erule spec)
  show "0 < nfree q \<Longrightarrow> bq_dqueue_free Q q = (d, q') \<Longrightarrow>
       length (d_data d) = TINIT_MSG_SIZE_MAX \<and> nfree q' = nfree q - 1 \<and> busy q' = busy q"
    using free [of q] by simp
  show "busy q \<noteq> [] \<Longrightarrow> bq_dqueue_busy Q q = (d, q') \<Longrightarrow> d = hd (busy q) \<and> nfree q' = nfree q \<and> busy q' = tl (busy q)"
    using busy [of q] by simp
qed (use assms in \<open>simp_all add: buffq_laws_def\<close>)

text \<open>
  Receiving: the results the source knows, a datagram no longer than asked for, and only a finite
  number of datagrams and errors (\<open>pending\<close>) before the socket has no more.
\<close>

definition recv_laws :: "'u unsk \<Rightarrow> ('u \<Rightarrow> nat) \<Rightarrow> bool" where
  "recv_laws U pending \<longleftrightarrow> (\<forall>d u. length (d_data d) = TINIT_MSG_SIZE_MAX \<longrightarrow>
     (case us_recv U d TINIT_MSG_SIZE_MAX u of (ret, d', creds, u') \<Rightarrow>
        ret \<in> {0, - EAGAIN, - EINTR, - ENOMEM, - EADDRNOTAVAIL, - EMSGSIZE, - EPROTO} \<and>
        (ret = 0 \<longrightarrow> sized d') \<and> (ret \<noteq> - EAGAIN \<longrightarrow> pending u' < pending u)))"

text \<open>
  Sending: the results the source knows; \<open>sent\<close> are the datagrams sent and \<open>watched\<close> whether the
  socket is watched for output.
\<close>

definition send_laws :: "'u unsk \<Rightarrow> ('u \<Rightarrow> dgram list) \<Rightarrow> ('u \<Rightarrow> bool) \<Rightarrow> bool" where
  "send_laws U sent watched \<longleftrightarrow>
     (\<forall>d u. case us_send U d u of (ret, u') \<Rightarrow>
        ret \<in> {0, - EAGAIN, - EINTR, - ENOMEM, - ECONNREFUSED} \<and>
        sent u' = (if ret = 0 then sent u @ [d] else sent u) \<and> watched u' = watched u) \<and>
     (\<forall>u. sent (us_enable_out U u) = sent u \<and> watched (us_enable_out U u)) \<and>
     (\<forall>u. sent (us_disable_out U u) = sent u \<and> \<not> watched (us_disable_out U u)) \<and>
     (\<forall>u. sent (us_apply_watch U u) = sent u \<and> watched (us_apply_watch U u) = watched u)"

lemma process_ret:
  "tinit_srv_process_request V d pat w m = (ret, d', pat', w', m') \<Longrightarrow> ret = 0 \<or> ret = - EPROTO"
  using parse_request_rejects [of d pat]
  by (cases "tinit_srv_parse_request d pat"; cases "fst (tinit_srv_parse_request d pat)")
    (auto simp: tinit_srv_process_request_def Let_def tinit_srv_request_status_def tinit_srv_request_start_def
      tinit_srv_request_stop_def tinit_srv_request_restart_def tinit_srv_request_reload_def request_named_def
      tinit_srv_request_switch_def split: msg_type.split_asm prod.split_asm if_split_asm option.split_asm)

text \<open>One turn of the request loop: a buffer is either released or queued for its reply.\<close>

lemma handle_one:
  assumes "buffq_laws Q nfree busy" "recv_laws U pending" "0 < nfree (sv_buffq sv)"
    and "handle_one_request V Q U sv w m = (ret, sv', w', m')"
  shows "(ret = 0 \<and> nfree (sv_buffq sv') = nfree (sv_buffq sv) - 1 \<and> (\<exists>d. busy (sv_buffq sv') = busy (sv_buffq sv) @ [d])) \<or>
      (ret \<noteq> 0 \<and> nfree (sv_buffq sv') = nfree (sv_buffq sv) \<and> busy (sv_buffq sv') = busy (sv_buffq sv))"
    "ret \<noteq> - EAGAIN \<Longrightarrow> pending (sv_unsk sv') < pending (sv_unsk sv)"
proof -
  note law = buffq_lawsD [OF assms(1)]
  obtain d q where dq: "bq_dqueue_free Q (sv_buffq sv) = (d, q)"
    by fastforce
  note free = law(3) [OF assms(3) dq]
  obtain r d1 c u where rv: "us_recv U d TINIT_MSG_SIZE_MAX (sv_unsk sv) = (r, d1, c, u)"
    by (metis prod_cases4)
  have r: "r \<in> {0, - EAGAIN, - EINTR, - ENOMEM, - EADDRNOTAVAIL, - EMSGSIZE, - EPROTO}"
    "r \<noteq> - EAGAIN \<longrightarrow> pending u < pending (sv_unsk sv)"
  proof -
    have "case us_recv U d TINIT_MSG_SIZE_MAX (sv_unsk sv) of (ret, d', creds, u') \<Rightarrow>
        ret \<in> {0, - EAGAIN, - EINTR, - ENOMEM, - EADDRNOTAVAIL, - EMSGSIZE, - EPROTO} \<and>
        (ret = 0 \<longrightarrow> sized d') \<and> (ret \<noteq> - EAGAIN \<longrightarrow> pending u' < pending (sv_unsk sv))"
      using assms(2) [unfolded recv_laws_def, rule_format, of d "sv_unsk sv"] free by simp
    then show "r \<in> {0, - EAGAIN, - EINTR, - ENOMEM, - EADDRNOTAVAIL, - EMSGSIZE, - EPROTO}"
      "r \<noteq> - EAGAIN \<longrightarrow> pending u < pending (sv_unsk sv)"
      unfolding rv by simp_all
  qed
  define r1 where "r1 = (if r = 0 \<and> \<not> tinit_srv_are_creds_ok (e_gid V) c then - EACCES else r)"
  have rc: "tinit_srv_recv U (e_gid V) d (sv_unsk sv) w = (r1, d1, u, w)"
    using rv r(1) by (auto simp: tinit_srv_recv_def r1_def)
  obtain r2 d2 pat w2 m2 where pr: "tinit_srv_process_request V d1 (sv_pattern sv) w m = (r2, d2, pat, w2, m2)"
    by (metis prod_cases5)
  have go: "(ret, sv', w', m') = (if r1 \<noteq> 0 then (r1, sv\<lparr>sv_unsk := u, sv_buffq := bq_release Q d1 q\<rparr>, w, m)
      else (r2, sv\<lparr>sv_unsk := u, sv_pattern := pat,
         sv_buffq := (if r2 = 0 then bq_nqueue_busy Q d2 q else bq_release Q d2 q)\<rparr>, w2, m2))"
    using assms(4) by (cases "r1 = 0"; cases "r2 = 0") (auto simp: handle_one_request_def dq rc pr)
  show "(ret = 0 \<and> nfree (sv_buffq sv') = nfree (sv_buffq sv) - 1 \<and> (\<exists>d. busy (sv_buffq sv') = busy (sv_buffq sv) @ [d])) \<or>
      (ret \<noteq> 0 \<and> nfree (sv_buffq sv') = nfree (sv_buffq sv) \<and> busy (sv_buffq sv') = busy (sv_buffq sv))"
    using go free assms(3) law(4-7) by (auto split: if_split_asm)
  show "ret \<noteq> - EAGAIN \<Longrightarrow> pending (sv_unsk sv') < pending (sv_unsk sv)"
    using go r by (auto simp: r1_def split: if_split_asm)
qed

lemma requests_loop:
  assumes "buffq_laws Q nfree busy" "recv_laws U pending"
  shows "\<exists>ret sv' w' m' ds. tinit_srv_handle_requests V Q U sv w m = Some (ret, sv', w', m') \<and>
    ret \<in> {0, - EINTR, - ENOMEM} \<and> busy (sv_buffq sv') = busy (sv_buffq sv) @ ds \<and>
    nfree (sv_buffq sv') + length ds = nfree (sv_buffq sv)"
proof (induction "pending (sv_unsk sv)" arbitrary: sv w m rule: less_induct)
  case less
  show ?case
  proof (cases "nfree (sv_buffq sv) = 0")
    case True
    then show ?thesis
      using buffq_lawsD(1) [OF assms(1), of "sv_buffq sv"]
      by (subst tinit_srv_handle_requests.simps) simp
  next
    case False
    obtain ret sv1 w1 m1 where one: "handle_one_request V Q U sv w m = (ret, sv1, w1, m1)"
      by (metis prod_cases4)
    note o1 = handle_one [OF assms _ one]
    have turn: "tinit_srv_handle_requests V Q U sv w m =
        (if ret = - EAGAIN then Some (0, sv1, w1, m1)
         else if ret = - EINTR \<or> ret = - ENOMEM then Some (ret, sv1, w1, m1)
         else tinit_srv_handle_requests V Q U sv1 w1 m1)"
      using buffq_lawsD(1) [OF assms(1), of "sv_buffq sv"] False one
      by (subst tinit_srv_handle_requests.simps) simp
    show ?thesis
    proof (cases "ret = - EAGAIN \<or> ret = - EINTR \<or> ret = - ENOMEM")
      case True
      with o1(1) False turn show ?thesis
        by (auto intro!: exI [of _ "[]"])
    next
      case go: False
      with o1(2) False have "pending (sv_unsk sv1) < pending (sv_unsk sv)"
        by simp
      from less.hyps [OF this, of w1 m1] obtain r sv2 w2 m2 ds where
        rest: "tinit_srv_handle_requests V Q U sv1 w1 m1 = Some (r, sv2, w2, m2)" "r \<in> {0, - EINTR, - ENOMEM}"
        "busy (sv_buffq sv2) = busy (sv_buffq sv1) @ ds" "nfree (sv_buffq sv2) + length ds = nfree (sv_buffq sv1)"
        by blast
      have "\<exists>e. busy (sv_buffq sv1) = busy (sv_buffq sv) @ e \<and> nfree (sv_buffq sv1) + length e = nfree (sv_buffq sv)"
        using o1(1) False by (auto intro: exI [of _ "[]"])
      then obtain e where "busy (sv_buffq sv1) = busy (sv_buffq sv) @ e" "nfree (sv_buffq sv1) + length e = nfree (sv_buffq sv)"
        by blast
      with rest turn go show ?thesis
        by (intro exI [of _ r] exI [of _ sv2] exI [of _ w2] exI [of _ m2] exI [of _ "e @ ds"]) simp
    qed
  qed
qed

text \<open>The replies leave in the order of their requests; those refused are dropped.\<close>

lemma replies_loop:
  assumes "buffq_laws Q nfree busy" "send_laws U sent watched"
  shows "\<exists>ret sv' k. tinit_srv_handle_replies Q U sv w = Some (ret, sv', w) \<and>
    ret \<in> {0, - EINTR, - ENOMEM} \<and> k \<le> length (busy (sv_buffq sv)) \<and>
    busy (sv_buffq sv') = drop k (busy (sv_buffq sv)) \<and> nfree (sv_buffq sv') = nfree (sv_buffq sv) + k \<and>
    (\<exists>ds. sent (sv_unsk sv') = sent (sv_unsk sv) @ ds \<and> subseq ds (take k (busy (sv_buffq sv)))) \<and>
    (ret = 0 \<longrightarrow> watched (sv_unsk sv') = (busy (sv_buffq sv') \<noteq> []))"
proof (induction "busy (sv_buffq sv)" arbitrary: sv)
  case Nil
  then show ?case
    using buffq_lawsD(2) [OF assms(1), of "sv_buffq sv"] assms(2)
    by (subst tinit_srv_handle_replies.simps) (auto simp: send_laws_def)
next
  case (Cons d ds)
  note law = buffq_lawsD [OF assms(1)]
  obtain d1 q where "bq_dqueue_busy Q (sv_buffq sv) = (d1, q)"
    by fastforce
  with law(8) [of "sv_buffq sv" d1 q] Cons(2) [symmetric]
  have dq: "bq_dqueue_busy Q (sv_buffq sv) = (d, q)" "nfree q = nfree (sv_buffq sv)" "busy q = ds"
    by auto
  obtain ret u where sd: "us_send U d (sv_unsk sv) = (ret, u)"
    by fastforce
  have s: "ret \<in> {0, - EAGAIN, - EINTR, - ENOMEM, - ECONNREFUSED}"
    "sent u = (if ret = 0 then sent (sv_unsk sv) @ [d] else sent (sv_unsk sv))"
    using assms(2) sd by (auto simp: send_laws_def split: prod.splits)
  then have ss: "tinit_srv_send U d (sv_unsk sv) w = (ret, u, w)"
    using sd by (auto simp: tinit_srv_send_def)
  have busy: "bq_has_busy Q (sv_buffq sv)" "busy (sv_buffq sv) = d # ds"
    using law(2) [of "sv_buffq sv"] Cons(2) by auto
  show ?case
  proof (cases "ret = 0 \<or> ret = - ECONNREFUSED")
    case True
    let ?sv = "sv\<lparr>sv_unsk := u, sv_buffq := bq_release Q d q\<rparr>"
    have sv: "busy (sv_buffq ?sv) = ds"
      using dq law(5) by simp
    have "\<exists>r sv2 k. tinit_srv_handle_replies Q U ?sv w = Some (r, sv2, w) \<and> r \<in> {0, - EINTR, - ENOMEM} \<and>
        k \<le> length ds \<and> busy (sv_buffq sv2) = drop k ds \<and> nfree (sv_buffq sv2) = nfree (sv_buffq ?sv) + k \<and>
        (\<exists>es. sent (sv_unsk sv2) = sent u @ es \<and> subseq es (take k ds)) \<and>
        (r = 0 \<longrightarrow> watched (sv_unsk sv2) = (busy (sv_buffq sv2) \<noteq> []))"
      using Cons(1) [OF sv [symmetric]] unfolding sv by simp
    then obtain r sv2 k es where
      rest: "tinit_srv_handle_replies Q U ?sv w = Some (r, sv2, w)" "r \<in> {0, - EINTR, - ENOMEM}" "k \<le> length ds"
      "busy (sv_buffq sv2) = drop k ds" "nfree (sv_buffq sv2) = nfree (sv_buffq ?sv) + k"
      "sent (sv_unsk sv2) = sent u @ es" "subseq es (take k ds)"
      "r = 0 \<longrightarrow> watched (sv_unsk sv2) = (busy (sv_buffq sv2) \<noteq> [])"
      by blast
    have "tinit_srv_handle_replies Q U sv w = Some (r, sv2, w)"
      using busy(1) dq(1) ss True rest(1) by (subst tinit_srv_handle_replies.simps) simp
    moreover have "nfree (sv_buffq sv2) = nfree (sv_buffq sv) + Suc k"
      using rest(5) law(4) dq(2) by simp
    moreover have "\<exists>es. sent (sv_unsk sv2) = sent (sv_unsk sv) @ es \<and> subseq es (take (Suc k) (d # ds))"
      using rest(6,7) s(2) by (intro exI [of _ "(if ret = 0 then [d] else []) @ es"]) auto
    ultimately show ?thesis
      using rest(2,3,4,8) busy(2) by (intro exI [of _ r] exI [of _ sv2] exI [of _ "Suc k"]) simp
  next
    case False
    let ?requeued = "bq_requeue_busy Q d q"
    consider (again) "ret = - EAGAIN" | (intr) "ret = - EINTR" | (nomem) "ret = - ENOMEM"
      using s(1) False by auto
    then show ?thesis
    proof cases
      case again
      have "tinit_srv_handle_replies Q U sv w = Some (0, sv\<lparr>sv_unsk := us_enable_out U u, sv_buffq := ?requeued\<rparr>, w)"
        using busy(1) dq(1) ss again by (subst tinit_srv_handle_replies.simps) simp
      moreover have "sent (us_enable_out U u) = sent (sv_unsk sv)" "watched (us_enable_out U u)"
        using assms(2) s(2) again by (simp_all add: send_laws_def)
      ultimately show ?thesis
        using busy(2) dq law(9,10) by (intro exI [of _ 0] exI [of _ "sv\<lparr>sv_unsk := us_enable_out U u, sv_buffq := ?requeued\<rparr>"]) simp
    next
      case intr
      have "tinit_srv_handle_replies Q U sv w = Some (- EINTR, sv\<lparr>sv_unsk := u, sv_buffq := ?requeued\<rparr>, w)"
        using busy(1) dq(1) ss intr by (subst tinit_srv_handle_replies.simps) simp
      then show ?thesis
        using busy(2) dq law(9,10) s(2) intr
        by (intro exI [of _ "- EINTR"] exI [of _ "sv\<lparr>sv_unsk := u, sv_buffq := ?requeued\<rparr>"] exI [of _ 0]) simp
    next
      case nomem
      have "tinit_srv_handle_replies Q U sv w = Some (- ENOMEM, sv\<lparr>sv_unsk := u, sv_buffq := bq_release Q d q\<rparr>, w)"
        using busy(1) dq(1) ss nomem by (subst tinit_srv_handle_replies.simps) simp
      then show ?thesis
        using busy(2) dq law(4,5) s(2) nomem
        by (intro exI [of _ "- ENOMEM"] exI [of _ "sv\<lparr>sv_unsk := u, sv_buffq := bq_release Q d q\<rparr>"] exI [of _ "Suc 0"]) simp
    qed
  qed
qed

text \<open>Whatever relates the state before and after every turn relates it before and after the loop.\<close>

lemma requests_rel:
  assumes refl: "\<And>x. P x x" and trans: "\<And>x y z. P x y \<Longrightarrow> P y z \<Longrightarrow> P x z"
    and one: "\<And>sv w m ret sv' w' m'. handle_one_request V Q U sv w m = (ret, sv', w', m') \<Longrightarrow>
      bq_has_free Q (sv_buffq sv) \<Longrightarrow> P (sv, w, m) (sv', w', m')"
    and run: "tinit_srv_handle_requests V Q U sv w m = Some (ret, sv', w', m')"
  shows "P (sv, w, m) (sv', w', m')"
  using run one
proof (induction V Q U sv w m "(ret, sv', w', m')" rule: tinit_srv_handle_requests.raw_induct [rotated 1, consumes 1, case_names 1])
  case (1 f V Q U sv w m)
  obtain r sv1 w1 m1 where h: "handle_one_request V Q U sv w m = (r, sv1, w1, m1)"
    by (metis prod_cases4)
  show ?case
  proof (cases "bq_has_free Q (sv_buffq sv)")
    case False
    then show ?thesis
      using 1(2) refl by simp
  next
    case True
    have p: "P (sv, w, m) (sv1, w1, m1)"
      using 1(3) [OF h True] .
    show ?thesis
    proof (cases "r = - EAGAIN \<or> r = - EINTR \<or> r = - ENOMEM")
      case stop: True
      with p 1(2) h True show ?thesis
        by (auto split: if_split_asm)
    next
      case no: False
      then have "f V Q U sv1 w1 m1 = Some (ret, sv', w', m')"
        using 1(2) h True by simp
      then have "P (sv1, w1, m1) (sv', w', m')"
        using 1(3) by (rule 1(1))
      with p show ?thesis
        by (rule trans)
    qed
  qed
qed

lemma requests_keep:
  assumes "\<And>d n u. g (snd (snd (snd (us_recv U d n u)))) = g u"
    and "tinit_srv_handle_requests V Q U sv w m = Some (ret, sv', w', m')"
  shows "g (sv_unsk sv') = g (sv_unsk sv)"
proof -
  have recv: "g u' = g u" if "tinit_srv_recv U gid d u w = (r, d', u', w')" for gid d u w r d' u' w'
    using that assms(1) [of d TINIT_MSG_SIZE_MAX u]
    by (cases "us_recv U d TINIT_MSG_SIZE_MAX u") (auto simp: tinit_srv_recv_def split: if_split_asm)
  have one: "g (sv_unsk sv') = g (sv_unsk sv)" if "handle_one_request V Q U sv w m = (ret, sv', w', m')" for sv w m ret sv' w' m'
    using that by (auto simp: handle_one_request_def dest: recv split: prod.split_asm if_split_asm)
  show ?thesis
    using requests_rel [of "\<lambda>x y. g (sv_unsk (fst y)) = g (sv_unsk (fst x))", OF _ _ _ assms(2)] one by auto
qed

lemma dispatch_conserves_lemma:
  assumes "buffq_laws Q nfree busy" "recv_laws U pending" "send_laws U sent watched"
    and "\<And>d n u. sent (snd (snd (snd (us_recv U d n u)))) = sent u"
    and "\<not> ev_other st" "ev_in st \<or> ev_out st"
  shows "\<exists>ret sv' w' m' ds es k. tinit_srv_dispatch V Q U st sv w m = Some (ret, sv', w', m') \<and>
    ret \<in> {0, - EINTR, - ENOMEM} \<and>
    nfree (sv_buffq sv') + length (busy (sv_buffq sv')) = nfree (sv_buffq sv) + length (busy (sv_buffq sv)) \<and>
    busy (sv_buffq sv') = drop k (busy (sv_buffq sv) @ ds) \<and>
    sent (sv_unsk sv') = sent (sv_unsk sv) @ es \<and> subseq es (take k (busy (sv_buffq sv) @ ds)) \<and>
    (ret = 0 \<longrightarrow> watched (sv_unsk sv') = (busy (sv_buffq sv') \<noteq> [])) \<and>
    (\<not> ev_in st \<longrightarrow> ds = [] \<and> w' = w \<and> m' = m)"
proof -
  define req where "req = (if ev_in st then tinit_srv_handle_requests V Q U sv w m else Some (0, sv, w, m))"
  have "\<exists>ret sv1 w1 m1 ds. req = Some (ret, sv1, w1, m1) \<and> ret \<in> {0, - EINTR, - ENOMEM} \<and>
      busy (sv_buffq sv1) = busy (sv_buffq sv) @ ds \<and> nfree (sv_buffq sv1) + length ds = nfree (sv_buffq sv) \<and>
      sent (sv_unsk sv1) = sent (sv_unsk sv) \<and> (\<not> ev_in st \<longrightarrow> ds = [] \<and> w1 = w \<and> m1 = m)"
  proof (cases "ev_in st")
    case True
    then show ?thesis
      using requests_loop [OF assms(1,2), of V sv w m] requests_keep [OF assms(4), of V Q sv w m]
      unfolding req_def by fastforce
  qed (simp add: req_def)
  then obtain ret sv1 w1 m1 ds where r: "req = Some (ret, sv1, w1, m1)" "ret \<in> {0, - EINTR, - ENOMEM}"
    "busy (sv_buffq sv1) = busy (sv_buffq sv) @ ds" "nfree (sv_buffq sv1) + length ds = nfree (sv_buffq sv)"
    "sent (sv_unsk sv1) = sent (sv_unsk sv)" "\<not> ev_in st \<longrightarrow> ds = [] \<and> w1 = w \<and> m1 = m"
    by blast
  have run: "tinit_srv_dispatch V Q U st sv w m = (if ret \<noteq> 0 then Some (ret, sv1, w1, m1)
      else case tinit_srv_handle_replies Q U sv1 w1 of None \<Rightarrow> None
        | Some (ret, sv2, w2) \<Rightarrow> Some (ret, sv2\<lparr>sv_unsk := us_apply_watch U (sv_unsk sv2)\<rparr>, w2, m1))"
    using assms(5,6) r(1) by (simp add: tinit_srv_dispatch_def req_def)
  show ?thesis
  proof (cases "ret = 0")
    case False
    with run r show ?thesis
      by (intro exI [of _ ret] exI [of _ sv1] exI [of _ w1] exI [of _ m1] exI [of _ ds] exI [of _ "[]"] exI [of _ 0]) simp
  next
    case True
    obtain r2 sv2 k es where q: "tinit_srv_handle_replies Q U sv1 w1 = Some (r2, sv2, w1)" "r2 \<in> {0, - EINTR, - ENOMEM}"
      "k \<le> length (busy (sv_buffq sv1))" "busy (sv_buffq sv2) = drop k (busy (sv_buffq sv1))"
      "nfree (sv_buffq sv2) = nfree (sv_buffq sv1) + k"
      "sent (sv_unsk sv2) = sent (sv_unsk sv1) @ es" "subseq es (take k (busy (sv_buffq sv1)))"
      "r2 = 0 \<longrightarrow> watched (sv_unsk sv2) = (busy (sv_buffq sv2) \<noteq> [])"
      using replies_loop [OF assms(1,3), of sv1 w1] by blast
    let ?sv = "sv2\<lparr>sv_unsk := us_apply_watch U (sv_unsk sv2)\<rparr>"
    have "tinit_srv_dispatch V Q U st sv w m = Some (r2, ?sv, w1, m1)"
      using run True q(1) by simp
    moreover have "sent (us_apply_watch U (sv_unsk sv2)) = sent (sv_unsk sv2)"
      "watched (us_apply_watch U (sv_unsk sv2)) = watched (sv_unsk sv2)"
      using assms(3) by (simp_all add: send_laws_def)
    ultimately show ?thesis
      using r q
      by (intro exI [of _ r2] exI [of _ ?sv] exI [of _ w1] exI [of _ m1] exI [of _ ds] exI [of _ es] exI [of _ k]) simp
  qed
qed


text \<open>
  C27. Datagrams of clients that are neither root nor of the configured group have no effect: when only
  such arrive, handling them changes no service, no allocation and not even the pattern, and queues no
  reply.
\<close>

theorem unauthorised_no_effect:
  fixes sv :: "('q, 'u) srv" and w :: "'k world"
  assumes "buffq_laws Q nfree busy" "recv_laws U pending"
    and "\<And>d n u ret d' c u'. us_recv U d n u = (ret, d', c, u') \<Longrightarrow> ret = 0 \<Longrightarrow> c_uid c \<noteq> 0 \<and> c_gid c \<noteq> e_gid V"
    and "tinit_srv_handle_requests V Q U sv w m = Some (ret, sv', w', m')"
  shows "w' = w \<and> m' = m \<and> sv_pattern sv' = sv_pattern sv \<and> busy (sv_buffq sv') = busy (sv_buffq sv) \<and>
    nfree (sv_buffq sv') = nfree (sv_buffq sv)"
proof -
  define P :: "('q, 'u) srv \<times> 'k world \<times> mem \<Rightarrow> ('q, 'u) srv \<times> 'k world \<times> mem \<Rightarrow> bool" where
    "P = (\<lambda>x y. snd y = snd x \<and> sv_pattern (fst y) = sv_pattern (fst x) \<and>
    busy (sv_buffq (fst y)) = busy (sv_buffq (fst x)) \<and> nfree (sv_buffq (fst y)) = nfree (sv_buffq (fst x)))"
  note law = buffq_lawsD [OF assms(1)]
  have "P (sv, w, m) (sv', w', m')"
  proof (rule requests_rel [OF _ _ _ assms(4)], goal_cases)
    case (3 sv w m ret sv' w' m')
    obtain d q where dq: "bq_dqueue_free Q (sv_buffq sv) = (d, q)"
      by fastforce
    have pos: "0 < nfree (sv_buffq sv)"
      using 3(2) law(1) by simp
    note free = law(3) [OF pos dq]
    obtain r d1 c u where rv: "us_recv U d TINIT_MSG_SIZE_MAX (sv_unsk sv) = (r, d1, c, u)"
      by (metis prod_cases4)
    have r: "r \<in> {0, - EAGAIN, - EINTR, - ENOMEM, - EADDRNOTAVAIL, - EMSGSIZE, - EPROTO}"
      using assms(2) [unfolded recv_laws_def, rule_format, of d "sv_unsk sv"] free rv by simp
    have "\<exists>r1. r1 \<noteq> 0 \<and> tinit_srv_recv U (e_gid V) d (sv_unsk sv) w = (r1, d1, u, w)"
      using rv r assms(3) [OF rv] by (auto simp: tinit_srv_recv_def tinit_srv_are_creds_ok_def)
    with 3(1) dq have "sv' = sv\<lparr>sv_unsk := u, sv_buffq := bq_release Q d1 q\<rparr>" "w' = w" "m' = m"
      by (auto simp: handle_one_request_def)
    with free law(4,5) pos show ?case
      by (simp add: P_def)
  qed (auto simp: P_def)
  then show ?thesis
    by (simp add: P_def)
qed

end
