(* ===== verification/System.thy ===== *)
theory System imports Srv_Loop begin

text \<open>
  The running daemon: the state its event handlers share, the events that reach them, and the event
  loop of \<open>tinit_loop\<close> (\<open>init.c\<close>). The poller of the utils package is an argument; the laws say what it
  is relied on for: it calls the handlers of the events that are due, one after the other, and a
  shutdown reported by one of them ends the call.
\<close>

record ('k, 'q, 'u) daemon =
  dm_world :: "'k world"
  dm_mem :: mem
  dm_chan :: sigchan
  dm_srv :: "('q, 'u) srv option"    \<comment> \<open>\<open>None\<close> while the structure is not initialised\<close>

datatype event =
    Ev_timer svc_id expire_cb
  | Ev_signals "int + sfd_info list" waits
  | Ev_socket pollst

text \<open>The handler of an event, with its result; \<open>None\<close> when it does not return.\<close>

definition handle_event :: "'k env \<Rightarrow> 'q buffq \<Rightarrow> 'u unsk \<Rightarrow> event \<Rightarrow> ('k, 'q, 'u) daemon \<Rightarrow>
    (int \<times> ('k, 'q, 'u) daemon) option" where
  "handle_event V Q U e s = (case e of
      Ev_timer i cb \<Rightarrow> Some (0, s\<lparr>dm_world := svc_expire (e_ext V) cb i (dm_world s)\<rparr>)
    | Ev_signals read ws \<Rightarrow>
        (case (case ch_dispatch (dm_chan s) of
            Dispatch_started \<Rightarrow> tinit_sigchan_dispatch_started (e_ext V) read (dm_chan s) ws (dm_world s)
          | Dispatch_stopping \<Rightarrow> tinit_sigchan_dispatch_stopping (e_ext V) read (dm_chan s) ws (dm_world s)
          | Dispatch_none \<Rightarrow> (0, dm_chan s, ws, fault (dm_world s))) of
          (ret, c, _, w) \<Rightarrow> Some (ret, s\<lparr>dm_chan := c, dm_world := w\<rparr>))
    | Ev_socket st \<Rightarrow> (case dm_srv s of
          None \<Rightarrow> Some (0, s\<lparr>dm_world := fault (dm_world s)\<rparr>)
        | Some sv \<Rightarrow> (case tinit_srv_dispatch V Q U st sv (dm_world s) (dm_mem s) of
              None \<Rightarrow> None
            | Some (ret, sv1, w, m) \<Rightarrow> Some (ret, s\<lparr>dm_srv := Some sv1, dm_world := w, dm_mem := m\<rparr>))))"

text \<open>\<open>poll\<close> is \<open>upoll_process_with_timers\<close>.\<close>

partial_function (option) tinit_poll :: "('s \<Rightarrow> (int \<times> 's) option) \<Rightarrow> 's \<Rightarrow> 's option" where
  "tinit_poll poll s = (case poll s of
      None \<Rightarrow> None
    | Some (ret, s1) \<Rightarrow> if ret \<noteq> - ESHUTDOWN then tinit_poll poll s1 else Some s1)"

section \<open>The poller\<close>

text \<open>The events the poller may deliver in a state.\<close>

definition event_ok :: "('k, 'q, 'u) daemon \<Rightarrow> event \<Rightarrow> bool" where
  "event_ok s e = (case e of
      Ev_timer i cb \<Rightarrow> is_svc (dm_world s) i \<and> expire_expected (svc_at (dm_world s) i) cb
    | Ev_signals read ws \<Rightarrow> waits_ok ws \<and> (case read of
          Inl err \<Rightarrow> err \<noteq> - ESHUTDOWN
        | Inr infos \<Rightarrow> \<forall>info \<in> set infos. ssi_signo info \<in> {SIGCHLD, SIGTERM, SIGUSR1, SIGUSR2, SIGPWR})
    | Ev_socket st \<Rightarrow> dm_srv s \<noteq> None \<and> \<not> ev_other st \<and> (ev_in st \<or> ev_out st))"

inductive served :: "'k env \<Rightarrow> 'q buffq \<Rightarrow> 'u unsk \<Rightarrow> ('k, 'q, 'u) daemon \<Rightarrow> int list \<Rightarrow> ('k, 'q, 'u) daemon \<Rightarrow> bool"
  for V Q U where
  served_none: "served V Q U s [] s"
| served_more: "served V Q U s rs s1 \<Longrightarrow> event_ok s1 e \<Longrightarrow> handle_event V Q U e s1 = Some (ret, s2) \<Longrightarrow>
    served V Q U s (rs @ [ret]) s2"

definition poll_laws :: "'k env \<Rightarrow> 'q buffq \<Rightarrow> 'u unsk \<Rightarrow> (('k, 'q, 'u) daemon \<Rightarrow> (int \<times> ('k, 'q, 'u) daemon) option) \<Rightarrow> bool" where
  "poll_laws V Q U poll \<longleftrightarrow> (\<forall>s ret s'. poll s = Some (ret, s') \<longrightarrow>
     (\<exists>rs. served V Q U s rs s' \<and> (ret = - ESHUTDOWN \<longrightarrow> rs \<noteq> [] \<and> last rs = - ESHUTDOWN)))"

section \<open>The daemon in service\<close>

text \<open>What holds between the start of the boot target and the request to shut down.\<close>

definition in_service :: "'k env \<Rightarrow> ('k, 'q, 'u) daemon \<Rightarrow> bool" where
  "in_service V s \<longleftrightarrow> world_ok (dm_world s) \<and> log_true (dm_world s) \<and> listed (dm_world s) \<and>
     lost (e_ext V) (dm_world s) = {} \<and> ch_dispatch (dm_chan s) = Dispatch_started"

text \<open>No client asks for a reload (a reload of a ready service without a child is an assertion that fails).\<close>

definition no_reloads :: "'u unsk \<Rightarrow> bool" where
  "no_reloads U \<longleftrightarrow> (\<forall>d n u. case us_recv U d n u of (ret, d', c, u') \<Rightarrow>
     ret = 0 \<longrightarrow> get16 (d_data d') 2 \<noteq> type_no TINIT_RELOAD_MSG_TYPE)"

lemma listed_statics:
  assumes "statics w' = statics w"
  shows "listed w' = listed w"
  by (simp add: listed_def statics_is_svc [OF assms] statics_links [OF assms] cong: imp_cong)

definition service_kept :: "'k ext \<Rightarrow> 'k world \<times> mem \<Rightarrow> 'k world \<times> mem \<Rightarrow> bool" where
  "service_kept E x y \<longleftrightarrow> (case x of (w, m) \<Rightarrow> case y of (w', m') \<Rightarrow>
     world_ok w \<longrightarrow> log_true w \<longrightarrow> listed w \<longrightarrow>
     world_ok w' \<and> log_true w' \<and> listed w' \<and> lost E w' \<subseteq> lost E w \<and> live m' = live m)"

lemma service_kept_refl: "service_kept E x x"
  by (simp add: service_kept_def split: prod.split)

lemma service_kept_trans: "service_kept E x y \<Longrightarrow> service_kept E y z \<Longrightarrow> service_kept E x z"
  by (fastforce simp: service_kept_def split: prod.splits)

lemma handle_one_kept:
  assumes "timer_laws (e_ext V)" "fs_ok (e_fs V)" "fs_errnos (e_fs V)"
    and "buffq_laws Q nfree busy" "recv_laws U pending" "no_reloads U"
    and "bq_has_free Q (sv_buffq sv)" "handle_one_request V Q U sv w m = (ret, sv', w', m')"
  shows "service_kept (e_ext V) (w, m) (w', m')"
proof -
  obtain d q where dq: "bq_dqueue_free Q (sv_buffq sv) = (d, q)"
    by fastforce
  have len: "length (d_data d) = TINIT_MSG_SIZE_MAX"
    using buffq_lawsD(1,3) [OF assms(4), of "sv_buffq sv"] assms(7) dq by auto
  obtain r d1 c u where rv: "us_recv U d TINIT_MSG_SIZE_MAX (sv_unsk sv) = (r, d1, c, u)"
    by (metis prod_cases4)
  have r: "r \<in> {0, - EAGAIN, - EINTR, - ENOMEM, - EADDRNOTAVAIL, - EMSGSIZE, - EPROTO}" "r = 0 \<longrightarrow> sized d1"
    using assms(5) [unfolded recv_laws_def, rule_format, OF len, of "sv_unsk sv"] rv by simp_all
  have no: "r = 0 \<longrightarrow> get16 (d_data d1) 2 \<noteq> type_no TINIT_RELOAD_MSG_TYPE"
    using assms(6) [unfolded no_reloads_def, rule_format, of d TINIT_MSG_SIZE_MAX "sv_unsk sv"] rv by simp
  define r1 where "r1 = (if r = 0 \<and> \<not> tinit_srv_are_creds_ok (e_gid V) c then - EACCES else r)"
  have rc: "tinit_srv_recv U (e_gid V) d (sv_unsk sv) w = (r1, d1, u, w)"
    using rv r(1) by (auto simp: tinit_srv_recv_def r1_def)
  show ?thesis
  proof (cases "r1 = 0")
    case False
    with assms(8) dq rc show ?thesis
      by (auto simp: handle_one_request_def service_kept_refl)
  next
    case True
    then have sz: "sized d1" and no: "get16 (d_data d1) 2 \<noteq> type_no TINIT_RELOAD_MSG_TYPE"
      using r(2) no by (auto simp: r1_def split: if_split_asm)
    obtain r2 d2 pat w2 m2 where pr: "tinit_srv_process_request V d1 (sv_pattern sv) w m = (r2, d2, pat, w2, m2)"
      by (metis prod_cases5)
    then have "w' = w2" "m' = m2"
      using assms(8) dq rc True by (auto simp: handle_one_request_def)
    moreover have "world_ok w2 \<and> log_true w2 \<and> lost (e_ext V) w2 \<subseteq> lost (e_ext V) w \<and> live m2 = live m \<and> statics w2 = statics w"
      if "world_ok w" "log_true w" "listed w"
      using process_safe [OF assms(1) that(1,2) assms(2,3) that(3) sz _ pr] no by simp
    ultimately show ?thesis
      using listed_statics [of w2 w] by (simp add: service_kept_def)
  qed
qed

lemma requests_kept:
  assumes "timer_laws (e_ext V)" "fs_ok (e_fs V)" "fs_errnos (e_fs V)"
    and "buffq_laws Q nfree busy" "recv_laws U pending" "no_reloads U"
    and run: "tinit_srv_handle_requests V Q U sv w m = Some (ret, sv', w', m')"
  shows "service_kept (e_ext V) (w, m) (w', m')"
proof -
  have "service_kept (e_ext V) (snd (sv, w, m)) (snd (sv', w', m'))"
  proof (rule requests_rel [where P = "\<lambda>x y. service_kept (e_ext V) (snd x) (snd y)", OF _ _ _ run], goal_cases)
    case (3 sv w m ret sv' w' m')
    then show ?case
      using handle_one_kept [OF assms(1-6)] by simp
  qed (auto intro: service_kept_refl service_kept_trans)
  then show ?thesis
    by simp
qed

text \<open>The laws of everything the handlers call.\<close>

definition daemon_laws :: "'k env \<Rightarrow> 'q buffq \<Rightarrow> 'u unsk \<Rightarrow> bool" where
  "daemon_laws V Q U \<longleftrightarrow> timer_laws (e_ext V) \<and> fs_ok (e_fs V) \<and> fs_errnos (e_fs V) \<and>
     (\<exists>nfree busy pending sent watched. buffq_laws Q nfree busy \<and> recv_laws U pending \<and> send_laws U sent watched)"

lemma dispatch_kept:
  assumes "daemon_laws V Q U" "no_reloads U" "\<not> ev_other st" "ev_in st \<or> ev_out st"
    and "tinit_srv_dispatch V Q U st sv w m = Some (ret, sv', w', m')"
  shows "service_kept (e_ext V) (w, m) (w', m') \<and> ret \<in> {0, - EINTR, - ENOMEM}"
proof -
  obtain nfree busy pending sent watched where laws: "timer_laws (e_ext V)" "fs_ok (e_fs V)" "fs_errnos (e_fs V)"
    "buffq_laws Q nfree busy" "recv_laws U pending" "send_laws U sent watched"
    using assms(1) by (auto simp: daemon_laws_def)
  obtain ret1 sv1 w1 m1 where r: "(if ev_in st then tinit_srv_handle_requests V Q U sv w m else Some (0, sv, w, m)) =
      Some (ret1, sv1, w1, m1)" "ret1 \<in> {0, - EINTR, - ENOMEM}"
    using requests_loop [OF laws(4,5), of V sv w m] by (cases "ev_in st") auto
  then have k: "service_kept (e_ext V) (w, m) (w1, m1)"
    using requests_kept [OF laws(1-5) assms(2)] by (auto simp: service_kept_refl split: if_split_asm)
  obtain ret2 sv2 where "tinit_srv_handle_replies Q U sv1 w1 = Some (ret2, sv2, w1)" "ret2 \<in> {0, - EINTR, - ENOMEM}"
    using replies_loop [OF laws(4,6), of sv1 w1] by blast
  with r k assms(3-5) show ?thesis
    by (cases "ret1 = 0") (auto simp: tinit_srv_dispatch_def)
qed

lemma event_in_service:
  assumes "daemon_laws V Q U" "no_reloads U" "in_service V s" "event_ok s e" "handle_event V Q U e s = Some (ret, s')"
  shows "in_service V s' \<and> live (dm_mem s') = live (dm_mem s) \<and> (dm_srv s' = None \<longleftrightarrow> dm_srv s = None) \<and>
    (ret = - ESHUTDOWN \<longrightarrow> ch_signo (dm_chan s') \<in> {SIGTERM, SIGUSR1, SIGUSR2, SIGPWR})"
proof -
  have T: "timer_laws (e_ext V)"
    using assms(1) by (simp add: daemon_laws_def)
  have w: "world_ok (dm_world s)" "log_true (dm_world s)" "listed (dm_world s)" "lost (e_ext V) (dm_world s) = {}"
    "ch_dispatch (dm_chan s) = Dispatch_started"
    using assms(3) by (simp_all add: in_service_def)
  show ?thesis
  proof (cases e)
    case (Ev_timer i cb)
    let ?w = "svc_expire (e_ext V) cb i (dm_world s)"
    have i: "is_svc (dm_world s) i" "expire_expected (svc_at (dm_world s) i) cb"
      using assms(4) Ev_timer by (simp_all add: event_ok_def)
    note v = timer_lawsD(1) [OF T]
    have "world_ok ?w" "log_true ?w" "lost (e_ext V) ?w = {}" "listed ?w"
      using wf.ops.expire [OF v w(1) i] truth.ops.expire [OF v w(1) i] wakeup.expire [OF T w(1) i]
        listed_statics [OF frame.ops.expire [OF v w(1) i]] w by auto
    then show ?thesis
      using assms(5) Ev_timer w(5) by (auto simp: handle_event_def in_service_def)
  next
    case (Ev_signals read ws)
    show ?thesis
    proof (cases read)
      case (Inl err)
      with assms(3-5) Ev_signals w(5) show ?thesis
        by (auto simp: handle_event_def tinit_sigchan_dispatch_started_def event_ok_def in_service_def split: if_split_asm)
    next
      case (Inr infos)
      obtain c ws' w' where run: "tinit_sigchan_dispatch_started (e_ext V) (Inr infos) (dm_chan s) ws (dm_world s) =
          (ret, c, ws', w')" "s' = s\<lparr>dm_chan := c, dm_world := w'\<rparr>"
        using assms(5) Ev_signals Inr w(5) by (auto simp: handle_event_def split: prod.splits)
      have ok: "waits_ok ws" "\<forall>info \<in> set infos. ssi_signo info \<in> {SIGCHLD, SIGTERM, SIGUSR1, SIGUSR2, SIGPWR}"
        using assms(4) Ev_signals Inr by (auto simp: event_ok_def)
      note d = dispatch_started_lemma [OF T w(1,2) ok run(1)]
      have "ch_signo c \<in> {SIGTERM, SIGUSR1, SIGUSR2, SIGPWR}" if es: "ret = - ESHUTDOWN"
      proof -
        obtain info rest where f: "filter shutdown_signal infos = info # rest"
          using d es by (cases "filter shutdown_signal infos") auto
        then have "shutdown_signal info"
          using filter_eq_ConsD [OF f] by auto
        with d f show ?thesis
          by (auto simp: shutdown_signal_def tinit_sigchan_get_signo_def)
      qed
      with d run(2) w listed_statics [of w' "dm_world s"] show ?thesis
        by (auto simp: in_service_def)
    qed
  next
    case (Ev_socket st)
    with assms(4) obtain sv where sv: "dm_srv s = Some sv" "\<not> ev_other st" "ev_in st \<or> ev_out st"
      by (auto simp: event_ok_def)
    obtain sv1 w' m' where run: "tinit_srv_dispatch V Q U st sv (dm_world s) (dm_mem s) = Some (ret, sv1, w', m')"
      "s' = s\<lparr>dm_srv := Some sv1, dm_world := w', dm_mem := m'\<rparr>"
      using assms(5) Ev_socket sv(1) by (auto simp: handle_event_def split: option.splits)
    from dispatch_kept [OF assms(1,2) sv(2,3) run(1)] w run(2) sv(1) show ?thesis
      by (auto simp: in_service_def service_kept_def)
  qed
qed

lemma served_in_service:
  assumes "served V Q U s rs s'" "daemon_laws V Q U" "no_reloads U" "in_service V s"
  shows "in_service V s' \<and> live (dm_mem s') = live (dm_mem s) \<and> (dm_srv s' = None \<longleftrightarrow> dm_srv s = None) \<and>
    (rs \<noteq> [] \<and> last rs = - ESHUTDOWN \<longrightarrow> ch_signo (dm_chan s') \<in> {SIGTERM, SIGUSR1, SIGUSR2, SIGPWR})"
  using assms
proof (induction rule: served.induct)
  case (served_none s)
  then show ?case by simp
next
  case (served_more s rs s1 e ret s2)
  with event_in_service [OF served_more.prems(1,2) _ served_more.hyps(2,3)] show ?case
    by simp
qed

lemma poll_in_service:
  assumes "tinit_poll poll s = Some s'" "poll_laws V Q U poll" "daemon_laws V Q U" "no_reloads U" "in_service V s"
  shows "in_service V s' \<and> live (dm_mem s') = live (dm_mem s) \<and> (dm_srv s' = None \<longleftrightarrow> dm_srv s = None) \<and>
    ch_signo (dm_chan s') \<in> {SIGTERM, SIGUSR1, SIGUSR2, SIGPWR}"
  using assms
proof (induction poll s s' rule: tinit_poll.raw_induct [rotated 1, consumes 1, case_names 1])
  case (1 f poll s s')
  obtain ret s1 where p: "poll s = Some (ret, s1)"
    using 1(2) by (cases "poll s") auto
  obtain rs where rs: "served V Q U s rs s1" "ret = - ESHUTDOWN \<longrightarrow> rs \<noteq> [] \<and> last rs = - ESHUTDOWN"
    using 1(3) p unfolding poll_laws_def by blast
  note k = served_in_service [OF rs(1) 1(4,5,6)]
  show ?case
  proof (cases "ret = - ESHUTDOWN")
    case True
    then have "s' = s1"
      using 1(2) p by simp
    with k rs(2) True show ?thesis
      by simp
  next
    case False
    then have "f poll s1 = Some s'"
      using 1(2) p by simp
    from 1(1) [OF this 1(3,4,5)] k show ?thesis
      by auto
  qed
qed

end
