(* ===== verification/Repo_Load.thy ===== *)
theory Repo_Load imports Target Conf_Props begin

text \<open>
  Loading the repository (\<open>repo.c\<close>): every regular file with the extension \<open>.conf\<close> of the include
  directory is parsed, a service is created for each configuration that is accepted, and the services
  are linked once all are known. The directory stream and the file system are those of \<open>Target\<close>,
  libconfig is that of \<open>Conf\<close>; \<open>junk\<close> gives the value of the uninitialised result of
  \<open>conf_load_root\<close> for each file. A service whose descriptor \<open>svc_init\<close> could not initialise is
  registered nonetheless: the model raises the fault flag there.
\<close>

text \<open>The next entry, or a negative error, \<open>-ENOENT\<close> at the end of the directory.\<close>

fun tinit_repo_read_dirent :: "dir \<Rightarrow> (int + dirent) \<times> dir" where
  "tinit_repo_read_dirent [] = (Inl (- ENOENT), [])"
| "tinit_repo_read_dirent (Inr ent # r) = (Inr ent, r)"
| "tinit_repo_read_dirent (Inl err # r) = (Inl (if err = 0 then - ENOENT else - err), r)"

text \<open>What follows the last dot of a name (\<open>strrchr\<close>).\<close>

definition file_ext :: "string \<Rightarrow> string option" where
  "file_ext name = (if CHR ''.'' \<in> set name then Some (rev (takeWhile (\<lambda>c. c \<noteq> CHR ''.'') (rev name))) else None)"

definition tinit_repo_load_svc :: "'s libcfg \<Rightarrow> (string \<Rightarrow> 's cfg_read) \<Rightarrow> (string \<Rightarrow> int) \<Rightarrow> string \<Rightarrow> dirent \<Rightarrow>
    'k world \<Rightarrow> mem \<Rightarrow> int \<times> 'k world \<times> mem" where
  "tinit_repo_load_svc C read junk incl ent w m =
     (if d_type ent \<noteq> DT_REG then (0, w, m)
      else if file_ext (d_name ent) \<noteq> Some ''conf'' then (0, w, m)
      else let path = incl @ ''/'' @ d_name ent
      in case conf_create_from_file C read (junk path) path m of
        (Inl errno, m1) \<Rightarrow> (if errno \<noteq> ENOMEM then 0 else - ENOMEM, w, m1)
      | (Inr conf, m1) \<Rightarrow> (case svc_create (length (w_svcs w)) conf m1 of
          (Null, m2) \<Rightarrow> (- ENOMEM, w, conf_destroy conf m2)
        | (Ptr s, m2) \<Rightarrow> (0, w\<lparr>w_svcs := w_svcs w @ [s]\<rparr>, m2)
        | (Dangling, m2) \<Rightarrow> (0, fault w, m2)))"

text \<open>The loop over the entries of the directory.\<close>

fun load_dir :: "'s libcfg \<Rightarrow> (string \<Rightarrow> 's cfg_read) \<Rightarrow> (string \<Rightarrow> int) \<Rightarrow> string \<Rightarrow> dir \<Rightarrow>
    'k world \<Rightarrow> mem \<Rightarrow> int \<times> 'k world \<times> mem" where
  "load_dir C read junk incl [] w m = (0, w, m)"
| "load_dir C read junk incl (e # r) w m = (case tinit_repo_read_dirent (e # r) of
      (Inl err, _) \<Rightarrow> (if err = - ENOENT then 0 else err, w, m)
    | (Inr ent, _) \<Rightarrow> (case tinit_repo_load_svc C read junk incl ent w m of
        (ret, w1, m1) \<Rightarrow> if ret \<noteq> 0 then (ret, w1, m1) else load_dir C read junk incl r w1 m1))"

text \<open>
  Destroying a service takes its two polls, its configuration and the descriptor. The repository is
  cleared from its first service on (with \<open>CONFIG_TINIT_DEBUG\<close>; otherwise nothing is).
\<close>

definition svc_destroy :: "svc_id \<Rightarrow> 'k world \<times> mem \<Rightarrow> 'k world \<times> mem" where
  "svc_destroy i = (\<lambda>(w, m).
     let s = svc_at w i;
         polls = (if s_starton_notif s = None then 0 else 1) + (if s_stopon_notif s = None then 0 else 1)
     in (svc_fini i w, mem_free 1 (conf_destroy (s_conf s) (mem_free polls m))))"

definition tinit_repo_clear :: "'k world \<Rightarrow> mem \<Rightarrow> 'k world \<times> mem" where
  "tinit_repo_clear w m = (case fold svc_destroy [0..<length (w_svcs w)] (w, m) of
      (w1, m1) \<Rightarrow> (w1\<lparr>w_svcs := []\<rparr>, m1))"

definition tinit_repo_load :: "'s libcfg \<Rightarrow> (string \<Rightarrow> 's cfg_read) \<Rightarrow> (string \<Rightarrow> int) \<Rightarrow> bool \<Rightarrow> fs \<Rightarrow> string \<Rightarrow>
    'k world \<Rightarrow> mem \<Rightarrow> int \<times> 'k world \<times> mem" where
  "tinit_repo_load C read junk debug F incl w m = (case fs_opendir F incl of
      Inl err \<Rightarrow> (- err, w, m)
    | Inr d \<Rightarrow> (case mem_alloc m of
        (False, m1) \<Rightarrow> (- ENOMEM, w, m1)
      | (True, m1) \<Rightarrow> (case load_dir C read junk incl d w m1 of
          (ret, w1, m2) \<Rightarrow>
            if ret \<noteq> 0 then
              (case if debug then tinit_repo_clear w1 m2 else (w1, m2) of
                 (w2, m3) \<Rightarrow> (ret, w2, mem_free 1 m3))
            else (0, tinit_repo_setup w1, mem_free 1 m2))))"

section \<open>A loaded repository is ready for supervision\<close>

text \<open>The services loaded so far: fresh, with accepted configurations, from \<open>.conf\<close> files.\<close>

definition conf_file :: "dir \<Rightarrow> string \<Rightarrow> conf_svc \<Rightarrow> bool" where
  "conf_file d incl c \<longleftrightarrow> conf_valid c \<and> (\<exists>ent. Inr ent \<in> set d \<and> d_type ent = DT_REG \<and>
     file_ext (d_name ent) = Some ''conf'' \<and> c_path c = Some (path_basename (incl @ ''/'' @ d_name ent)))"

definition loaded :: "dir \<Rightarrow> string \<Rightarrow> 'k world \<Rightarrow> bool" where
  "loaded d incl w \<longleftrightarrow> (\<forall>i. is_svc w i \<longrightarrow> fresh_svc i (svc_at w i) \<and> conf_file d incl (s_conf (svc_at w i)))"

lemma svc_create_fresh: "svc_create i c m = (Ptr s, m') \<Longrightarrow> fresh_svc i s \<and> s_conf s = c"
proof -
  assume "svc_create i c m = (Ptr s, m')"
  then obtain m1 where "svc_init i c m1 = (Inr s, m')"
    by (auto simp: svc_create_def split: prod.splits bool.splits sum.splits)
  moreover from this have "s_conf s = c"
    by (drule_tac svc_init_ok) (simp add: idle_svc_def)
  ultimately show ?thesis
    by (auto simp: fresh_svc_def)
qed

lemma loaded_append:
  assumes "loaded d incl w" "fresh_svc (length (w_svcs w)) s" "conf_file d incl (s_conf s)"
  shows "loaded d incl (w\<lparr>w_svcs := w_svcs w @ [s]\<rparr>)"
  using assms by (auto simp: loaded_def is_svc_def svc_at_def nth_append less_Suc_eq)

lemma load_svc_loaded:
  assumes C: "cfg_ok C" and rd: "read_ok C read" and ent: "Inr ent \<in> set d"
    and ok: "loaded d incl w" and run: "tinit_repo_load_svc C read junk incl ent w m = (ret, w', m')"
  shows "loaded d incl w' \<and> (w_fault w \<longrightarrow> w_fault w')"
proof -
  let ?path = "incl @ ''/'' @ d_name ent"
  obtain r m1 where cr: "conf_create_from_file C read (junk ?path) ?path m = (r, m1)"
    by fastforce
  show ?thesis
  proof (cases "d_type ent = DT_REG \<and> file_ext (d_name ent) = Some ''conf''")
    case False
    with run ok show ?thesis
      by (auto simp: tinit_repo_load_svc_def split: if_split_asm)
  next
    case True
    show ?thesis
    proof (cases r)
      case (Inl e)
      with run ok True cr show ?thesis
        by (simp add: tinit_repo_load_svc_def)
    next
      case (Inr conf)
      note acc = create_from_file [OF C rd cr [unfolded Inr]]
      obtain p m2 where sc: "svc_create (length (w_svcs w)) conf m1 = (p, m2)"
        by fastforce
      have w': "w' = (case p of Null \<Rightarrow> w | Ptr s \<Rightarrow> w\<lparr>w_svcs := w_svcs w @ [s]\<rparr> | Dangling \<Rightarrow> fault w)"
        using run True cr Inr sc by (auto simp: tinit_repo_load_svc_def split: ptr.splits)
      show ?thesis
      proof (cases p)
        case (Ptr s)
        with svc_create_fresh [of "length (w_svcs w)" conf m1 s m2] sc
        have s: "fresh_svc (length (w_svcs w)) s" "s_conf s = conf"
          by simp_all
        have "conf_file d incl conf"
          using acc True ent by (auto simp: conf_file_def)
        then show ?thesis
          using loaded_append [OF ok s(1)] s(2) w' Ptr by simp
      qed (use w' ok in \<open>simp_all add: loaded_def\<close>)
    qed
  qed
qed

lemma load_dir_loaded:
  assumes C: "cfg_ok C" and rd: "read_ok C read"
  shows "load_dir C read junk incl r w m = (ret, w', m') \<Longrightarrow> set r \<subseteq> set d \<Longrightarrow> loaded d incl w \<Longrightarrow>
    loaded d incl w' \<and> (w_fault w \<longrightarrow> w_fault w')"
proof (induction r arbitrary: w m)
  case (Cons e r)
  show ?case
  proof (cases e)
    case (Inl err)
    with Cons.prems show ?thesis
      by auto
  next
    case (Inr ent)
    obtain ret1 w1 m1 where one: "tinit_repo_load_svc C read junk incl ent w m = (ret1, w1, m1)"
      by (metis prod_cases3)
    have "Inr ent \<in> set d"
      using Cons.prems(2) Inr by auto
    note ok = load_svc_loaded [OF C rd this Cons.prems(3) one]
    show ?thesis
    proof (cases "ret1 = 0")
      case True
      with Cons.prems(1) Inr one have "load_dir C read junk incl r w1 m1 = (ret, w', m')"
        by simp
      with Cons.IH Cons.prems(2) ok show ?thesis
        by auto
    next
      case False
      with Cons.prems(1) Inr one ok show ?thesis
        by simp
    qed
  qed
qed simp

text \<open>A fault during the load is still there after linking.\<close>

lemma fold_fault:
  assumes "\<And>x w. w_fault w \<Longrightarrow> w_fault (f x w)" "w_fault w"
  shows "w_fault (fold f xs w)"
  using assms(2) by (induction xs arbitrary: w) (simp_all add: assms(1))

lemma register_fault:
  "w_fault w \<Longrightarrow> w_fault (svc_register_starton_obsrv i j w)"
  "w_fault w \<Longrightarrow> w_fault (svc_register_stopon_obsrv i j w)"
  by (auto simp: svc_register_starton_obsrv_def svc_register_stopon_obsrv_def notif_register_poll_sink_def
      notif_register_sink_def split: option.split bool.split)

lemma setup_fault: "w_fault w \<Longrightarrow> w_fault (tinit_repo_setup w)"
proof -
  have link: "w_fault (setup_link r names i n v)" if "w_fault v" "\<And>j i v. w_fault v \<Longrightarrow> w_fault (r j i v)"
    for r names i n and v :: "'a world"
    using that by (simp add: setup_link_def split: option.split)
  have "w_fault (tinit_repo_setup_svc_starton i v)" "w_fault (tinit_repo_setup_svc_stopon i v)" if "w_fault v"
    for i and v :: "'a world"
    using that by (auto simp: tinit_repo_setup_svc_starton_def tinit_repo_setup_svc_stopon_def
        intro!: fold_fault link register_fault split: option.split)
  then show "w_fault w \<Longrightarrow> w_fault (tinit_repo_setup w)" for w :: "'a world"
    unfolding tinit_repo_setup_def by (intro fold_fault) simp_all
qed

text \<open>A loaded service is stopped, and loading logs nothing.\<close>

definition states :: "'k world \<Rightarrow> svc_state list \<times> log_msg list" where
  "states w = (map s_state (w_svcs w), w_log w)"

lemma fold_same:
  assumes "\<And>x w. g (f x w) = g w"
  shows "g (fold f xs w) = g w"
  by (induction xs arbitrary: w) (simp_all add: assms)

lemma register_states:
  "states (svc_register_starton_obsrv i j w) = states w" "states (svc_register_stopon_obsrv i j w) = states w"
proof -
  have upd: "states (upd_svc i f w) = states w" if "\<And>s. s_state (f s) = s_state s" for i f and w :: "'b world"
    by (cases "i < length (w_svcs w)")
      (auto simp: states_def upd_svc_def map_update that list_update_beyond intro: list_update_same_conv [THEN iffD2])
  have fault: "states (fault w) = states w" for w :: "'b world"
    by (simp add: states_def fault_def)
  show "states (svc_register_starton_obsrv i j w) = states w" "states (svc_register_stopon_obsrv i j w) = states w"
    by (auto simp: svc_register_starton_obsrv_def svc_register_stopon_obsrv_def notif_register_poll_sink_def
        notif_register_sink_def upd fault upd_obsrv_def upd_poll_def
        split: option.split bool.split dep.split)
qed

lemma setup_states: "states (tinit_repo_setup w) = states w"
proof -
  have link: "states (setup_link r names i n v) = states v" if "\<And>j i v. states (r j i v) = states v"
    for r names i n and v :: "'a world"
    using that by (simp add: setup_link_def fault_def states_def split: option.split)
  have "states (tinit_repo_setup_svc_starton i v) = states v" "states (tinit_repo_setup_svc_stopon i v) = states v"
    for i and v :: "'a world"
    by (auto simp: tinit_repo_setup_svc_starton_def tinit_repo_setup_svc_stopon_def
        intro!: fold_same [where g = states] link register_states split: option.split)
  then show ?thesis
    unfolding tinit_repo_setup_def by (simp add: fold_same [where g = states])
qed

lemma load_dir_log: "load_dir C read junk incl r w m = (ret, w', m') \<Longrightarrow> w_log w' = w_log w"
proof (induction r arbitrary: w m)
  case (Cons e r)
  have one: "w_log w' = w_log w" if "tinit_repo_load_svc C read junk incl ent w m = (ret, w', m')" for ent w m ret w' m'
    using that by (auto simp: tinit_repo_load_svc_def Let_def fault_def split: if_split_asm prod.split_asm sum.split_asm ptr.split_asm)
  show ?case
  proof (cases e)
    case (Inl err)
    with Cons.prems show ?thesis by auto
  next
    case (Inr ent)
    obtain ret1 w1 m1 where l: "tinit_repo_load_svc C read junk incl ent w m = (ret1, w1, m1)"
      by (metis prod_cases3)
    with Cons.prems Inr Cons.IH [of w1 m1] one [OF l] show ?thesis
      by (auto split: if_split_asm)
  qed
qed simp

lemma repo_load_idle:
  assumes "cfg_ok C" "read_ok C read" "w_svcs w = []"
    and "fs_opendir F incl = Inr d" "tinit_repo_load C read junk debug F incl w m = (0, w', m')"
  shows "w_log w' = w_log w \<and> (\<forall>i. is_svc w' i \<longrightarrow> s_state (svc_at w' i) = TINIT_SVC_STOPPED_STAT)"
proof -
  obtain m1 where al: "mem_alloc m = (True, m1)"
    using assms(4,5) by (auto simp: tinit_repo_load_def split: prod.splits bool.splits)
  obtain ret w1 m2 where dir: "load_dir C read junk incl d w m1 = (ret, w1, m2)"
    by (metis prod_cases3)
  have w': "w' = tinit_repo_setup w1"
    using assms(4,5) al dir by (auto simp: tinit_repo_load_def split: if_split_asm prod.splits)
  have "loaded d incl w"
    using assms(3) by (simp add: loaded_def is_svc_def)
  with load_dir_loaded [OF assms(1,2) dir order_refl] have l: "loaded d incl w1"
    by blast
  have s: "map s_state (w_svcs w') = map s_state (w_svcs w1)" "w_log w' = w_log w"
    using setup_states [of w1] load_dir_log [OF dir] by (simp_all add: states_def w')
  then have len: "is_svc w' i \<longleftrightarrow> is_svc w1 i" for i
    using map_eq_imp_length_eq [OF s(1)] by (simp add: is_svc_def)
  have "s_state (svc_at w' i) = TINIT_SVC_STOPPED_STAT" if "is_svc w' i" for i
  proof -
    have "fresh_svc i (svc_at w1 i)"
      using l that len by (simp add: loaded_def)
    then obtain m3 m4 where "svc_init i (s_conf (svc_at w1 i)) m3 = (Inr (svc_at w1 i), m4)"
      by (auto simp: fresh_svc_def)
    from arg_cong [OF svc_init_ok [OF this], of s_state] have "s_state (svc_at w1 i) = TINIT_SVC_STOPPED_STAT"
      by (simp add: idle_svc_def)
    with that len show ?thesis
      using arg_cong [OF s(1), of "\<lambda>xs. xs ! i"] by (simp add: is_svc_def svc_at_def)
  qed
  with s(2) show ?thesis
    by blast
qed

lemma repo_load_ready_lemma:
  assumes "cfg_ok C" "read_ok C read" "w_svcs w = []" "\<not> w_fault w'"
    and "fs_opendir F incl = Inr d" "tinit_repo_load C read junk debug F incl w m = (0, w', m')"
  shows "graph_ok w' \<and> (\<forall>i. is_svc w' i \<longrightarrow> conf_file d incl (s_conf (svc_at w' i)) \<and> linked_ok w' i)"
proof -
  obtain m1 where al: "mem_alloc m = (True, m1)"
    using assms(5,6) by (auto simp: tinit_repo_load_def split: prod.splits bool.splits)
  obtain ret w1 m2 where dir: "load_dir C read junk incl d w m1 = (ret, w1, m2)"
    by (metis prod_cases3)
  have ret: "ret = 0" and w': "w' = tinit_repo_setup w1"
    using assms(5,6) al dir by (auto simp: tinit_repo_load_def split: if_split_asm prod.splits)
  have "loaded d incl w"
    using assms(3) by (simp add: loaded_def is_svc_def)
  with load_dir_loaded [OF assms(1,2) dir order_refl] have l: "loaded d incl w1"
    by blast
  have nf: "\<not> w_fault w1"
    using setup_fault assms(4) w' by blast
  have valid: "conf_valid (s_conf (svc_at w1 i))" if "is_svc w1 i" for i
    using l that by (auto simp: loaded_def conf_file_def)
  then have fresh: "fresh_repo w1"
    using l nf by (auto simp: fresh_repo_def loaded_def conf_valid_def)
  have "names_ok a" if "is_svc w1 i" "conf_get_starton (s_conf (svc_at w1 i)) = Some a \<or>
      conf_get_stopon (s_conf (svc_at w1 i)) = Some a" for i a
  proof -
    note h = that
    obtain ss where "a = arr_of ss 0"
      using valid [OF h(1)] h(2)
      by (auto simp: conf_valid_def deps_ok_def conf_get_starton_def conf_get_stopon_def)
    then show ?thesis
      by (simp add: names_ok_def strarr_nr_def strarr_get_def)
  qed
  with setup_linked [OF fresh] have res: "graph_ok w'" "world_confs w' = world_confs w1"
    "\<forall>i. is_svc w1 i \<longrightarrow> linked_ok w' i"
    unfolding w' by blast+
  have sv: "is_svc w' i = is_svc w1 i" for i
    using res(2) confs_svc [of i w'] confs_svc [of i w1] by simp
  have "s_conf (svc_at w' i) = s_conf (svc_at w1 i)" if "is_svc w1 i" for i
    using arg_cong [OF res(2), of "\<lambda>cs. cs ! i"] that sv
    by (simp add: world_confs_def is_svc_def svc_at_def)
  with l res sv show ?thesis
    by (simp add: loaded_def)
qed


definition conf_dir :: fs where
  "conf_dir = demo_fs\<lparr>fs_opendir := (\<lambda>p. if p = ''/s'' then Inr
     [Inr \<lparr>d_type = DT_REG, d_name = ''readme.txt''\<rparr>, Inr \<lparr>d_type = DT_REG, d_name = ''net.conf''\<rparr>,
      Inr \<lparr>d_type = DT_REG, d_name = ''lost.conf''\<rparr>] else Inl ENOENT)\<rparr>"

definition no_svcs :: "sim world" where
  "no_svcs = world_of []"


end
