(* ===== verification/Sys.thy ===== *)
theory Sys imports Svc_Types begin

unbundle bit_operations_syntax

text \<open>
  Process-level services: the wrappers of \<open>sys.c\<close> around \<open>fstat\<close>, \<open>open\<close> and \<open>dup2\<close>, and what the
  child of \<open>svc_spawn\<close> does between \<open>vfork\<close> and \<open>execve\<close> (\<open>svc_exec\<close> in \<open>svc.c\<close>). The kernel is the
  record \<open>kops\<close> of operations over a state of its own; a process keeps that state, the calls it
  made, newest first, and whether an assertion failed.
\<close>

type_synonym flags = "32 word"

abbreviation (input) O_RDONLY :: flags where "O_RDONLY \<equiv> 0"
abbreviation (input) O_WRONLY :: flags where "O_WRONLY \<equiv> 1"
abbreviation (input) O_RDWR :: flags where "O_RDWR \<equiv> 2"
abbreviation (input) O_NOCTTY :: flags where "O_NOCTTY \<equiv> 0x100"
abbreviation (input) O_APPEND :: flags where "O_APPEND \<equiv> 0x400"
abbreviation (input) O_NONBLOCK :: flags where "O_NONBLOCK \<equiv> 0x800"
abbreviation (input) O_NOFOLLOW :: flags where "O_NOFOLLOW \<equiv> 0x20000"
abbreviation (input) O_NOATIME :: flags where "O_NOATIME \<equiv> 0x40000"

abbreviation (input) S_IFMT :: flags where "S_IFMT \<equiv> 0xF000"
abbreviation (input) S_IFCHR :: flags where "S_IFCHR \<equiv> 0x2000"

abbreviation (input) STDIN_FILENO :: int where "STDIN_FILENO \<equiv> 0"
abbreviation (input) STDOUT_FILENO :: int where "STDOUT_FILENO \<equiv> 1"
abbreviation (input) STDERR_FILENO :: int where "STDERR_FILENO \<equiv> 2"

abbreviation (input) ENOEXEC :: int where "ENOEXEC \<equiv> 8"
abbreviation (input) EFAULT :: int where "EFAULT \<equiv> 14"
abbreviation (input) ETXTBSY :: int where "ETXTBSY \<equiv> 26"
abbreviation (input) EROFS :: int where "EROFS \<equiv> 30"
abbreviation (input) ENOSYS :: int where "ENOSYS \<equiv> 38"
abbreviation (input) ELOOP :: int where "ELOOP \<equiv> 40"
abbreviation (input) EOPNOTSUPP :: int where "EOPNOTSUPP \<equiv> 95"
abbreviation (input) EX_OSERR :: int where "EX_OSERR \<equiv> 71"

record file_stat =
  st_mode :: flags
  st_uid :: nat
  st_gid :: nat

definition S_ISCHR :: "flags \<Rightarrow> bool" where
  "S_ISCHR mode \<longleftrightarrow> mode AND S_IFMT = S_IFCHR"

datatype syscall =
    Sys_open string flags | Sys_close int | Sys_fstat int | Sys_dup2 int int | Sys_setsid
  | Sys_unblock "int list" | Sys_drop_tty int | Sys_close_from nat
  | Sys_execve "string option" "string option list" "string option list option"

record 'k kops =
  ko_open :: "string \<Rightarrow> flags \<Rightarrow> 'k \<Rightarrow> (int + int) \<times> 'k"    \<comment> \<open>errno or descriptor\<close>
  ko_close :: "int \<Rightarrow> 'k \<Rightarrow> 'k"
  ko_fstat :: "int \<Rightarrow> 'k \<Rightarrow> (int + file_stat) \<times> 'k"
  ko_dup2 :: "int \<Rightarrow> int \<Rightarrow> 'k \<Rightarrow> int \<times> 'k"                  \<comment> \<open>0 or errno\<close>
  ko_setsid :: "'k \<Rightarrow> bool \<times> 'k"                            \<comment> \<open>false when it failed\<close>
  ko_unblock :: "int list \<Rightarrow> 'k \<Rightarrow> 'k"
  ko_drop_tty :: "int \<Rightarrow> 'k \<Rightarrow> 'k"                       \<comment> \<open>\<open>ioctl\<close> with \<open>TIOCNOTTY\<close>\<close>
  ko_close_from :: "nat \<Rightarrow> 'k \<Rightarrow> 'k"                     \<comment> \<open>\<open>ufd_close_fds\<close>\<close>
  ko_execve :: "string option \<Rightarrow> string option list \<Rightarrow> string option list option \<Rightarrow> 'k \<Rightarrow> int option \<times> 'k"
    \<comment> \<open>\<open>None\<close>: the program runs; otherwise errno\<close>

record 'k process =
  p_kern :: 'k
  p_calls :: "syscall list"
  p_fault :: bool

definition p_check :: "bool \<Rightarrow> 'k process \<Rightarrow> 'k process" where
  "p_check ok p = (if ok then p else p\<lparr>p_fault := True\<rparr>)"

definition p_call :: "syscall \<Rightarrow> 'k \<Rightarrow> 'k process \<Rightarrow> 'k process" where
  "p_call c k p = p\<lparr>p_kern := k, p_calls := c # p_calls p\<rparr>"

section \<open>sys.c\<close>

definition sys_fstat :: "'k kops \<Rightarrow> int \<Rightarrow> 'k process \<Rightarrow> (int + file_stat) \<times> 'k process" where
  "sys_fstat K fd p = (case ko_fstat K fd (p_kern p) of
      (Inr st, k) \<Rightarrow> (Inr st, p_call (Sys_fstat fd) k p)
    | (Inl err, k) \<Rightarrow>
        (Inl (- err), p_check (err \<notin> {EBADF, EFAULT, ELOOP, ENAMETOOLONG, ENOENT}) (p_call (Sys_fstat fd) k p)))"

definition sys_open_stdio :: "'k kops \<Rightarrow> string \<Rightarrow> flags \<Rightarrow> 'k process \<Rightarrow> int \<times> 'k process" where
  "sys_open_stdio K path fl p =
     (let p0 = p_check (path \<noteq> [] \<and> length path < 4096) p
      in case ko_open K path fl (p_kern p0) of
        (Inr fd, k) \<Rightarrow> (fd, p_call (Sys_open path fl) k p0)
      | (Inl err, k) \<Rightarrow>
          (- err, p_check (err \<notin> {EFAULT, EINVAL, ENAMETOOLONG, ENOSPC, EOPNOTSUPP, EROFS, ETXTBSY, EAGAIN})
             (p_call (Sys_open path fl) k p0)))"

definition sys_dup2 :: "'k kops \<Rightarrow> int \<Rightarrow> int \<Rightarrow> 'k process \<Rightarrow> int \<times> 'k process" where
  "sys_dup2 K old new p = (case ko_dup2 K old new (p_kern p) of
      (err, k) \<Rightarrow>
        if err = 0 then (0, p_call (Sys_dup2 old new) k p)
        else (- err, p_check (err \<noteq> EBADF \<and> err \<noteq> EINVAL) (p_call (Sys_dup2 old new) k p)))"

section \<open>The child of a spawn\<close>

definition sys_close :: "'k kops \<Rightarrow> int \<Rightarrow> 'k process \<Rightarrow> 'k process" where
  "sys_close K fd p = p_call (Sys_close fd) (ko_close K fd (p_kern p)) p"

definition svc_reopen_stdin :: "'k kops \<Rightarrow> string \<Rightarrow> 'k process \<Rightarrow> int \<times> 'k process" where
  "svc_reopen_stdin K path p =
     (let p0 = p_check (path \<noteq> [] \<and> length path < 4096 \<and> take 5 path = ''/dev/'') p;
          p1 = sys_close K STDIN_FILENO p0
      in case sys_open_stdio K path (O_RDWR OR O_NOATIME OR O_NOFOLLOW) p1 of
        (ret, p2) \<Rightarrow>
          if ret \<noteq> STDIN_FILENO then (if ret < 0 then ret else - EBADF, p2)
          else case sys_fstat K STDIN_FILENO p2 of
            (Inl err, p3) \<Rightarrow> (err, p3)
          | (Inr st, p3) \<Rightarrow> (if \<not> S_ISCHR (st_mode st) then - ENOTTY else 0, p3))"

definition svc_reopen_stdout :: "'k kops \<Rightarrow> string \<Rightarrow> 'k process \<Rightarrow> int \<times> 'k process" where
  "svc_reopen_stdout K path p =
     (let p0 = p_check (path \<noteq> [] \<and> length path < 4096) p;
          p1 = sys_close K STDOUT_FILENO p0
      in case sys_open_stdio K path (O_WRONLY OR O_APPEND OR O_NOATIME OR O_NOFOLLOW) p1 of
        (ret, p2) \<Rightarrow> if ret \<noteq> STDOUT_FILENO then (if ret < 0 then ret else - EBADF, p2) else (0, p2))"

text \<open>How the child ends: in the program it executes, or by \<open>_exit\<close>.\<close>

datatype child_end = Executes | Exits int

text \<open>\<open>sig_full_msk\<close>: every signal but \<open>SIGKILL\<close> and \<open>SIGSTOP\<close>.\<close>

definition sig_full_msk :: "int list" where
  "sig_full_msk = filter (\<lambda>s. s \<noteq> SIGKILL \<and> s \<noteq> 19) [1..64]"

definition exec_stdin :: "'k kops \<Rightarrow> conf_svc \<Rightarrow> 'k process \<Rightarrow> bool \<times> 'k process" where
  "exec_stdin K conf p = (case c_stdin conf of
      None \<Rightarrow> (True, p)
    | Some path \<Rightarrow> (case svc_reopen_stdin K (cstr path) p of (ret, p1) \<Rightarrow> (ret = 0, p1)))"

definition exec_stdout :: "'k kops \<Rightarrow> conf_svc \<Rightarrow> 'k process \<Rightarrow> bool \<times> 'k process" where
  "exec_stdout K conf p = (case c_stdout conf of
      None \<Rightarrow> (True, p)
    | Some path \<Rightarrow> (case svc_reopen_stdout K (cstr path) p of (ret, p1) \<Rightarrow>
        if ret \<noteq> 0 then (False, p1)
        else case sys_dup2 K STDOUT_FILENO STDERR_FILENO p1 of (ret, p2) \<Rightarrow> (ret \<ge> 0, p2)))"

definition svc_exec :: "'k kops \<Rightarrow> conf_svc \<Rightarrow> string option list \<Rightarrow> 'k process \<Rightarrow> child_end \<times> 'k process" where
  "svc_exec K conf args p =
     (case ko_setsid K (p_kern p) of (sid, k) \<Rightarrow>
      case exec_stdin K conf (p_check (sid \<and> args \<noteq> [] \<and> hd args \<noteq> None) (p_call Sys_setsid k p)) of (ok, p1) \<Rightarrow>
        if \<not> ok then (Exits EX_OSERR, p1)
        else case exec_stdout K conf p1 of (ok, p2) \<Rightarrow>
          if \<not> ok then (Exits EX_OSERR, p2)
          else let p3 = p_call (Sys_unblock sig_full_msk) (ko_unblock K sig_full_msk (p_kern p2)) p2
               in case ko_execve K (hd args) args (conf_get_env conf) (p_kern p3) of
                 (None, k) \<Rightarrow> (Executes, p_call (Sys_execve (hd args) args (conf_get_env conf)) k p3)
               | (Some err, k) \<Rightarrow>
                   (Exits EX_OSERR, p_check (err \<noteq> EFAULT \<and> err \<noteq> ENAMETOOLONG)
                      (p_call (Sys_execve (hd args) args (conf_get_env conf)) k p3)))"

section \<open>What a spawned program starts with\<close>

lemma p_check_sel [simp]: "p_kern (p_check c p) = p_kern p" "p_calls (p_check c p) = p_calls p"
  by (simp_all add: p_check_def)

lemma p_call_sel [simp]: "p_kern (p_call c k p) = k" "p_calls (p_call c k p) = c # p_calls p"
  by (simp_all add: p_call_def)

lemma sys_open_calls: "sys_open_stdio K path fl p = (ret, p') \<Longrightarrow> p_calls p' = Sys_open path fl # p_calls p"
  by (auto simp: sys_open_stdio_def Let_def split: prod.splits sum.splits)

lemma sys_fstat_calls:
  "sys_fstat K fd p = (r, p') \<Longrightarrow> p_calls p' = Sys_fstat fd # p_calls p \<and>
     (case r of Inr st \<Rightarrow> fst (ko_fstat K fd (p_kern p)) = Inr st | Inl _ \<Rightarrow> True)"
  by (auto simp: sys_fstat_def split: prod.splits sum.splits)

lemma sys_dup2_calls: "sys_dup2 K old new p = (r, p') \<Longrightarrow> p_calls p' = Sys_dup2 old new # p_calls p"
  by (auto simp: sys_dup2_def split: prod.splits if_splits)

abbreviation (input) stdin_flags :: flags where "stdin_flags \<equiv> O_RDWR OR O_NOATIME OR O_NOFOLLOW"
abbreviation (input) stdout_flags :: flags where "stdout_flags \<equiv> O_WRONLY OR O_APPEND OR O_NOATIME OR O_NOFOLLOW"

lemma reopen_stdin_calls:
  assumes "svc_reopen_stdin K path p = (0, p')"
  shows "p_calls p' = Sys_fstat 0 # Sys_open path stdin_flags # Sys_close 0 # p_calls p"
proof -
  let ?p1 = "sys_close K 0 (p_check (path \<noteq> [] \<and> length path < 4096 \<and> take 5 path = ''/dev/'') p)"
  obtain r p2 where o: "sys_open_stdio K path stdin_flags ?p1 = (r, p2)"
    by fastforce
  obtain x p3 where f: "sys_fstat K 0 p2 = (x, p3)"
    by fastforce
  have "r = 0 \<and> p' = p3"
    using assms o f by (auto simp: svc_reopen_stdin_def Let_def split: if_split_asm sum.split_asm)
  with sys_open_calls [OF o] sys_fstat_calls [OF f] show ?thesis
    by (simp add: sys_close_def)
qed

lemma reopen_stdout_calls:
  assumes "svc_reopen_stdout K path p = (0, p')"
  shows "p_calls p' = Sys_open path stdout_flags # Sys_close 1 # p_calls p"
proof -
  let ?p1 = "sys_close K 1 (p_check (path \<noteq> [] \<and> length path < 4096) p)"
  obtain r p2 where o: "sys_open_stdio K path stdout_flags ?p1 = (r, p2)"
    by fastforce
  have "p' = p2"
    using assms o by (auto simp: svc_reopen_stdout_def Let_def split: if_split_asm)
  with sys_open_calls [OF o] show ?thesis
    by (simp add: sys_close_def)
qed

lemma exec_stdin_calls:
  "exec_stdin K conf p = (True, p') \<Longrightarrow> p_calls p' = (case c_stdin conf of
     Some path \<Rightarrow> [Sys_fstat 0, Sys_open (cstr path) stdin_flags, Sys_close 0] | None \<Rightarrow> []) @ p_calls p"
  by (auto simp: exec_stdin_def split: option.splits prod.splits dest: reopen_stdin_calls)

lemma exec_stdout_calls:
  "exec_stdout K conf p = (True, p') \<Longrightarrow> p_calls p' = (case c_stdout conf of
     Some path \<Rightarrow> [Sys_dup2 1 2, Sys_open (cstr path) stdout_flags, Sys_close 1] | None \<Rightarrow> []) @ p_calls p"
  by (auto simp: exec_stdout_def split: option.splits prod.splits if_splits dest!: reopen_stdout_calls sys_dup2_calls)

text \<open>The calls a child makes on its way to the program, in order.\<close>

definition exec_calls :: "conf_svc \<Rightarrow> string option list \<Rightarrow> syscall list" where
  "exec_calls conf args =
     [Sys_setsid] @
     (case c_stdin conf of
        Some path \<Rightarrow> [Sys_close 0, Sys_open (cstr path) stdin_flags, Sys_fstat 0] | None \<Rightarrow> []) @
     (case c_stdout conf of
        Some path \<Rightarrow> [Sys_close 1, Sys_open (cstr path) stdout_flags, Sys_dup2 1 2] | None \<Rightarrow> []) @
     [Sys_unblock sig_full_msk, Sys_execve (hd args) args (conf_get_env conf)]"


text \<open>A kernel where \<open>/dev/tty1\<close> gets descriptor 0 and any other file descriptor 1.\<close>

definition demo_kops :: "unit kops" where
  "demo_kops = \<lparr>
     ko_open = (\<lambda>path fl k. (Inr (if path = ''/dev/tty1'' then 0 else 1), k)),
     ko_close = (\<lambda>fd k. k),
     ko_fstat = (\<lambda>fd k. (Inr \<lparr>st_mode = 0x2180, st_uid = 0, st_gid = 0\<rparr>, k)),
     ko_dup2 = (\<lambda>old new k. (0, k)),
     ko_setsid = (\<lambda>k. (True, k)),
     ko_unblock = (\<lambda>m k. k),
     ko_drop_tty = (\<lambda>fd k. k),
     ko_close_from = (\<lambda>fd k. k),
     ko_execve = (\<lambda>prog args env k. (None, k))\<rparr>"

definition tty_conf :: conf_svc where
  "tty_conf = empty_conf\<lparr>c_stdin := Some ''/dev/tty1'', c_stdout := Some ''/dev/tty2''\<rparr>"


end
