(* ===== verification/Mnt.thy ===== *)
theory Mnt imports Sys "HOL-Library.Sublist" begin

text \<open>
  Mounting and unmounting file systems (\<open>mnt.c\<close>): the mounts of the boot, the table of mount points
  and file system types read at shutdown, and the unmount loop. The state keeps the kernel, the
  calls made (newest first), \<open>errno\<close> where the code reads it, the allocations and whether an
  assertion failed or a null or uninitialised pointer was used. Library functions that succeed leave
  \<open>errno\<close> as it was.
\<close>

type_synonym mflags = "64 word"

abbreviation (input) MS_RDONLY :: mflags where "MS_RDONLY \<equiv> 1"
abbreviation (input) MS_NOSUID :: mflags where "MS_NOSUID \<equiv> 2"
abbreviation (input) MS_NODEV :: mflags where "MS_NODEV \<equiv> 4"
abbreviation (input) MS_NOEXEC :: mflags where "MS_NOEXEC \<equiv> 8"
abbreviation (input) MS_REMOUNT :: mflags where "MS_REMOUNT \<equiv> 0x20"
abbreviation (input) MS_NOATIME :: mflags where "MS_NOATIME \<equiv> 0x400"
abbreviation (input) MS_NODIRATIME :: mflags where "MS_NODIRATIME \<equiv> 0x800"
abbreviation (input) MS_RELATIME :: mflags where "MS_RELATIME \<equiv> 0x200000"
abbreviation (input) MNT_FORCE :: flags where "MNT_FORCE \<equiv> 1"
abbreviation (input) MNT_DETACH :: flags where "MNT_DETACH \<equiv> 2"
abbreviation (input) UMOUNT_NOFOLLOW :: flags where "UMOUNT_NOFOLLOW \<equiv> 8"

abbreviation (input) ENXIO :: int where "ENXIO \<equiv> 6"
abbreviation (input) ENOTBLK :: int where "ENOTBLK \<equiv> 15"

datatype mcall =
    Mount string string string mflags "string option"
  | Remount string mflags "string option"
  | Mkdir string flags | Chmod string flags | Chown string nat nat
  | Umount string flags

text \<open>Each operation returns 0 or an errno; the path helpers of the utils package, a negative one.\<close>

record 'k mops =
  mo_mount :: "string \<Rightarrow> string \<Rightarrow> string \<Rightarrow> mflags \<Rightarrow> string option \<Rightarrow> 'k \<Rightarrow> int \<times> 'k"
  mo_remount :: "string \<Rightarrow> mflags \<Rightarrow> string option \<Rightarrow> 'k \<Rightarrow> int \<times> 'k"
  mo_mkdir :: "string \<Rightarrow> flags \<Rightarrow> 'k \<Rightarrow> int \<times> 'k"
  mo_chmod :: "string \<Rightarrow> flags \<Rightarrow> 'k \<Rightarrow> int \<times> 'k"
  mo_chown :: "string \<Rightarrow> nat \<Rightarrow> nat \<Rightarrow> 'k \<Rightarrow> int \<times> 'k"
  mo_gid_byname :: "string \<Rightarrow> int + nat"
  mo_umount2 :: "string \<Rightarrow> flags \<Rightarrow> 'k \<Rightarrow> int \<times> 'k"

text \<open>The strings and modes of the build configuration.\<close>

record mconf =
  mc_proc_opts :: "string option"
  mc_dev_opts :: "string option"
  mc_run_opts :: "string option"
  mc_root_opts :: "string option"
  mc_mqueue_mode :: flags
  mc_mqueue_group :: string

record 'k mst =
  m_kern :: 'k
  m_calls :: "mcall list"
  m_errno :: int
  m_mem :: mem
  m_fault :: bool

definition m_check :: "bool \<Rightarrow> 'k mst \<Rightarrow> 'k mst" where
  "m_check ok s = (if ok then s else s\<lparr>m_fault := True\<rparr>)"

definition m_call :: "mcall \<Rightarrow> 'k \<Rightarrow> 'k mst \<Rightarrow> 'k mst" where
  "m_call c k s = s\<lparr>m_kern := k, m_calls := c # m_calls s\<rparr>"

section \<open>System call helpers\<close>

definition mnt_mount :: "'k mops \<Rightarrow> string \<Rightarrow> string \<Rightarrow> string \<Rightarrow> mflags \<Rightarrow> string option \<Rightarrow> 'k mst \<Rightarrow> int \<times> 'k mst" where
  "mnt_mount M dev dir type fl opts s = (case mo_mount M dev dir type fl opts (m_kern s) of
      (err, k) \<Rightarrow>
        if err \<noteq> 0 then
          (- err, m_check (err \<notin> {EACCES, EBUSY, EFAULT, ENAMETOOLONG, ENOTBLK, ENXIO, EPERM})
             ((m_call (Mount dev dir type fl opts) k s)\<lparr>m_errno := err\<rparr>))
        else (0, m_call (Mount dev dir type fl opts) k s))"

definition mnt_remount :: "'k mops \<Rightarrow> string \<Rightarrow> mflags \<Rightarrow> string option \<Rightarrow> 'k mst \<Rightarrow> int \<times> 'k mst" where
  "mnt_remount M dir fl opts s = (case mo_remount M dir (MS_REMOUNT OR fl) opts (m_kern s) of
      (err, k) \<Rightarrow>
        if err \<noteq> 0 then
          (- err, m_check (err \<notin> {EACCES, EFAULT, ENAMETOOLONG, ENOTBLK, ENXIO, EPERM})
             ((m_call (Remount dir (MS_REMOUNT OR fl) opts) k s)\<lparr>m_errno := err\<rparr>))
        else (0, m_call (Remount dir (MS_REMOUNT OR fl) opts) k s))"

section \<open>Initial mounts\<close>

abbreviation (input) TINIT_PSEUDO_MNT_BASE_FLAGS :: mflags where
  "TINIT_PSEUDO_MNT_BASE_FLAGS \<equiv> MS_NODIRATIME OR MS_NOEXEC OR MS_NOSUID"

definition mount_pseudo :: "'k mops \<Rightarrow> string \<Rightarrow> string \<Rightarrow> mflags \<Rightarrow> string option \<Rightarrow> 'k mst \<Rightarrow> int \<times> 'k mst" where
  "mount_pseudo M dir type fl opts s = mnt_mount M type dir type fl opts s"

definition mnt_chmod :: "'k mops \<Rightarrow> string \<Rightarrow> flags \<Rightarrow> 'k mst \<Rightarrow> int \<times> 'k mst" where
  "mnt_chmod M path mode s = (case mo_chmod M path mode (m_kern s) of
      (err, k) \<Rightarrow> (- err, m_call (Chmod path mode) k s))"

definition mount_mqueue :: "'k mops \<Rightarrow> mconf \<Rightarrow> 'k mst \<Rightarrow> int \<times> 'k mst" where
  "mount_mqueue M c s = (case mo_mkdir M ''/dev/mqueue'' 0x1C0 (m_kern s) of
      (err, k) \<Rightarrow>
        let s1 = m_call (Mkdir ''/dev/mqueue'' 0x1C0) k s
        in if err \<noteq> 0 then (- err, m_check (err \<notin> {EFAULT, ENAMETOOLONG, EPERM}) (s1\<lparr>m_errno := err\<rparr>))
           else case mount_pseudo M ''/dev/mqueue'' ''mqueue''
                  (TINIT_PSEUDO_MNT_BASE_FLAGS OR MS_NOATIME OR MS_NODEV) None s1 of
             (err, s2) \<Rightarrow>
               if err \<noteq> 0 then (err, s2)
               else case mnt_chmod M ''/dev/mqueue'' (mc_mqueue_mode c) s2 of
                 (err, s3) \<Rightarrow>
                   if err \<noteq> 0 then (0, s3)
                   else case mo_gid_byname M (mc_mqueue_group c) of
                     Inl _ \<Rightarrow> (0, s3)
                   | Inr gid \<Rightarrow> (case mo_chown M ''/dev/mqueue'' 0 gid (m_kern s3) of
                       (_, k) \<Rightarrow> (0, m_call (Chown ''/dev/mqueue'' 0 gid) k s3)))"

definition mount_devfs :: "'k mops \<Rightarrow> mconf \<Rightarrow> 'k mst \<Rightarrow> int \<times> 'k mst" where
  "mount_devfs M c s = (case mount_pseudo M ''/dev'' ''devtmpfs'' (TINIT_PSEUDO_MNT_BASE_FLAGS OR MS_NOATIME) None s of
      (err, s1) \<Rightarrow>
        if err \<noteq> 0 then (err, s1)
        else let s2 = snd (mnt_remount M ''/dev'' (TINIT_PSEUDO_MNT_BASE_FLAGS OR MS_NOATIME) (mc_dev_opts c) s1);
                 s3 = snd (mnt_chmod M ''/dev/kmsg'' 0x180 s2);
                 s4 = snd (mnt_chmod M ''/dev/ptmx'' 0x180 s3);
                 s5 = snd (mnt_chmod M ''/dev/random'' 0x180 s4);
                 s6 = snd (mnt_chmod M ''/dev/urandom'' 0x1A4 s5)
             in (0, s6))"

definition remount_root :: "'k mops \<Rightarrow> mconf \<Rightarrow> 'k mst \<Rightarrow> int \<times> 'k mst" where
  "remount_root M c s = mnt_remount M ''/''
     (MS_RDONLY OR MS_NODIRATIME OR MS_NOATIME OR MS_NOSUID OR MS_NODEV) (mc_root_opts c) s"

definition mnt_mount_all :: "'k mops \<Rightarrow> mconf \<Rightarrow> 'k mst \<Rightarrow> int \<times> 'k mst" where
  "mnt_mount_all M c s =
     (case mount_pseudo M ''/proc'' ''proc'' (TINIT_PSEUDO_MNT_BASE_FLAGS OR MS_NOATIME OR MS_NODEV) (mc_proc_opts c) s of
        (err, s1) \<Rightarrow> if err \<noteq> 0 then (err, s1) else
      case mount_pseudo M ''/sys'' ''sysfs'' (TINIT_PSEUDO_MNT_BASE_FLAGS OR MS_NOATIME OR MS_NODEV) None s1 of
        (err, s2) \<Rightarrow> if err \<noteq> 0 then (err, s2) else
      case mount_devfs M c s2 of
        (err, s3) \<Rightarrow> if err \<noteq> 0 then (err, s3) else
      case mount_mqueue M c s3 of
        (err, s4) \<Rightarrow> if err \<noteq> 0 then (err, s4) else
      case mount_pseudo M ''/run'' ''tmpfs'' (TINIT_PSEUDO_MNT_BASE_FLAGS OR MS_RELATIME) (mc_run_opts c) s4 of
        (err, s5) \<Rightarrow> if err \<noteq> 0 then (err, s5) else
      remount_root M c s5)"

section \<open>File system types\<close>

abbreviation (input) FSTYPE_MAX :: nat where "FSTYPE_MAX \<equiv> 256"
abbreviation (input) LF :: char where "LF \<equiv> CHR 0x0A"
abbreviation (input) TAB :: char where "TAB \<equiv> CHR 0x09"

record mnt_fstype =
  ft_skip :: bool
  ft_name :: string
  ft_mask :: flags

definition mnt_create_fstype :: "string \<Rightarrow> bool \<Rightarrow> 'k mst \<Rightarrow> mnt_fstype option \<times> 'k mst" where
  "mnt_create_fstype name nodev s =
     (let len = strnlen name FSTYPE_MAX
      in if len = 0 then (None, s\<lparr>m_errno := ENODATA\<rparr>)
         else if len \<ge> FSTYPE_MAX then (None, s\<lparr>m_errno := ENAMETOOLONG\<rparr>)
         else case mem_alloc (m_mem s) of
           (False, m) \<Rightarrow> (None, s\<lparr>m_mem := m, m_errno := ENOMEM\<rparr>)
         | (True, m) \<Rightarrow>
             (Some \<lparr>ft_skip = (nodev \<or> name = ''fuse''), ft_name = take len name,
                ft_mask = (if name \<in> {''nfs'', ''cifs'', ''9p'', ''ceph'', ''lustre''} then NOT MNT_FORCE else NOT 0)\<rparr>,
              s\<lparr>m_mem := m\<rparr>))"

text \<open>\<open>strsep\<close> with the delimiters of the source: the token, and what follows the delimiter if any.\<close>

definition is_delim :: "char \<Rightarrow> bool" where
  "is_delim c \<longleftrightarrow> c = CHR '' '' \<or> c = TAB \<or> c = LF"

definition strsep :: "string \<Rightarrow> string \<times> string option" where
  "strsep s = (takeWhile (\<lambda>c. \<not> is_delim c) s,
     (case dropWhile (\<lambda>c. \<not> is_delim c) s of [] \<Rightarrow> None | _ # r \<Rightarrow> Some r))"

text \<open>The name and the \<open>nodev\<close> mark of a line, when it has both fields.\<close>

definition fstype_line :: "string \<Rightarrow> (string \<times> bool) option" where
  "fstype_line ln = (case strsep (cstr ln) of
      (a, None) \<Rightarrow> None
    | (a, Some left) \<Rightarrow>
        if a \<noteq> [] \<and> a \<noteq> ''nodev'' then None
        else case strsep left of
          (b, None) \<Rightarrow> None
        | (b, Some _) \<Rightarrow> if b = [] then None else Some (b, a \<noteq> []))"

text \<open>
  A stream is what successive calls of \<open>getline\<close> read: a line with its newline, except possibly the
  last, or an error. At the end \<open>getline\<close> fails without touching \<open>errno\<close>. The end-of-file mark of
  the stream is set once a read has reached it.
\<close>

type_synonym stream = "(int + string) list"

fun fstypes_loop :: "stream \<Rightarrow> bool \<Rightarrow> mnt_fstype list \<Rightarrow> 'k mst \<Rightarrow> int \<times> mnt_fstype list \<times> 'k mst" where
  "fstypes_loop [] eof types s =
     (if eof then (0, types, s)
      else if m_errno s = EAGAIN then (0, types, m_check (m_errno s \<noteq> EINVAL) s)
      else (- m_errno s, types, m_check (m_errno s \<noteq> EINVAL) s))"
| "fstypes_loop (Inl err # r) eof types s =
     (if eof then (0, types, s)
      else let s1 = m_check (err \<noteq> EINVAL) (s\<lparr>m_errno := err\<rparr>)
           in if err = EAGAIN then (0, types, s1) else (- err, types, s1))"
| "fstypes_loop (Inr ln # r) eof types s =
     (if eof then (0, types, s)
      else let eof1 = (last ln \<noteq> LF)
           in case fstype_line ln of
             None \<Rightarrow> fstypes_loop r eof1 types s
           | Some (name, nodev) \<Rightarrow>
               (case mnt_create_fstype name nodev s of
                  (Some t, s1) \<Rightarrow> fstypes_loop r eof1 (types @ [t]) s1
                | (None, s1) \<Rightarrow>
                    if m_errno s1 = ENOMEM then (- ENOMEM, types, s1) else fstypes_loop r eof1 types s1))"

definition mnt_release_fstypes :: "mnt_fstype list \<Rightarrow> 'k mst \<Rightarrow> 'k mst" where
  "mnt_release_fstypes types s = s\<lparr>m_mem := mem_free (length types) (m_mem s)\<rparr>"

text \<open>
  The list of types of the table is uninitialised (\<open>None\<close>) until \<open>stroll_slist_init\<close>. \<open>types_file\<close> is
  what \<open>fopen\<close> gives for the file of types.
\<close>

definition mnt_load_fstypes :: "int + stream \<Rightarrow> 'k mst \<Rightarrow> int \<times> mnt_fstype list option \<times> 'k mst" where
  "mnt_load_fstypes types_file s = (case types_file of
      Inl err \<Rightarrow> (- err, None, s\<lparr>m_errno := err\<rparr>)
    | Inr lines \<Rightarrow> (case mem_alloc (m_mem s) of
        (False, m) \<Rightarrow> (- ENOMEM, None, s\<lparr>m_mem := m, m_errno := ENOMEM, m_fault := True\<rparr>)
      | (True, m) \<Rightarrow> (case fstypes_loop lines False [] (s\<lparr>m_mem := m\<rparr>) of
          (ret, types, s1) \<Rightarrow>
            let s2 = s1\<lparr>m_mem := mem_free 1 (m_mem s1)\<rparr>
            in if ret \<noteq> 0 then (ret, Some [], mnt_release_fstypes types s2) else (0, Some types, s2))))"

definition mnt_find_fstype :: "mnt_fstype list \<Rightarrow> string \<Rightarrow> mnt_fstype option" where
  "mnt_find_fstype types fstype = List.find (\<lambda>t. strn_eq FSTYPE_MAX (ft_name t) fstype) types"

section \<open>Mount points\<close>

record mntent =
  mnt_fsname :: string
  mnt_dir :: string
  mnt_type :: string

record mnt_point =
  pt_fsname :: string
  pt_dir :: string
  pt_type :: string

definition mnt_strcpy :: "string \<Rightarrow> nat \<Rightarrow> int + string" where
  "mnt_strcpy src sz =
     (let len = strnlen src sz in if len \<ge> sz then Inl (- ENAMETOOLONG) else Inr (take len src))"

definition mnt_create_point :: "mntent \<Rightarrow> 'k mst \<Rightarrow> mnt_point option \<times> 'k mst" where
  "mnt_create_point entry s = (case mem_alloc (m_mem s) of
      (False, m) \<Rightarrow> (None, s\<lparr>m_mem := m, m_errno := ENOMEM\<rparr>)
    | (True, m) \<Rightarrow>
        (let undo = (\<lambda>err. (None, s\<lparr>m_mem := mem_free 1 m, m_errno := - err\<rparr>))
         in case mnt_strcpy (mnt_fsname entry) 4096 of
           Inl err \<Rightarrow> undo err
         | Inr fsname \<Rightarrow> (case mnt_strcpy (mnt_dir entry) 4096 of
             Inl err \<Rightarrow> undo err
           | Inr dir \<Rightarrow> (case mnt_strcpy (mnt_type entry) FSTYPE_MAX of
               Inl err \<Rightarrow> undo err
             | Inr type \<Rightarrow> (Some \<lparr>pt_fsname = fsname, pt_dir = dir, pt_type = type\<rparr>, s\<lparr>m_mem := m\<rparr>)))))"

text \<open>
  The loop over \<open>getmntent\<close>: the end of the file and an error of the stream are one, since the test of
  \<open>errno\<close> after it is an assignment. Points are queued at the front.
\<close>

fun points_loop :: "(int + mntent) list \<Rightarrow> mnt_point list \<Rightarrow> 'k mst \<Rightarrow> int \<times> mnt_point list \<times> 'k mst" where
  "points_loop [] pts s = (0, pts, s\<lparr>m_errno := EAGAIN\<rparr>)"
| "points_loop (Inl err # r) pts s = (0, pts, s\<lparr>m_errno := EAGAIN\<rparr>)"
| "points_loop (Inr ent # r) pts s = (case mnt_create_point ent s of
      (Some pt, s1) \<Rightarrow> points_loop r (pt # pts) s1
    | (None, s1) \<Rightarrow>
        if m_errno s1 = ENOMEM then (- ENOMEM, pts, s1) else points_loop r pts s1)"

definition mnt_release_points :: "mnt_point list \<Rightarrow> 'k mst \<Rightarrow> 'k mst" where
  "mnt_release_points pts s = s\<lparr>m_mem := mem_free (length pts) (m_mem s)\<rparr>"

definition mnt_load_points :: "int + (int + mntent) list \<Rightarrow> 'k mst \<Rightarrow> int \<times> mnt_point list \<times> 'k mst" where
  "mnt_load_points mnttab s = (case mnttab of
      Inl err \<Rightarrow> (- err, [], m_check (err \<noteq> EINVAL) (s\<lparr>m_errno := err\<rparr>))
    | Inr ents \<Rightarrow> (case points_loop ents [] s of
        (ret, pts, s1) \<Rightarrow> if ret \<noteq> 0 then (ret, [], mnt_release_points pts s1) else (0, pts, s1)))"

record mnt_table =
  tab_points :: "mnt_point list"
  tab_types :: "mnt_fstype list option"

definition mnt_open_table :: "int + (int + mntent) list \<Rightarrow> int + stream \<Rightarrow> 'k mst \<Rightarrow> int \<times> mnt_table \<times> 'k mst" where
  "mnt_open_table mnttab types_file s = (case mnt_load_points mnttab s of
      (err, pts, s1) \<Rightarrow>
        if err \<noteq> 0 then (err, \<lparr>tab_points = pts, tab_types = None\<rparr>, s1)
        else case mnt_load_fstypes types_file s1 of
          (_, types, s2) \<Rightarrow> (0, \<lparr>tab_points = pts, tab_types = types\<rparr>, s2))"

definition mnt_close_table :: "mnt_table \<Rightarrow> 'k mst \<Rightarrow> 'k mst" where
  "mnt_close_table tab s = (case tab_types tab of
      None \<Rightarrow> s\<lparr>m_fault := True\<rparr>
    | Some types \<Rightarrow> mnt_release_points (tab_points tab) (mnt_release_fstypes types s))"

section \<open>Unmounting\<close>

text \<open>
  One mount point whose type is known: the error to remember, 0 when it was unmounted or at least made
  read-only.
\<close>

definition umount_point :: "'k mops \<Rightarrow> flags \<Rightarrow> mnt_point \<Rightarrow> mnt_fstype \<Rightarrow> 'k mst \<Rightarrow> int \<times> 'k mst" where
  "umount_point M fl pt t s =
     (let f = (fl AND ft_mask t) OR UMOUNT_NOFOLLOW
      in case mo_umount2 M (pt_dir pt) f (m_kern s) of
        (errno, k) \<Rightarrow>
          let s1 = m_call (Umount (pt_dir pt) f) k s
          in if errno = 0 then (0, s1)
             else let s2 = m_check (errno \<notin> {EAGAIN, EFAULT, EINVAL, ENAMETOOLONG, ENOENT, EPERM})
                             (s1\<lparr>m_errno := errno\<rparr>)
                  in if errno = EBUSY then mnt_remount M (pt_dir pt) MS_RDONLY None s2 else (- errno, s2))"

fun umount_loop :: "'k mops \<Rightarrow> flags \<Rightarrow> mnt_fstype list option \<Rightarrow> mnt_point list \<Rightarrow> int \<Rightarrow> 'k mst \<Rightarrow> int \<times> 'k mst" where
  "umount_loop M fl types [] ret s = (ret, s)"
| "umount_loop M fl types (pt # pts) ret s =
     (if pt_dir pt = ''/'' then umount_loop M fl types pts ret s
      else case types of
        None \<Rightarrow> (ret, s\<lparr>m_fault := True\<rparr>)
      | Some ts \<Rightarrow> (case mnt_find_fstype ts (pt_type pt) of
          None \<Rightarrow> (ret, s\<lparr>m_fault := True\<rparr>)
        | Some t \<Rightarrow>
            if ft_skip t then umount_loop M fl types pts ret s
            else case umount_point M fl pt t s of
              (err, s1) \<Rightarrow> umount_loop M fl types pts (if err \<noteq> 0 \<and> ret = 0 then err else ret) s1))"

text \<open>The result says whether all file systems are reported unmounted.\<close>

definition mnt_umount_all :: "'k mops \<Rightarrow> mconf \<Rightarrow> int + (int + mntent) list \<Rightarrow> int + stream \<Rightarrow> flags \<Rightarrow> 'k mst \<Rightarrow>
    bool \<times> 'k mst" where
  "mnt_umount_all M c mnttab types_file fl s =
     (case mnt_open_table mnttab types_file (m_check (fl AND NOT (MNT_FORCE OR MNT_DETACH) = 0) s) of
        (err, tab, s1) \<Rightarrow>
          if err \<noteq> 0 then (False, s1)
          else case umount_loop M fl (tab_types tab) (tab_points tab) 0 s1 of
            (ret, s2) \<Rightarrow>
              if m_fault s2 then (False, s2)
              else let s3 = mnt_close_table tab s2; s4 = snd (remount_root M c s3)
                   in (ret = 0, s4))"

section \<open>The mounts of the boot\<close>

lemma m_check_sel [simp]:
  "m_kern (m_check c s) = m_kern s" "m_calls (m_check c s) = m_calls s" "m_errno (m_check c s) = m_errno s"
  "m_mem (m_check c s) = m_mem s" "m_fault (m_check c s) = (m_fault s \<or> \<not> c)"
  by (simp_all add: m_check_def)

lemma m_call_sel [simp]:
  "m_kern (m_call c k s) = k" "m_calls (m_call c k s) = c # m_calls s" "m_errno (m_call c k s) = m_errno s"
  "m_mem (m_call c k s) = m_mem s" "m_fault (m_call c k s) = m_fault s"
  by (simp_all add: m_call_def)

lemma mnt_mount_calls: "m_calls (snd (mnt_mount M dev dir type fl opts s)) = Mount dev dir type fl opts # m_calls s"
  by (simp add: mnt_mount_def split: prod.split)

lemma mnt_remount_calls: "m_calls (snd (mnt_remount M dir fl opts s)) = Remount dir (MS_REMOUNT OR fl) opts # m_calls s"
  by (simp add: mnt_remount_def split: prod.split)

lemma mnt_chmod_calls: "m_calls (snd (mnt_chmod M path mode s)) = Chmod path mode # m_calls s"
  by (simp add: mnt_chmod_def split: prod.split)

text \<open>The directories and types mounted by a run of calls, newest first, and the calls the boot cannot do without.\<close>

definition mounted :: "mcall list \<Rightarrow> (string \<times> string) list" where
  "mounted cs = concat (map (\<lambda>c. case c of Mount _ d t _ _ \<Rightarrow> [(d, t)] | _ \<Rightarrow> []) (rev cs))"

definition required_call :: "mcall \<Rightarrow> bool" where
  "required_call c = (case c of Mount _ _ _ _ _ \<Rightarrow> True | Mkdir _ _ \<Rightarrow> True | Remount d _ _ \<Rightarrow> d = ''/'' | _ \<Rightarrow> False)"

text \<open>One step of the boot: what it mounts, and that it fails on a required call only.\<close>

definition mounting :: "(string \<times> string) list \<Rightarrow> int \<times> 'k mst \<Rightarrow> 'k mst \<Rightarrow> bool" where
  "mounting ms r s \<longleftrightarrow> (\<exists>cs. m_calls (snd r) = cs @ m_calls s \<and>
     (if fst r = 0 then mounted cs = ms
      else prefix (mounted cs) ms \<and> (\<exists>c cs'. cs = c # cs' \<and> required_call c)))"

lemma mounted_simps [simp]:
  "mounted [] = []"
  "mounted (c # cs) = mounted cs @ (case c of Mount _ d t _ _ \<Rightarrow> [(d, t)] | _ \<Rightarrow> [])"
  "mounted (cs @ cs') = mounted cs' @ mounted cs"
  by (simp_all add: mounted_def)

lemma mounting_pseudo: "mounting [(dir, type)] (mount_pseudo M dir type fl opts s) s"
  unfolding mounting_def mount_pseudo_def
  by (rule exI [of _ "[Mount type dir type fl opts]"]) (simp add: mnt_mount_calls required_call_def)

lemma mounting_root: "mounting [] (remount_root M c s) s"
  unfolding mounting_def remount_root_def
  by (rule exI [of _ "[Remount ''/'' (MS_REMOUNT OR (MS_RDONLY OR MS_NODIRATIME OR MS_NOATIME OR MS_NOSUID OR MS_NODEV)) (mc_root_opts c)]"])
     (simp add: mnt_remount_calls required_call_def)

lemma mounting_bind:
  assumes a: "mounting ms r s" and b: "\<And>s1. mounting ms' (f s1) s1"
  shows "mounting (ms @ ms') (case r of (err, s1) \<Rightarrow> if err \<noteq> 0 then (err, s1) else f s1) s"
proof (cases r)
  case (Pair err s1)
  from a obtain cs where 1: "m_calls s1 = cs @ m_calls s"
    "if err = 0 then mounted cs = ms else prefix (mounted cs) ms \<and> (\<exists>c cs'. cs = c # cs' \<and> required_call c)"
    by (auto simp: mounting_def Pair)
  show ?thesis
  proof (cases "err = 0")
    case False
    with 1 show ?thesis
      by (auto simp: mounting_def Pair intro!: exI [of _ cs])
  next
    case True
    from b [of s1] obtain cs2 where 2: "m_calls (snd (f s1)) = cs2 @ m_calls s1"
      "if fst (f s1) = 0 then mounted cs2 = ms'
       else prefix (mounted cs2) ms' \<and> (\<exists>c cs'. cs2 = c # cs' \<and> required_call c)"
      by (auto simp: mounting_def)
    with 1 True show ?thesis
      by (auto simp: mounting_def Pair intro!: exI [of _ "cs2 @ cs"])
  qed
qed

lemma mounting_quiet:
  "fst r = 0 \<Longrightarrow> m_calls (snd r) = cs @ m_calls s \<Longrightarrow> mounted cs = [] \<Longrightarrow> mounting [] r s"
  by (auto simp: mounting_def)

lemma mounting_after:
  assumes "mounting ms r (m_call c k s)" "mounted [c] = []"
  shows "mounting ms r s"
proof -
  from assms(1) obtain cs where 1: "m_calls (snd r) = cs @ c # m_calls s"
    "if fst r = 0 then mounted cs = ms else prefix (mounted cs) ms \<and> (\<exists>d cs'. cs = d # cs' \<and> required_call d)"
    by (auto simp: mounting_def)
  then show ?thesis
    using assms(2) unfolding mounting_def by (intro exI [of _ "cs @ [c]"]) (auto split: if_splits)
qed

lemma mounting_devfs: "mounting [(''/dev'', ''devtmpfs'')] (mount_devfs M c s) s"
proof -
  let ?s2 = "\<lambda>s1. snd (mnt_remount M ''/dev'' (TINIT_PSEUDO_MNT_BASE_FLAGS OR MS_NOATIME) (mc_dev_opts c) s1)"
  let ?s6 = "\<lambda>s1. snd (mnt_chmod M ''/dev/urandom'' 0x1A4 (snd (mnt_chmod M ''/dev/random'' 0x180
    (snd (mnt_chmod M ''/dev/ptmx'' 0x180 (snd (mnt_chmod M ''/dev/kmsg'' 0x180 (?s2 s1))))))))"
  have "mounting [] (0, ?s6 s1) s1" for s1
    by (rule mounting_quiet [where cs = "[Chmod ''/dev/urandom'' 0x1A4, Chmod ''/dev/random'' 0x180,
          Chmod ''/dev/ptmx'' 0x180, Chmod ''/dev/kmsg'' 0x180,
          Remount ''/dev'' (MS_REMOUNT OR (TINIT_PSEUDO_MNT_BASE_FLAGS OR MS_NOATIME)) (mc_dev_opts c)]"])
       (simp_all add: mnt_remount_calls mnt_chmod_calls)
  then show ?thesis
    unfolding mount_devfs_def Let_def
    using mounting_bind [OF mounting_pseudo [where dir = "''/dev''" and type = "''devtmpfs''" and M = M], where ms' = "[]"]
    by simp
qed

lemma mounting_chmod_mqueue:
  "mounting [] (case mnt_chmod M d mode s of
      (err, s3) \<Rightarrow>
        if err \<noteq> 0 then (0, s3)
        else case mo_gid_byname M g of
          Inl _ \<Rightarrow> (0, s3)
        | Inr gid \<Rightarrow> (case mo_chown M d 0 gid (m_kern s3) of (_, k) \<Rightarrow> (0, m_call (Chown d 0 gid) k s3))) s"
proof -
  obtain err s3 where 1: "mnt_chmod M d mode s = (err, s3)"
    by fastforce
  then have 2: "m_calls s3 = Chmod d mode # m_calls s"
    using mnt_chmod_calls [of M d mode s] by simp
  have quiet: "mounting [] (0, s3) s"
    by (rule mounting_quiet [where cs = "[Chmod d mode]"]) (simp_all add: 2)
  have "mounting [] (0, m_call (Chown d 0 gid) k s3) s" for gid k
    by (rule mounting_quiet [where cs = "[Chown d 0 gid, Chmod d mode]"]) (simp_all add: 2)
  with quiet show ?thesis
    by (simp add: 1 split: sum.split prod.split)
qed

lemma mounting_mqueue: "mounting [(''/dev/mqueue'', ''mqueue'')] (mount_mqueue M c s) s"
proof -
  obtain err k where 1: "mo_mkdir M ''/dev/mqueue'' 0x1C0 (m_kern s) = (err, k)"
    by fastforce
  show ?thesis
  proof (cases "err = 0")
    case False
    then show ?thesis
      by (auto simp: mount_mqueue_def 1 mounting_def required_call_def Let_def)
  next
    case True
    show ?thesis
      unfolding mount_mqueue_def 1 Let_def prod.case
      by (simp only: True simp_thms if_False, rule mounting_after,
          rule mounting_bind [OF mounting_pseudo mounting_chmod_mqueue, unfolded append_Nil2], simp)
  qed
qed


section \<open>Loading the types\<close>

text \<open>What the file of types describes: one type per line with two fields, in the order of the file.\<close>

definition fstype_of :: "string \<times> bool \<Rightarrow> mnt_fstype" where
  "fstype_of e = (case e of (name, nodev) \<Rightarrow>
     \<lparr>ft_skip = (nodev \<or> name = ''fuse''), ft_name = name,
      ft_mask = (if name \<in> {''nfs'', ''cifs'', ''9p'', ''ceph'', ''lustre''} then NOT MNT_FORCE else NOT 0)\<rparr>)"

definition fstypes_of :: "string list \<Rightarrow> mnt_fstype list" where
  "fstypes_of lines = map fstype_of (concat (map (\<lambda>ln. case fstype_line ln of None \<Rightarrow> [] | Some e \<Rightarrow> [e]) lines))"

text \<open>A file of types whose lines end with a newline and whose names fit.\<close>

definition fstypes_file_ok :: "string list \<Rightarrow> bool" where
  "fstypes_file_ok lines \<longleftrightarrow> (\<forall>ln \<in> set lines. ln \<noteq> [] \<and> last ln = LF \<and>
     (case fstype_line ln of None \<Rightarrow> True | Some (name, _) \<Rightarrow> length name < FSTYPE_MAX))"

definition mem_plus :: "int \<Rightarrow> mem \<Rightarrow> mem" where
  "mem_plus n m = m\<lparr>live := live m + n\<rparr>"

lemma mem_plus_simps [simp]:
  "oom (mem_plus n m) = oom m" "mem_plus a (mem_plus b m) = mem_plus (a + b) m" "mem_plus 0 m = m"
  "mem_free k m = mem_plus (- int k) m"
  by (simp_all add: mem_plus_def mem_free_def algebra_simps)

lemma mem_alloc_plenty [simp]: "oom m = [] \<Longrightarrow> mem_alloc m = (True, mem_plus 1 m)"
  by (simp add: mem_alloc_def mem_plus_def)

lemma fstype_line_name:
  assumes "fstype_line ln = Some (name, nodev)"
  shows "name \<noteq> []" "is_cstr name"
proof -
  have sub: "set (takeWhile P xs) \<subseteq> set xs" "set (dropWhile P xs) \<subseteq> set xs" for P and xs :: string
    by (auto dest: set_takeWhileD set_dropWhileD)
  obtain a r where 1: "strsep (cstr ln) = (a, Some r)"
    using assms by (auto simp: fstype_line_def split: prod.splits option.splits)
  then have "strsep r = (name, snd (strsep r))" "name \<noteq> []"
    using assms by (auto simp: fstype_line_def split: prod.splits option.splits if_splits)
  moreover from 1 have "set r \<subseteq> set (cstr ln)"
    using sub(2) [of "\<lambda>c. \<not> is_delim c" "cstr ln"] by (auto simp: strsep_def split: list.splits)
  ultimately show "name \<noteq> []" "is_cstr name"
    using is_cstr_cstr [of ln] sub(1) by (auto simp: is_cstr_def strsep_def)
qed

lemma mnt_create_fstype_ok:
  assumes "fstype_line ln = Some (name, nodev)" "length name < FSTYPE_MAX" "oom (m_mem s) = []"
  shows "mnt_create_fstype name nodev s = (Some (fstype_of (name, nodev)), s\<lparr>m_mem := mem_plus 1 (m_mem s)\<rparr>)"
  using fstype_line_name [OF assms(1)] assms(2,3)
  by (simp add: mnt_create_fstype_def cstr_simps fstype_of_def Let_def)

lemma fstypes_loop_ok:
  assumes "fstypes_file_ok lines" "oom (m_mem s) = []"
  shows "fstypes_loop (map Inr lines) False types s =
     (if m_errno s = EAGAIN then 0 else - m_errno s, types @ fstypes_of lines,
      m_check (m_errno s \<noteq> EINVAL) (s\<lparr>m_mem := mem_plus (int (length (fstypes_of lines))) (m_mem s)\<rparr>))"
  using assms
proof (induction lines arbitrary: types s)
  case Nil
  then show ?case
    by (simp add: fstypes_of_def)
next
  case (Cons ln lines)
  from Cons.prems have ok: "fstypes_file_ok lines" "ln \<noteq> []" "last ln = LF"
    by (auto simp: fstypes_file_ok_def)
  show ?case
  proof (cases "fstype_line ln")
    case None
    with ok Cons show ?thesis
      by (simp add: fstypes_of_def)
  next
    case (Some e)
    obtain name nodev where e: "e = (name, nodev)"
      by fastforce
    with Some Cons.prems have "length name < FSTYPE_MAX"
      by (auto simp: fstypes_file_ok_def)
    from mnt_create_fstype_ok [OF Some [unfolded e] this Cons.prems(2)] ok Some e Cons.prems(2) show ?thesis
      by (simp add: Cons.IH fstypes_of_def add.commute)
  qed
qed

lemma load_fstypes_errno_lemma:
  assumes "fstypes_file_ok lines" "oom (m_mem s) = []"
  shows "mnt_load_fstypes (Inr (map Inr lines)) s =
    (if m_errno s = EAGAIN \<or> m_errno s = 0
     then (0, Some (fstypes_of lines), s\<lparr>m_mem := (m_mem s)\<lparr>live := live (m_mem s) + int (length (fstypes_of lines))\<rparr>\<rparr>)
     else (- m_errno s, Some [], s\<lparr>m_fault := (m_fault s \<or> m_errno s = EINVAL)\<rparr>))"
proof -
  have [simp]: "m_check c (s\<lparr>m_mem := m\<rparr>) = (m_check c s)\<lparr>m_mem := m\<rparr>" for c m and s :: "'a mst"
    by (simp add: m_check_def)
  have "s\<lparr>m_fault := (m_fault s \<or> m_errno s = EINVAL)\<rparr> = m_check (m_errno s \<noteq> EINVAL) s"
    by (simp add: m_check_def)
  with assms show ?thesis
    by (auto simp: mnt_load_fstypes_def fstypes_loop_ok mnt_release_fstypes_def Let_def mem_plus_def)
qed

text \<open>
  C34. Loading the types of file systems from a readable, well-formed file keeps them, in the order of
  the file, when \<open>errno\<close> happens to be \<open>EAGAIN\<close> or 0 before the file is opened. With any other
  leftover value the loader takes the end of the file for an error: it returns that value negated,
  drops every type it read and gives the memory back, and asserts when the value is \<open>EINVAL\<close>.
\<close>

theorem load_fstypes_errno:
  assumes "fstypes_file_ok lines" "oom (m_mem s) = []"
  shows "mnt_load_fstypes (Inr (map Inr lines)) s =
    (if m_errno s = EAGAIN \<or> m_errno s = 0
     then (0, Some (fstypes_of lines), s\<lparr>m_mem := (m_mem s)\<lparr>live := live (m_mem s) + int (length (fstypes_of lines))\<rparr>\<rparr>)
     else (- m_errno s, Some [], s\<lparr>m_fault := (m_fault s \<or> m_errno s = EINVAL)\<rparr>))"
  by (rule load_fstypes_errno_lemma [OF assms])

section \<open>Unmounting everything\<close>

definition entry_fits :: "mntent \<Rightarrow> bool" where
  "entry_fits e \<longleftrightarrow> strnlen (mnt_fsname e) 4096 < 4096 \<and> strnlen (mnt_dir e) 4096 < 4096 \<and>
     strnlen (mnt_type e) FSTYPE_MAX < FSTYPE_MAX"

definition point_of :: "mntent \<Rightarrow> mnt_point" where
  "point_of e = \<lparr>pt_fsname = cstr (mnt_fsname e), pt_dir = cstr (mnt_dir e), pt_type = cstr (mnt_type e)\<rparr>"

text \<open>The unmount requests for a list of mount points, in the order of the list.\<close>

definition umounts :: "flags \<Rightarrow> mnt_fstype list \<Rightarrow> mnt_point list \<Rightarrow> mcall list" where
  "umounts fl ts pts = concat (map (\<lambda>pt. if pt_dir pt = ''/'' then [] else case mnt_find_fstype ts (pt_type pt) of
      None \<Rightarrow> []
    | Some t \<Rightarrow> if ft_skip t then [] else [Umount (pt_dir pt) ((fl AND ft_mask t) OR UMOUNT_NOFOLLOW)]) pts)"

definition is_umount :: "mcall \<Rightarrow> bool" where
  "is_umount c = (case c of Umount _ _ \<Rightarrow> True | _ \<Rightarrow> False)"

text \<open>The errors \<open>umount2\<close> and \<open>mount\<close> do not give to a process that may unmount, on paths that exist.\<close>

definition umount_errnos :: "'k mops \<Rightarrow> bool" where
  "umount_errnos M \<longleftrightarrow>
     (\<forall>d f k. fst (mo_umount2 M d f k) \<notin> {EAGAIN, EFAULT, EINVAL, ENAMETOOLONG, ENOENT, EPERM}) \<and>
     (\<forall>d f ops k. fst (mo_remount M d f ops k) \<notin> {EACCES, EFAULT, ENAMETOOLONG, ENOTBLK, ENXIO, EPERM})"

lemma take_strnlen: "strnlen s n < n \<Longrightarrow> take (strnlen s n) s = cstr s"
proof (induction s arbitrary: n)
  case Nil
  then show ?case by (simp add: cstr_def)
next
  case (Cons c s)
  then show ?case by (cases n) (auto simp: strnlen_def cstr_def)
qed

lemma mnt_create_point_ok:
  assumes "oom (m_mem s) = []"
  shows "mnt_create_point e s =
    (if entry_fits e then (Some (point_of e), s\<lparr>m_mem := mem_plus 1 (m_mem s)\<rparr>)
     else (None, s\<lparr>m_errno := ENAMETOOLONG\<rparr>))"
  using assms
  by (auto simp: mnt_create_point_def mnt_strcpy_def entry_fits_def point_of_def take_strnlen Let_def linorder_not_less)

lemma points_loop_ok:
  assumes "oom (m_mem s) = []"
  shows "points_loop (map Inr ents) pts s =
    (let new = map point_of (filter entry_fits ents)
     in (0, rev new @ pts, s\<lparr>m_errno := EAGAIN, m_mem := mem_plus (int (length new)) (m_mem s)\<rparr>))"
  using assms
proof (induction ents arbitrary: pts s)
  case Nil
  then show ?case by simp
next
  case (Cons e ents)
  then show ?case
    by (auto simp: mnt_create_point_ok Let_def add.commute)
qed

lemma mnt_remount_frame:
  assumes "umount_errnos M"
  shows "m_fault (snd (mnt_remount M d f ops s)) = m_fault s" "m_mem (snd (mnt_remount M d f ops s)) = m_mem s"
    "filter is_umount (m_calls (snd (mnt_remount M d f ops s))) = filter is_umount (m_calls s)"
proof -
  obtain err k where 1: "mo_remount M d (MS_REMOUNT OR f) ops (m_kern s) = (err, k)"
    by fastforce
  with assms have "err \<notin> {EACCES, EFAULT, ENAMETOOLONG, ENOTBLK, ENXIO, EPERM}"
    by (metis fst_conv umount_errnos_def)
  with 1 show "m_fault (snd (mnt_remount M d f ops s)) = m_fault s" "m_mem (snd (mnt_remount M d f ops s)) = m_mem s"
    "filter is_umount (m_calls (snd (mnt_remount M d f ops s))) = filter is_umount (m_calls s)"
    by (simp_all add: mnt_remount_def is_umount_def)
qed

lemma umount_point_frame:
  assumes "umount_errnos M"
  shows "m_fault (snd (umount_point M fl pt t s)) = m_fault s" (is ?A)
    "m_mem (snd (umount_point M fl pt t s)) = m_mem s" (is ?B)
    "filter is_umount (m_calls (snd (umount_point M fl pt t s))) =
       Umount (pt_dir pt) ((fl AND ft_mask t) OR UMOUNT_NOFOLLOW) # filter is_umount (m_calls s)" (is ?C)
    "(\<forall>d f k. fst (mo_umount2 M d f k) = 0) \<Longrightarrow> fst (umount_point M fl pt t s) = 0"
proof -
  obtain err k where 1: "mo_umount2 M (pt_dir pt) ((fl AND ft_mask t) OR UMOUNT_NOFOLLOW) (m_kern s) = (err, k)"
    by fastforce
  with assms have "err \<notin> {EAGAIN, EFAULT, EINVAL, ENAMETOOLONG, ENOENT, EPERM}"
    by (metis fst_conv umount_errnos_def)
  with 1 mnt_remount_frame [OF assms] show ?A ?B ?C
    by (simp_all add: umount_point_def Let_def is_umount_def)
  show "(\<forall>d f k. fst (mo_umount2 M d f k) = 0) \<Longrightarrow> fst (umount_point M fl pt t s) = 0"
  proof -
    assume "\<forall>d f k. fst (mo_umount2 M d f k) = 0"
    with 1 have "err = 0"
      by (metis fst_conv)
    with 1 show ?thesis
      by (simp add: umount_point_def Let_def)
  qed
qed

lemma umount_loop_ok:
  assumes "umount_errnos M" "\<forall>pt \<in> set pts. pt_dir pt = ''/'' \<or> mnt_find_fstype ts (pt_type pt) \<noteq> None"
    "umount_loop M fl (Some ts) pts ret s = (ret', s')"
  shows "m_fault s' = m_fault s \<and> m_mem s' = m_mem s \<and>
    filter is_umount (m_calls s') = rev (umounts fl ts pts) @ filter is_umount (m_calls s) \<and>
    ((\<forall>d f k. fst (mo_umount2 M d f k) = 0) \<longrightarrow> ret' = ret)"
  using assms(2,3)
proof (induction pts arbitrary: ret s)
  case Nil
  then show ?case by (simp add: umounts_def)
next
  case (Cons pt pts)
  have step: "umounts fl ts (pt # pts) = umounts fl ts [pt] @ umounts fl ts pts"
    by (simp add: umounts_def)
  show ?case
  proof (cases "pt_dir pt = ''/''")
    case True
    with Cons.prems Cons.IH [of ret s] show ?thesis
      by (simp add: umounts_def)
  next
    case False
    with Cons.prems obtain t where t: "mnt_find_fstype ts (pt_type pt) = Some t"
      by auto
    show ?thesis
    proof (cases "ft_skip t")
      case True
      with Cons.prems Cons.IH [of ret s] t False show ?thesis
        by (simp add: umounts_def)
    next
      case skip: False
      obtain err s1 where u: "umount_point M fl pt t s = (err, s1)"
        by fastforce
      from Cons.prems(2) False t skip u
      have "umount_loop M fl (Some ts) pts (if err \<noteq> 0 \<and> ret = 0 then err else ret) s1 = (ret', s')"
        by simp
      note ih = Cons.IH [OF _ this]
      from False t skip have "umounts fl ts [pt] = [Umount (pt_dir pt) ((fl AND ft_mask t) OR UMOUNT_NOFOLLOW)]"
        by (simp add: umounts_def)
      with step ih Cons.prems(1) umount_point_frame [OF assms(1), of fl pt t s] u show ?thesis
        by simp
    qed
  qed
qed


text \<open>A kernel that accepts every request.\<close>

definition demo_mops :: "unit mops" where
  "demo_mops = \<lparr>mo_mount = \<lambda>dev d t f opts k. (0, k), mo_remount = \<lambda>d f opts k. (0, k), mo_mkdir = \<lambda>d m k. (0, k),
     mo_chmod = \<lambda>d m k. (0, k), mo_chown = \<lambda>d u g k. (0, k), mo_gid_byname = \<lambda>n. Inr 0,
     mo_umount2 = \<lambda>d f k. (0, k)\<rparr>"

definition demo_mst :: "unit mst" where
  "demo_mst = \<lparr>m_kern = (), m_calls = [], m_errno = ENOENT, m_mem = \<lparr>oom = [], live = 0, bad_free = False\<rparr>, m_fault = False\<rparr>"

definition demo_types :: "string list" where
  "demo_types = [''nodev'' @ [TAB] @ ''proc'' @ [LF], [TAB] @ ''ext4'' @ [LF], [TAB] @ ''nfs'' @ [LF]]"

definition demo_mnttab :: "mntent list" where
  "demo_mnttab = [\<lparr>mnt_fsname = ''root'', mnt_dir = ''/'', mnt_type = ''ext4''\<rparr>,
     \<lparr>mnt_fsname = ''proc'', mnt_dir = ''/proc'', mnt_type = ''proc''\<rparr>,
     \<lparr>mnt_fsname = ''/dev/sdb'', mnt_dir = ''/srv'', mnt_type = ''ext4''\<rparr>,
     \<lparr>mnt_fsname = ''h:/d'', mnt_dir = ''/srv/d'', mnt_type = ''nfs''\<rparr>]"

lemma demo_types_ok:
  "fstypes_file_ok demo_types"
  "fstypes_of demo_types = [\<lparr>ft_skip = True, ft_name = ''proc'', ft_mask = NOT 0\<rparr>,
     \<lparr>ft_skip = False, ft_name = ''ext4'', ft_mask = NOT 0\<rparr>, \<lparr>ft_skip = False, ft_name = ''nfs'', ft_mask = NOT 1\<rparr>]"
  by (simp_all add: fstypes_file_ok_def fstypes_of_def fstype_of_def demo_types_def fstype_line_def strsep_def
      is_delim_def cstr_def)

lemma demo_mnttab_ok: "filter entry_fits demo_mnttab = demo_mnttab"
  by (simp add: demo_mnttab_def entry_fits_def strnlen_def cstr_def)

theorem load_fstypes_errno_witness:
  "fst (mnt_load_fstypes (Inr (map Inr demo_types)) demo_mst) = - ENOENT"
  using load_fstypes_errno [OF demo_types_ok(1), of demo_mst] by (simp add: demo_mst_def)


end
