(* ===== verification/Log.thy ===== *)
theory Log imports Prelude "HOL-Library.Word" begin

unbundle bit_operations_syntax

text \<open>
  The loggers of the daemon (\<open>log.c\<close>): a standard one from the start, and a multiple one that adds a
  message queue once the file systems are mounted. The elog and utils packages are the record \<open>lops\<close> of
  operations over a state of their own; an elog object is only known by its life: created, destroyed.
\<close>

datatype sublog = Sub_stdlog | Sub_mqlog
datatype logger = Log_stdlog | Log_toplog

text \<open>The pointer \<open>tinit_mqlog\<close>: null, to a live logger, or to one that was destroyed.\<close>

datatype mqlog = Mq_null | Mq_live | Mq_dangling

record 'l lops =
  lo_stdio_severity :: "string \<Rightarrow> int + int"           \<comment> \<open>\<open>elog_parse_stdio_severity\<close>: error or severity\<close>
  lo_mqueue_severity :: "string \<Rightarrow> int + int"
  lo_register :: "sublog \<Rightarrow> 'l \<Rightarrow> int \<times> 'l"              \<comment> \<open>\<open>elog_register_multi_sublog\<close>\<close>
  lo_gid_byname :: "string \<Rightarrow> int + nat"
  lo_mq_new :: "32 word \<Rightarrow> 'l \<Rightarrow> (int + int) \<times> 'l"    \<comment> \<open>\<open>umq_new\<close> under a \<open>umask\<close>: negative error or descriptor\<close>
  lo_fchown :: "int \<Rightarrow> nat \<Rightarrow> nat \<Rightarrow> 'l \<Rightarrow> int \<times> 'l"
  lo_create_mqueue :: "int \<Rightarrow> int \<Rightarrow> 'l \<Rightarrow> int \<times> 'l"     \<comment> \<open>\<open>elog_create_mqueue_bymqd\<close> on a severity: 0 or errno\<close>

record 'l logs =
  lg_ext :: 'l
  lg_logger :: "logger option"
  lg_mqlog :: mqlog
  lg_std_severity :: int
  lg_mq_severity :: int
  lg_subs :: "sublog list"          \<comment> \<open>registered with \<open>tinit_toplog\<close>\<close>
  lg_mqds :: "int list"             \<comment> \<open>message queue descriptors left open\<close>
  lg_fault :: bool

abbreviation (input) CONFIG_TINIT_MQLOG_MODE :: "32 word" where "CONFIG_TINIT_MQLOG_MODE \<equiv> 0xA0"

definition log_check :: "bool \<Rightarrow> 'l logs \<Rightarrow> 'l logs" where
  "log_check ok g = (if ok then g else g\<lparr>lg_fault := True\<rparr>)"

text \<open>\<open>parse\<close> is \<open>ustr_parse\<close>: the length of a string shorter than the limit, or a negative error.\<close>

definition tinit_parse_stdlog_arg :: "'l lops \<Rightarrow> (string \<Rightarrow> nat \<Rightarrow> int) \<Rightarrow> string \<Rightarrow> nat \<Rightarrow> 'l logs \<Rightarrow> 'l logs" where
  "tinit_parse_stdlog_arg L parse arg len g =
     (let g1 = log_check (parse arg 256 = int len) g
      in case lo_stdio_severity L arg of Inl _ \<Rightarrow> g1 | Inr sev \<Rightarrow> g1\<lparr>lg_std_severity := sev\<rparr>)"

definition tinit_parse_mqlog_arg :: "'l lops \<Rightarrow> (string \<Rightarrow> nat \<Rightarrow> int) \<Rightarrow> string \<Rightarrow> nat \<Rightarrow> 'l logs \<Rightarrow> 'l logs" where
  "tinit_parse_mqlog_arg L parse arg len g =
     (let g1 = log_check (parse arg 256 = int len) g
      in case lo_mqueue_severity L arg of Inl _ \<Rightarrow> g1 | Inr sev \<Rightarrow> g1\<lparr>lg_mq_severity := sev\<rparr>)"

definition tinit_preinit_logs :: "'l logs \<Rightarrow> 'l logs" where
  "tinit_preinit_logs g = g\<lparr>lg_logger := Some Log_stdlog, lg_subs := []\<rparr>"

text \<open>Whether the logger was created; \<open>errno\<close>, which only the message shows, is left out. The mask is applied
  around the creation of the queue only.\<close>

definition tinit_create_mqueue :: "'l lops \<Rightarrow> 'l logs \<Rightarrow> bool \<times> 'l logs" where
  "tinit_create_mqueue L g =
     (let gid = (case lo_gid_byname L ''elogd'' of Inl _ \<Rightarrow> 0 | Inr gid \<Rightarrow> gid)
      in case lo_mq_new L (NOT CONFIG_TINIT_MQLOG_MODE) (lg_ext g) of
        (Inl err, l) \<Rightarrow> (False, g\<lparr>lg_ext := l\<rparr>)
      | (Inr mqd, l) \<Rightarrow> (case lo_fchown L mqd 0 gid l of (err, l1) \<Rightarrow>
          if err \<noteq> 0 then (False, g\<lparr>lg_ext := l1\<rparr>)
          else case lo_create_mqueue L mqd (lg_mq_severity g) l1 of (err, l2) \<Rightarrow>
            if err \<noteq> 0 then (False, g\<lparr>lg_ext := l2\<rparr>)
            else (True, g\<lparr>lg_ext := l2, lg_mqds := mqd # lg_mqds g\<rparr>)))"

text \<open>\<open>elog_destroy\<close> on \<open>tinit_mqlog\<close>; the pointer is left as it is, and a second time is a use after free.\<close>

definition destroy_mqlog :: "'l logs \<Rightarrow> 'l logs" where
  "destroy_mqlog g = (log_check (lg_mqlog g = Mq_live) g)\<lparr>lg_mqlog := Mq_dangling, lg_mqds := tl (lg_mqds g)\<rparr>"

definition tinit_postinit_logs :: "'l lops \<Rightarrow> 'l logs \<Rightarrow> 'l logs" where
  "tinit_postinit_logs L g =
     (let g0 = log_check (lg_logger g \<noteq> None) g
      in case lo_register L Sub_stdlog (lg_ext g0) of (err, l) \<Rightarrow>
        if err \<noteq> 0 then g0\<lparr>lg_ext := l\<rparr>
        else case tinit_create_mqueue L (g0\<lparr>lg_ext := l, lg_subs := [Sub_stdlog]\<rparr>) of (ok, g1) \<Rightarrow>
          if \<not> ok then g1\<lparr>lg_mqlog := Mq_null\<rparr>
          else case lo_register L Sub_mqlog (lg_ext g1) of (err, l2) \<Rightarrow>
            let g2 = g1\<lparr>lg_ext := l2, lg_mqlog := Mq_live\<rparr>
            in if err \<noteq> 0 then destroy_mqlog g2
               else g2\<lparr>lg_subs := [Sub_stdlog, Sub_mqlog], lg_logger := Some Log_toplog\<rparr>)"

definition tinit_prefini_logs :: "'l logs \<Rightarrow> 'l logs" where
  "tinit_prefini_logs g =
     (let g1 = (log_check (lg_logger g \<noteq> None) g)\<lparr>lg_logger := Some Log_stdlog\<rparr>
      in if lg_mqlog g1 \<noteq> Mq_null then destroy_mqlog g1 else g1)"

text \<open>\<open>debug\<close> is \<open>CONFIG_TINIT_DEBUG\<close>.\<close>

definition tinit_postfini_logs :: "bool \<Rightarrow> 'l logs \<Rightarrow> 'l logs" where
  "tinit_postfini_logs debug g = (let g1 = g\<lparr>lg_subs := []\<rparr> in if debug then g1\<lparr>lg_logger := None\<rparr> else g1)"

section \<open>The life of the message queue logger\<close>

lemma log_check_sel [simp]:
  "lg_ext (log_check ok g) = lg_ext g" "lg_logger (log_check ok g) = lg_logger g" "lg_mqlog (log_check ok g) = lg_mqlog g"
  "lg_mqds (log_check ok g) = lg_mqds g" "lg_fault (log_check ok g) = (lg_fault g \<or> \<not> ok)"
  "lg_mq_severity (log_check ok g) = lg_mq_severity g"
  by (simp_all add: log_check_def)

lemma create_mqueue_frame:
  "tinit_create_mqueue L g = (r, g') \<Longrightarrow> lg_fault g' = lg_fault g \<and> lg_logger g' = lg_logger g \<and> lg_mqlog g' = lg_mqlog g \<and>
     (if r then \<exists>mqd. lg_mqds g' = mqd # lg_mqds g else lg_mqds g' = lg_mqds g)"
  by (auto simp: tinit_create_mqueue_def Let_def split: sum.split_asm prod.split_asm if_split_asm)

text \<open>Whether the message queue logger was created but refused by the multiple logger.\<close>

definition mqlog_refused :: "'l lops \<Rightarrow> 'l logs \<Rightarrow> bool" where
  "mqlog_refused L g = (case lo_register L Sub_stdlog (lg_ext g) of (err, l) \<Rightarrow> err = 0 \<and>
     (case tinit_create_mqueue L (g\<lparr>lg_ext := l, lg_subs := [Sub_stdlog]\<rparr>) of (ok, g1) \<Rightarrow>
        ok \<and> fst (lo_register L Sub_mqlog (lg_ext g1)) \<noteq> 0))"

lemma log_check_True [simp]: "log_check True g = g"
  by (simp add: log_check_def)

text \<open>
  C33. The logs come down as they went up except in one case. From a fresh start, setting the loggers up
  after the mounts and taking them down at shutdown leaves the standard logger in use, no descriptor
  open and no use after free, whatever fails; but when the message queue logger was created and its
  registration is refused, it is destroyed at once and \<open>tinit_mqlog\<close> still points to it, so that the
  shutdown destroys it a second time.
\<close>

theorem logs_lifecycle:
  assumes "lg_mqlog g = Mq_null" "\<not> lg_fault g"
    and "g' = tinit_prefini_logs (tinit_postinit_logs L (tinit_preinit_logs g))"
  shows "(lg_fault g' \<longleftrightarrow> mqlog_refused L (tinit_preinit_logs g)) \<and> lg_logger g' = Some Log_stdlog \<and>
    (\<not> mqlog_refused L (tinit_preinit_logs g) \<longrightarrow> lg_mqds g' = lg_mqds g)"
proof -
  let ?g0 = "tinit_preinit_logs g"
  have g0: "lg_logger ?g0 = Some Log_stdlog" "lg_mqlog ?g0 = Mq_null" "\<not> lg_fault ?g0" "lg_mqds ?g0 = lg_mqds g"
    using assms by (simp_all add: tinit_preinit_logs_def)
  obtain err l where 1: "lo_register L Sub_stdlog (lg_ext ?g0) = (err, l)"
    by fastforce
  obtain ok g1 where 2: "tinit_create_mqueue L (?g0\<lparr>lg_ext := l, lg_subs := [Sub_stdlog]\<rparr>) = (ok, g1)"
    by fastforce
  obtain err2 l2 where 3: "lo_register L Sub_mqlog (lg_ext g1) = (err2, l2)"
    by fastforce
  note f = create_mqueue_frame [OF 2]
  have post: "tinit_postinit_logs L ?g0 =
      (if err \<noteq> 0 then ?g0\<lparr>lg_ext := l\<rparr>
       else if \<not> ok then g1\<lparr>lg_mqlog := Mq_null\<rparr>
       else if err2 \<noteq> 0 then destroy_mqlog (g1\<lparr>lg_ext := l2, lg_mqlog := Mq_live\<rparr>)
       else g1\<lparr>lg_ext := l2, lg_mqlog := Mq_live, lg_subs := [Sub_stdlog, Sub_mqlog], lg_logger := Some Log_toplog\<rparr>)"
    by (simp add: tinit_postinit_logs_def g0 1 2 3)
  have "mqlog_refused L ?g0 \<longleftrightarrow> err = 0 \<and> ok \<and> err2 \<noteq> 0"
    by (auto simp: mqlog_refused_def 1 2 3)
  moreover have "ok \<Longrightarrow> tl (lg_mqds g1) = lg_mqds g" "\<not> ok \<Longrightarrow> lg_mqds g1 = lg_mqds g"
    using f g0 by auto
  ultimately show ?thesis
    unfolding assms(3) post using f g0 by (auto simp: tinit_prefini_logs_def destroy_mqlog_def Let_def)
qed

text \<open>A machine where everything succeeds, and one whose second registration fails.\<close>

definition demo_lops :: "bool \<Rightarrow> unit lops" where
  "demo_lops full = \<lparr>lo_stdio_severity = \<lambda>a. Inl (- EINVAL), lo_mqueue_severity = \<lambda>a. Inl (- EINVAL),
     lo_register = \<lambda>sub l. (if full \<and> sub = Sub_mqlog then - ENOMEM else 0, l), lo_gid_byname = \<lambda>n. Inr 4,
     lo_mq_new = \<lambda>msk l. (Inr 5, l), lo_fchown = \<lambda>fd u gr l. (0, l), lo_create_mqueue = \<lambda>fd sev l. (0, l)\<rparr>"

definition demo_logs :: "unit logs" where
  "demo_logs = \<lparr>lg_ext = (), lg_logger = None, lg_mqlog = Mq_null, lg_std_severity = 4, lg_mq_severity = 5, lg_subs = [],
     lg_mqds = [], lg_fault = False\<rparr>"

theorem logs_lifecycle_witness:
  "lg_fault (tinit_prefini_logs (tinit_postinit_logs (demo_lops True) (tinit_preinit_logs demo_logs))) \<and>
   \<not> lg_fault (tinit_prefini_logs (tinit_postinit_logs (demo_lops False) (tinit_preinit_logs demo_logs)))"
proof -
  have "mqlog_refused (demo_lops full) (tinit_preinit_logs demo_logs) = full" for full
    by (simp add: mqlog_refused_def demo_lops_def tinit_create_mqueue_def)
  then show ?thesis
    using logs_lifecycle [of demo_logs _ "demo_lops True", OF _ _ refl]
      logs_lifecycle [of demo_logs _ "demo_lops False", OF _ _ refl]
    by (simp add: demo_logs_def)
qed

end
