(* ===== verification/Init.thy ===== *)
theory Init imports System Repo_Load Mnt Log begin

text \<open>
  The program \<open>init\<close> (\<open>init.c\<close>): the kernel's arguments, the set-up of signals, standard descriptors
  and environment, the service loop, the shutdown and \<open>main\<close>. What is outside the sources is the record
  \<open>boot\<close>; the result of \<open>main\<close> is how the machine ends.
\<close>

section \<open>Arguments of the kernel\<close>

record 'l cmdln =
  cl_target :: string      \<comment> \<open>\<open>tinit_boot_target\<close>\<close>
  cl_logs :: "'l logs"
  cl_fault :: bool

text \<open>\<open>ustr_match_token\<close> and \<open>ustr_parse\<close>.\<close>

record ustr =
  us_match_token :: "string \<Rightarrow> nat \<Rightarrow> string \<Rightarrow> nat \<Rightarrow> bool"
  us_parse :: "string \<Rightarrow> nat \<Rightarrow> int"

definition tinit_parse_target_arg :: "ustr \<Rightarrow> string \<Rightarrow> nat \<Rightarrow> 'l cmdln \<Rightarrow> 'l cmdln" where
  "tinit_parse_target_arg S arg len s =
     (let s1 = (if len \<noteq> 0 \<and> us_parse S arg TINIT_ARG_MAX = int len then s else s\<lparr>cl_fault := True\<rparr>)
      in if tinit_check_svc_name arg len \<noteq> 0 then s1 else s1\<lparr>cl_target := arg\<rparr>)"

datatype cmdln_parser = Parse_stdlog | Parse_mqlog | Parse_target

definition tinit_cmdln_parsers :: "(string \<times> cmdln_parser) list" where
  "tinit_cmdln_parsers = [(''stdlog'', Parse_stdlog), (''mqlog'', Parse_mqlog), (''target'', Parse_target)]"

definition run_parser :: "'l lops \<Rightarrow> ustr \<Rightarrow> cmdln_parser \<Rightarrow> string \<Rightarrow> nat \<Rightarrow> 'l cmdln \<Rightarrow> 'l cmdln" where
  "run_parser L S p val len s = (case p of
      Parse_stdlog \<Rightarrow> s\<lparr>cl_logs := tinit_parse_stdlog_arg L (us_parse S) val len (cl_logs s)\<rparr>
    | Parse_mqlog \<Rightarrow> s\<lparr>cl_logs := tinit_parse_mqlog_arg L (us_parse S) val len (cl_logs s)\<rparr>
    | Parse_target \<Rightarrow> tinit_parse_target_arg S val len s)"

definition tinit_parse_arg :: "'l lops \<Rightarrow> ustr \<Rightarrow> string \<Rightarrow> 'l cmdln \<Rightarrow> 'l cmdln" where
  "tinit_parse_arg L S arg s =
     (let len = strnlen arg TINIT_ARG_MAX;
          s1 = (if len = 0 then s\<lparr>cl_fault := True\<rparr> else s)
      in if len \<ge> TINIT_ARG_MAX then s1
         else if CHR ''='' \<notin> set (take len arg) then s1
         else let alen = length (takeWhile (\<lambda>c. c \<noteq> CHR ''='') (take len arg))
              in if alen = 0 \<or> alen \<ge> len then s1
                 else case List.find (\<lambda>(kword, p). us_match_token S arg alen kword (length kword)) tinit_cmdln_parsers of
                   Some (_, p) \<Rightarrow> run_parser L S p (cstr (drop (alen + 1) arg)) (len - (alen + 1)) s1
                 | None \<Rightarrow> s1)"

definition tinit_parse_cmdln :: "'l lops \<Rightarrow> ustr \<Rightarrow> string list \<Rightarrow> 'l cmdln \<Rightarrow> 'l cmdln" where
  "tinit_parse_cmdln L S argv s = fold (tinit_parse_arg L S) (drop 1 argv) s"

section \<open>Signals, environment, standard descriptors\<close>

text \<open>The signals blocked from then on; \<open>SIGCHLD\<close> gets its default handler with \<open>SA_NOCLDSTOP\<close>.\<close>

record sigsetup =
  sg_blocked :: "int list"
  sg_nocldstop :: bool

definition init_signals :: sigsetup where
  "init_signals = \<lparr>sg_blocked = filter (\<lambda>s. s \<notin> {4, 6, 8, 11, 7}) sig_full_msk, sg_nocldstop = True\<rparr>"

text \<open>\<open>clearenv_err\<close> is the errno \<open>clearenv\<close> fails with, 0 if it does not.\<close>

definition init_environ :: "int \<Rightarrow> string \<Rightarrow> string \<Rightarrow> int \<times> string list option" where
  "init_environ clearenv_err path term =
     (if clearenv_err \<noteq> 0 then (- clearenv_err, None) else (0, Some [''HOME=/'', ''PATH='' @ path, ''TERM='' @ term]))"

abbreviation (input) S_IRWXUGO :: flags where "S_IRWXUGO \<equiv> 0x1FF"

definition init_stdios :: "'k kops \<Rightarrow> string \<Rightarrow> 'k process \<Rightarrow> int \<times> 'k process" where
  "init_stdios K ctermid p =
     (case sys_open_stdio K ''/dev/null'' (O_RDONLY OR O_NOATIME OR O_NOCTTY OR O_NOFOLLOW OR O_NONBLOCK) p of
        (null_fd, p1) \<Rightarrow> if null_fd < 0 then (null_fd, p1) else
      case sys_fstat K null_fd p1 of
        (Inl err, p2) \<Rightarrow> (err, p2)
      | (Inr st, p2) \<Rightarrow>
          if \<not> S_ISCHR (st_mode st) \<or> st_mode st AND S_IRWXUGO \<noteq> 0x1B6 \<or> st_uid st \<noteq> 0 \<or> st_gid st \<noteq> 0
          then (- EPERM, p2) else
      case sys_open_stdio K ''/dev/console''
             (O_WRONLY OR O_APPEND OR O_NOATIME OR O_NOCTTY OR O_NOFOLLOW OR O_NONBLOCK) p2 of
        (cons_fd, p3) \<Rightarrow> if cons_fd < 0 then (cons_fd, p3) else
      case sys_fstat K cons_fd p3 of
        (Inl err, p4) \<Rightarrow> (err, p4)
      | (Inr st, p4) \<Rightarrow>
          if \<not> S_ISCHR (st_mode st) \<or> st_mode st AND S_IRWXUGO \<noteq> 0x180 \<or> st_uid st \<noteq> 0 \<or> st_gid st \<noteq> 0
          then (- EPERM, p4) else
      case sys_dup2 K null_fd STDIN_FILENO p4 of (err, p5) \<Rightarrow> if err \<noteq> 0 then (err, p5) else
      case sys_dup2 K cons_fd STDOUT_FILENO p5 of (err, p6) \<Rightarrow> if err \<noteq> 0 then (err, p6) else
      case sys_dup2 K cons_fd STDERR_FILENO p6 of (err, p7) \<Rightarrow> if err \<noteq> 0 then (err, p7) else
      (let (opened, k) = ko_open K ctermid (O_RDONLY OR O_NONBLOCK) (p_kern p7);
           p8 = p_call (Sys_open ctermid (O_RDONLY OR O_NONBLOCK)) k p7;
           p9 = (case opened of
               Inr fd \<Rightarrow> p_call (Sys_drop_tty fd) (ko_drop_tty K fd (p_kern p8)) p8
             | Inl _ \<Rightarrow> p8)
       in (0, p_call (Sys_close_from 4) (ko_close_from K 4 (p_kern p9)) p9)))"

section \<open>The machine\<close>

abbreviation (input) RB_AUTOBOOT :: int where "RB_AUTOBOOT \<equiv> 0x01234567"
abbreviation (input) RB_POWER_OFF :: int where "RB_POWER_OFF \<equiv> 0x4321FEDC"

text \<open>\<open>0xcdef0123\<close> does not fit an \<open>int\<close>: assigned to one it is negative.\<close>

definition RB_HALT_SYSTEM :: int where
  "RB_HALT_SYSTEM = sint (0xCDEF0123 :: 32 word)"

record ('p, 'm, 'l, 'k, 'q, 'u, 's) boot =
  b_pid :: int                                   \<comment> \<open>\<open>getpid\<close>\<close>
  b_chdir :: int
  b_kops :: "'p kops"
  b_ctermid :: string
  b_clearenv :: int
  b_environ_path :: string
  b_environ_term :: string
  b_mops :: "'m mops"
  b_mconf :: mconf
  b_lops :: "'l lops"
  b_ustr :: ustr
  b_cfg :: "'s libcfg"
  b_read :: "string \<Rightarrow> 's cfg_read"
  b_junk :: "string \<Rightarrow> int"
  b_debug :: bool                                \<comment> \<open>\<open>CONFIG_TINIT_DEBUG\<close>\<close>
  b_env :: "'k env"
  b_buffq :: "'q buffq"
  b_unsk :: "'u unsk"
  b_sock_path :: string
  b_block :: bytes                               \<comment> \<open>the memory \<open>malloc\<close> gives the server\<close>
  b_sock :: 'u
  b_upoll_open :: int
  b_signalfd :: "int + int"
  b_register :: int                              \<comment> \<open>\<open>upoll_register\<close> of the signal channel\<close>
  b_chan :: sigchan                              \<comment> \<open>the uninitialised \<open>sigs\<close>\<close>
  b_poll :: "('k, 'q, 'u) daemon \<Rightarrow> (int \<times> ('k, 'q, 'u) daemon) option"
  b_waits :: "(int + siginfo) list"              \<comment> \<open>\<open>waitid\<close> after everything was killed\<close>
  b_mnttab :: "int + (int + mntent) list"
  b_fstypes :: "int + stream"
  b_vfork :: bool                                \<comment> \<open>whether the last \<open>vfork\<close> gives a child\<close>

datatype step = Step_clear | Step_killall nat | Step_umount bool | Step_reboot int

record ('p, 'm, 'l, 'k, 'q, 'u) machine =
  mc_proc :: "'p process"
  mc_mnt :: "'m mst"
  mc_cmdln :: "'l cmdln"
  mc_environ :: "string list option"
  mc_daemon :: "('k, 'q, 'u) daemon"
  mc_steps :: "step list"        \<comment> \<open>newest first\<close>

section \<open>The service loop\<close>

text \<open>
  \<open>tinit_sigchan_close\<close> and \<open>upoll_close\<close> only give descriptors back. A server that could not be opened is
  closed all the same, on an uninitialised structure.
\<close>

definition close_server :: "'u unsk \<Rightarrow> ('k, 'q, 'u) daemon \<Rightarrow> ('k, 'q, 'u) daemon" where
  "close_server U s = (case dm_srv s of
      None \<Rightarrow> s\<lparr>dm_world := fault (dm_world s)\<rparr>
    | Some sv \<Rightarrow> s\<lparr>dm_srv := None, dm_mem := snd (tinit_srv_close U sv (dm_mem s))\<rparr>)"

text \<open>What a signal asks of the machine; \<open>None\<close> is the default case, whose assertion fails.\<close>

definition howto_of_signal :: "int \<Rightarrow> int option" where
  "howto_of_signal signo =
     (if signo = SIGTERM then Some RB_AUTOBOOT
      else if signo = SIGUSR1 then Some RB_HALT_SYSTEM
      else if signo = SIGUSR2 \<or> signo = SIGPWR then Some RB_POWER_OFF
      else None)"

definition tinit_loop :: "('p, 'm, 'l, 'k, 'q, 'u, 's) boot \<Rightarrow> string \<Rightarrow> ('k, 'q, 'u) daemon \<Rightarrow>
    (int \<times> ('k, 'q, 'u) daemon) option" where
  "tinit_loop B target s =
     (if b_upoll_open B \<noteq> 0 then Some (b_upoll_open B, s)
      else case tinit_sigchan_open (b_signalfd B) (b_chan B) of (ret, c) \<Rightarrow>
        if ret \<noteq> 0 then Some (ret, s)
        else case tinit_target_start (e_ext (b_env B)) (e_fs (b_env B)) (e_incl (b_env B)) (e_sysconf (b_env B)) target
               (b_register B) c (dm_world s) (dm_mem s) of (ret, c1, w1, m1) \<Rightarrow>
          if ret \<noteq> 0 then Some (ret, s\<lparr>dm_chan := c1, dm_world := w1, dm_mem := m1\<rparr>)
          else case tinit_srv_open (b_buffq B) (b_unsk B) (b_block B) (b_sock_path B) (b_sock B) m1 of (srv, _, m2) \<Rightarrow>
            let sv = (case srv of Inr v \<Rightarrow> Some v | Inl _ \<Rightarrow> None)
            in case tinit_poll (b_poll B) (s\<lparr>dm_chan := c1, dm_world := w1, dm_mem := m2, dm_srv := sv\<rparr>) of
              None \<Rightarrow> None
            | Some s1 \<Rightarrow>
                (let howto = howto_of_signal (tinit_sigchan_get_signo (dm_chan s1));
                     s2 = (if howto = None then s1\<lparr>dm_world := fault (dm_world s1)\<rparr> else s1);
                     ret = (case howto of Some h \<Rightarrow> h | None \<Rightarrow> ret);
                     s3 = close_server (b_unsk B) s2
                 in case tinit_target_stop (e_ext (b_env B)) (dm_chan s3) (dm_world s3) of (c4, w4) \<Rightarrow>
                    case tinit_poll (b_poll B) (s3\<lparr>dm_chan := c4, dm_world := w4\<rparr>) of
                      None \<Rightarrow> None
                    | Some s5 \<Rightarrow> Some (ret, s5)))"

section \<open>Shutdown\<close>

text \<open>The processes reaped until \<open>waitid\<close> fails.\<close>

definition tinit_killall :: "(int + siginfo) list \<Rightarrow> nat" where
  "tinit_killall ws = length (takeWhile (\<lambda>r. case r of Inr _ \<Rightarrow> True | Inl _ \<Rightarrow> False) ws)"

datatype outcome = Exit_failure | Rebooted int | Hung

definition tinit_shutdown :: "('p, 'm, 'l, 'k, 'q, 'u, 's) boot \<Rightarrow> int \<Rightarrow> ('p, 'm, 'l, 'k, 'q, 'u) machine \<Rightarrow>
    outcome \<times> ('p, 'm, 'l, 'k, 'q, 'u) machine" where
  "tinit_shutdown B howto s =
     (let cl = mc_cmdln s;
          logs1 = tinit_prefini_logs (cl_logs cl);
          (ok, mnt1) = mnt_umount_all (b_mops B) (b_mconf B) (b_mnttab B) (b_fstypes B) MNT_FORCE (mc_mnt s);
          known = (howto = RB_AUTOBOOT \<or> howto = RB_HALT_SYSTEM \<or> howto = RB_POWER_OFF);
          logs2 = tinit_postfini_logs (b_debug B) logs1;
          s1 = s\<lparr>mc_mnt := mnt1, mc_cmdln := cl\<lparr>cl_logs := logs2, cl_fault := (cl_fault cl \<or> \<not> known)\<rparr>,
                 mc_steps := Step_umount ok # Step_killall (tinit_killall (b_waits B)) # mc_steps s\<rparr>
      in if b_vfork B then (Rebooted howto, s1\<lparr>mc_steps := Step_reboot howto # mc_steps s1\<rparr>) else (Hung, s1))"

text \<open>\<open>tinit_repo_clear\<close> on the machine; it does nothing in a build without \<open>CONFIG_TINIT_DEBUG\<close>.\<close>

definition clear_services :: "bool \<Rightarrow> ('p, 'm, 'l, 'k, 'q, 'u) machine \<Rightarrow> ('p, 'm, 'l, 'k, 'q, 'u) machine" where
  "clear_services debug s =
     (case (if debug then tinit_repo_clear (dm_world (mc_daemon s)) (dm_mem (mc_daemon s))
            else (dm_world (mc_daemon s), dm_mem (mc_daemon s))) of (w, m) \<Rightarrow>
     s\<lparr>mc_daemon := (mc_daemon s)\<lparr>dm_world := w, dm_mem := m\<rparr>, mc_steps := Step_clear # mc_steps s\<rparr>)"

text \<open>The boot up to the service loop: how far it went, and its result.\<close>

datatype stage = Before_services | Services

definition init_boot :: "('p, 'm, 'l, 'k, 'q, 'u, 's) boot \<Rightarrow> string list \<Rightarrow> ('p, 'm, 'l, 'k, 'q, 'u) machine \<Rightarrow>
    stage \<times> int \<times> ('p, 'm, 'l, 'k, 'q, 'u) machine" where
  "init_boot B argv s =
     (let cl = mc_cmdln s;
          s1 = s\<lparr>mc_cmdln := tinit_parse_cmdln (b_lops B) (b_ustr B) argv (cl\<lparr>cl_logs := tinit_preinit_logs (cl_logs cl)\<rparr>)\<rparr>
      in if b_chdir B \<noteq> 0 then (Before_services, b_chdir B, s1)
         else case mnt_mount_all (b_mops B) (b_mconf B) (mc_mnt s1) of (ret, mnt1) \<Rightarrow>
           let s2 = s1\<lparr>mc_mnt := mnt1\<rparr>
           in if ret \<noteq> 0 then (Before_services, ret, s2)
           else let cl = mc_cmdln s2;
                    s3 = s2\<lparr>mc_cmdln := cl\<lparr>cl_logs := tinit_postinit_logs (b_lops B) (cl_logs cl)\<rparr>\<rparr>
                in case init_stdios (b_kops B) (b_ctermid B) (mc_proc s3) of (ret, p) \<Rightarrow>
           let s4 = s3\<lparr>mc_proc := p\<rparr>
           in if ret \<noteq> 0 then (Before_services, ret, s4)
           else case init_environ (b_clearenv B) (b_environ_path B) (b_environ_term B) of (ret, envp) \<Rightarrow>
           let s5 = s4\<lparr>mc_environ := envp\<rparr>
           in if ret \<noteq> 0 then (Before_services, ret, s5)
           else let d = mc_daemon s5
                in case tinit_repo_load (b_cfg B) (b_read B) (b_junk B) (b_debug B) (e_fs (b_env B)) (e_incl (b_env B))
                     (dm_world d) (dm_mem d) of (ret, w, m) \<Rightarrow>
             (Services, ret, s5\<lparr>mc_daemon := d\<lparr>dm_world := w, dm_mem := m\<rparr>\<rparr>))"

text \<open>\<open>None\<close> when a service loop never ends.\<close>

definition init_main :: "('p, 'm, 'l, 'k, 'q, 'u, 's) boot \<Rightarrow> string list \<Rightarrow> ('p, 'm, 'l, 'k, 'q, 'u) machine \<Rightarrow>
    (outcome \<times> ('p, 'm, 'l, 'k, 'q, 'u) machine) option" where
  "init_main B argv s =
     (if b_pid B \<noteq> 1 then Some (Exit_failure, s)
      else case init_boot B argv s of
        (Before_services, _, s1) \<Rightarrow> Some (tinit_shutdown B RB_AUTOBOOT s1)
      | (Services, ret, s1) \<Rightarrow>
          if ret \<noteq> 0 then Some (tinit_shutdown B RB_AUTOBOOT (clear_services (b_debug B) s1))
          else (case tinit_loop B (cl_target (mc_cmdln s1)) (mc_daemon s1) of
              None \<Rightarrow> None
            | Some (ret, d) \<Rightarrow>
                let s2 = clear_services (b_debug B) (s1\<lparr>mc_daemon := d\<rparr>)
                in Some (if ret < 0 then tinit_shutdown B RB_AUTOBOOT s2 else tinit_shutdown B ret s2)))"

section \<open>The target booted\<close>

text \<open>What the utils package documents of \<open>ustr_match_token\<close> and \<open>ustr_parse\<close>.\<close>

definition ustr_ok :: "ustr \<Rightarrow> bool" where
  "ustr_ok S \<longleftrightarrow>
     (\<forall>t n k. us_match_token S t n k (length k) \<longleftrightarrow> take n t = k \<and> n = length k) \<and>
     (\<forall>s n. is_cstr s \<longrightarrow> length s < n \<longrightarrow> us_parse S s n = int (length s))"

text \<open>The keyword and the value of an argument.\<close>

definition arg_value :: "string \<Rightarrow> (string \<times> string) option" where
  "arg_value a = (if length a < TINIT_ARG_MAX \<and> CHR ''='' \<in> set a \<and> hd a \<noteq> CHR ''=''
     then Some (takeWhile (\<lambda>c. c \<noteq> CHR ''='') a, drop (Suc (length (takeWhile (\<lambda>c. c \<noteq> CHR ''='') a))) a) else None)"

text \<open>The valid targets that a list of arguments names.\<close>

definition arg_targets :: "string list \<Rightarrow> string list" where
  "arg_targets as = concat (map (\<lambda>a. case arg_value a of
      Some (k, v) \<Rightarrow> if k = ''target'' \<and> svc_name_ok v then [v] else []
    | None \<Rightarrow> []) as)"

lemma parse_logs_frame [simp]:
  assumes "us_parse S v 256 = int n"
  shows "lg_fault (tinit_parse_stdlog_arg L (us_parse S) v n g) = lg_fault g"
    "lg_fault (tinit_parse_mqlog_arg L (us_parse S) v n g) = lg_fault g"
  using assms by (simp_all add: tinit_parse_stdlog_arg_def tinit_parse_mqlog_arg_def split: sum.split)

lemma split_equal:
  "CHR ''='' \<in> set a \<Longrightarrow>
     a = takeWhile (\<lambda>c. c \<noteq> CHR ''='') a @ CHR ''='' # drop (Suc (length (takeWhile (\<lambda>c. c \<noteq> CHR ''='') a))) a"
  by (induction a) auto

lemma find_parser:
  assumes "ustr_ok S" "n \<le> length t"
  shows "List.find (\<lambda>(kword, p). us_match_token S t n kword (length kword)) tinit_cmdln_parsers =
    map_option (\<lambda>p. (take n t, p)) (map_of tinit_cmdln_parsers (take n t))"
proof -
  have m: "us_match_token S t n k (length k) \<longleftrightarrow> take n t = k" for k
    using assms by (auto simp: ustr_ok_def)
  have "List.find (\<lambda>(kword, p). us_match_token S t n kword (length kword)) ps =
      map_option (\<lambda>p. (take n t, p)) (map_of ps (take n t))" for ps :: "(string \<times> cmdln_parser) list"
    by (induction ps) (auto simp: m)
  then show ?thesis .
qed

lemma parse_arg_result:
  assumes S: "ustr_ok S" and a: "is_cstr a"
  shows "cl_target (tinit_parse_arg L S a s) = last (cl_target s # arg_targets [a])"
    and "cl_fault (tinit_parse_arg L S a s) \<longleftrightarrow> cl_fault s \<or> a = [] \<or> a = ''target=''"
    and "lg_fault (cl_logs (tinit_parse_arg L S a s)) = lg_fault (cl_logs s)"
proof -
  let ?k = "takeWhile (\<lambda>c. c \<noteq> CHR ''='') a"
  let ?v = "drop (Suc (length ?k)) a"
  let ?s1 = "if a = [] then s\<lparr>cl_fault := True\<rparr> else s"
  have len: "strnlen a 256 = min (length a) 256"
    by (rule strnlen_cstr [OF a])
  have "cl_target (tinit_parse_arg L S a s) = last (cl_target s # arg_targets [a]) \<and>
    (cl_fault (tinit_parse_arg L S a s) \<longleftrightarrow> cl_fault s \<or> a = [] \<or> a = ''target='') \<and>
    lg_fault (cl_logs (tinit_parse_arg L S a s)) = lg_fault (cl_logs s)"
  proof (cases "length a < 256 \<and> CHR ''='' \<in> set a \<and> hd a \<noteq> CHR ''=''")
    case False
    have "?k = [] \<longleftrightarrow> a = [] \<or> hd a = CHR ''=''"
      by (cases a) auto
    with False have "tinit_parse_arg L S a s = ?s1"
      by (auto simp: tinit_parse_arg_def len Let_def not_less)
    moreover have "a = ''target='' \<Longrightarrow> False"
      using False by simp
    ultimately show ?thesis
      using False by (auto simp: arg_targets_def arg_value_def)
  next
    case True
    then have ne: "a \<noteq> []" "?k \<noteq> []"
      by (cases a; auto)+
    have kl: "length ?k < length a"
      using True length_takeWhile_le [of "\<lambda>c. c \<noteq> CHR ''=''" a] takeWhile_length_all [of "\<lambda>c. c \<noteq> CHR ''=''" a]
      by (auto simp: le_less)
    have tk: "take (length ?k) a = ?k"
      by (rule takeWhile_eq_take [symmetric])
    have v: "is_cstr ?v" "length ?v < 256" "length ?v = length a - Suc (length ?k)"
      using a True by (auto simp: is_cstr_def dest: in_set_dropD)
    then have pv: "us_parse S ?v 256 = int (length ?v)" "cstr ?v = ?v"
      using S by (auto simp: ustr_ok_def cstr_simps)
    have run: "tinit_parse_arg L S a s =
        (case map_of tinit_cmdln_parsers ?k of Some p \<Rightarrow> run_parser L S p ?v (length ?v) s | None \<Rightarrow> s)"
      using True ne kl tk v(3) pv(2) find_parser [OF S, of "length ?k" a]
      by (cases "map_of tinit_cmdln_parsers ?k") (simp_all add: tinit_parse_arg_def len Let_def)
    have eqs: "a = ''target='' \<longleftrightarrow> ?k = ''target'' \<and> ?v = []"
    proof
      assume h: "?k = ''target'' \<and> ?v = []"
      have "a = ?k @ CHR ''='' # ?v"
        using True by (intro split_equal) simp
      then have "a = ?k @ CHR ''='' # []"
        unfolding conjunct2 [OF h] .
      then show "a = ''target=''"
        unfolding conjunct1 [OF h] by simp
    qed simp
    consider "?k = ''target''" | "?k = ''stdlog''" | "?k = ''mqlog''" | "?k \<notin> {''target'', ''stdlog'', ''mqlog''}"
      by blast
    then show ?thesis
    proof cases
      case 1
      have "tinit_check_svc_name ?v (length ?v) = 0 \<longleftrightarrow> svc_name_ok ?v"
        using check_svc_name_zero [OF v(1)] .
      with 1 run eqs ne pv True show ?thesis
        by (auto simp: run_parser_def tinit_parse_target_arg_def tinit_cmdln_parsers_def arg_targets_def arg_value_def Let_def)
    qed (use run eqs ne pv True in \<open>auto simp: run_parser_def tinit_cmdln_parsers_def arg_targets_def arg_value_def\<close>)
  qed
  then show "cl_target (tinit_parse_arg L S a s) = last (cl_target s # arg_targets [a])"
    "cl_fault (tinit_parse_arg L S a s) \<longleftrightarrow> cl_fault s \<or> a = [] \<or> a = ''target=''"
    "lg_fault (cl_logs (tinit_parse_arg L S a s)) = lg_fault (cl_logs s)"
    by auto
qed

text \<open>
  C25. The target booted is the last valid one on the kernel's command line: reading the arguments, of any
  length and content, keeps the target as it was when none of them is \<open>target=\<close> and a valid service name,
  and otherwise ends with the last that is, ignoring the others and those of 256 bytes or more. An
  assertion fails exactly if an argument is empty or is \<open>target=\<close> with nothing after it.
\<close>

theorem boot_target:
  assumes "ustr_ok S" "\<forall>a \<in> set (tl argv). is_cstr a"
  shows "cl_target (tinit_parse_cmdln L S argv s) = last (cl_target s # arg_targets (tl argv)) \<and>
    (cl_fault (tinit_parse_cmdln L S argv s) \<longleftrightarrow> cl_fault s \<or> [] \<in> set (tl argv) \<or> ''target='' \<in> set (tl argv)) \<and>
    lg_fault (cl_logs (tinit_parse_cmdln L S argv s)) = lg_fault (cl_logs s)"
proof -
  have "cl_target (fold (tinit_parse_arg L S) as s) = last (cl_target s # arg_targets as) \<and>
    (cl_fault (fold (tinit_parse_arg L S) as s) \<longleftrightarrow> cl_fault s \<or> [] \<in> set as \<or> ''target='' \<in> set as) \<and>
    lg_fault (cl_logs (fold (tinit_parse_arg L S) as s)) = lg_fault (cl_logs s)" if "\<forall>a \<in> set as. is_cstr a" for "as"
    using that
  proof (induction "as" arbitrary: s)
    case Nil
    then show ?case by (simp add: arg_targets_def)
  next
    case (Cons a "as")
    have "arg_targets (a # as) = arg_targets [a] @ arg_targets as"
      by (simp add: arg_targets_def)
    with Cons.IH [of "tinit_parse_arg L S a s"] Cons.prems parse_arg_result [OF assms(1), of a L s] show ?case
      by (cases "arg_targets [a]") auto
  qed
  with assms(2) show ?thesis
    by (simp add: tinit_parse_cmdln_def drop_Suc)
qed

text \<open>The two functions of the utils package as documented.\<close>

definition demo_ustr :: ustr where
  "demo_ustr = \<lparr>us_match_token = \<lambda>t n k m. take n t = k \<and> n = m,
     us_parse = \<lambda>s n. if length s < n then int (length s) else - ENAMETOOLONG\<rparr>"

lemma demo_ustr_ok: "ustr_ok demo_ustr"
  by (auto simp: ustr_ok_def demo_ustr_def)

definition demo_cmdln :: "unit cmdln" where
  "demo_cmdln = \<lparr>cl_target = ''current'', cl_logs = demo_logs, cl_fault = False\<rparr>"

theorem boot_target_witness:
  "cl_target (tinit_parse_cmdln (demo_lops False) demo_ustr [''init'', ''target=a-b'', ''quiet'', ''target=-x''] demo_cmdln) = ''a-b''"
proof -
  have "svc_name_ok ''a-b''" "\<not> svc_name_ok ''-x''"
    by (simp_all add: svc_name_ok_def isalnum_def charset_defs)
  then have "arg_targets [''target=a-b'', ''quiet'', ''target=-x''] = [''a-b'']"
    by (simp add: arg_targets_def arg_value_def)
  then show ?thesis
    using boot_target [OF demo_ustr_ok, of "[''init'', ''target=a-b'', ''quiet'', ''target=-x'']" "demo_lops False" demo_cmdln]
    by (simp add: is_cstr_def)
qed

section \<open>The services from start to shutdown\<close>

text \<open>What loading the repository leaves: sound services, all stopped, and an empty log.\<close>

definition fresh_services :: "'k world \<Rightarrow> bool" where
  "fresh_services w \<longleftrightarrow> world_ok w \<and> listed w \<and> w_log w = [] \<and>
     (\<forall>i. is_svc w i \<longrightarrow> s_state (svc_at w i) = TINIT_SVC_STOPPED_STAT)"

text \<open>File names as \<open>readdir\<close> gives them, of fewer than 255 bytes.\<close>

definition short_names :: "dir \<Rightarrow> bool" where
  "short_names d \<longleftrightarrow> (\<forall>ent. Inr ent \<in> set d \<longrightarrow>
     length (d_name ent) < SVC_PATH_MAX \<and> is_cstr (d_name ent) \<and> CHR ''/'' \<notin> set (d_name ent))"

lemma basename_append: "CHR ''/'' \<notin> set b \<Longrightarrow> path_basename (a @ CHR ''/'' # b) = b"
  by (auto simp: path_basename_def takeWhile_append takeWhile_eq_all_conv)

lemma load_fresh_services:
  assumes "cfg_ok C" "read_ok C read" "w_svcs w = []" "w_log w = []" "\<not> w_fault w'"
    and "fs_opendir F incl = Inr d" "short_names d" "tinit_repo_load C read junk debug F incl w m = (0, w', m')"
  shows "fresh_services w'"
proof -
  note ready = repo_load_ready_lemma [OF assms(1-3,5,6,8)]
  note idle = repo_load_idle [OF assms(1-3,6,8)]
  have "conf_get_name (s_conf (svc_at w' i)) \<noteq> None \<and> (case conf_get_path (s_conf (svc_at w' i)) of
      Some p \<Rightarrow> cstr p \<noteq> [] \<and> length (cstr p) < SVC_PATH_MAX | None \<Rightarrow> False)" if "is_svc w' i" for i
  proof -
    have "conf_file d incl (s_conf (svc_at w' i))"
      using ready that by blast
    then obtain ent where ent: "conf_valid (s_conf (svc_at w' i))" "Inr ent \<in> set d" "file_ext (d_name ent) = Some ''conf''"
      "c_path (s_conf (svc_at w' i)) = Some (path_basename (incl @ ''/'' @ d_name ent))"
      by (auto simp: conf_file_def)
    with assms(7) have "path_basename (incl @ ''/'' @ d_name ent) = d_name ent" "cstr (d_name ent) = d_name ent"
      "length (d_name ent) < SVC_PATH_MAX"
      by (simp_all add: short_names_def cstr_simps basename_append)
    moreover have "d_name ent \<noteq> []"
      using ent(3) by (auto simp: file_ext_def)
    ultimately show ?thesis
      using ent by (auto simp: conf_valid_def conf_get_name_def conf_get_path_def)
  qed
  with ready idle assms(4) show ?thesis
    by (simp add: fresh_services_def listed_def graph_ok_def)
qed

lemma fresh_in_service:
  assumes "fresh_services w"
  shows "world_ok w" "log_true w" "listed w" "lost E w = {}"
proof -
  show "log_true w"
    using assms by (auto simp: fresh_services_def log_true_def state_told_def)
  show "lost E w = {}"
    using assms by (auto simp: fresh_services_def lost_def stuck_def)
qed (use assms in \<open>simp_all add: fresh_services_def\<close>)

text \<open>What the program relies on outside the sources.\<close>

definition boot_laws :: "('p, 'm, 'l, 'k, 'q, 'u, 's) boot \<Rightarrow> bool" where
  "boot_laws B \<longleftrightarrow> daemon_laws (b_env B) (b_buffq B) (b_unsk B) \<and>
     poll_laws (b_env B) (b_buffq B) (b_unsk B) (b_poll B) \<and>
     b_upoll_open B \<le> 0 \<and> b_register B \<le> 0 \<and> (\<forall>err. b_signalfd B = Inl err \<longrightarrow> 0 < err)"

lemma RB_HALT_SYSTEM_negative: "RB_HALT_SYSTEM < 0"
  by (simp add: RB_HALT_SYSTEM_def)

lemma tinit_loop_cases:
  assumes "tinit_loop B target s = Some (ret, s')" "boot_laws B"
  shows "(ret < 0 \<and> \<not> (\<exists>c w m. tinit_target_start (e_ext (b_env B)) (e_fs (b_env B)) (e_incl (b_env B)) (e_sysconf (b_env B))
        target (b_register B) (snd (tinit_sigchan_open (b_signalfd B) (b_chan B))) (dm_world s) (dm_mem s) = (0, c, w, m) \<and>
        b_upoll_open B = 0 \<and> fst (tinit_sigchan_open (b_signalfd B) (b_chan B)) = 0)) \<or>
    (\<exists>c w m u m2 sv s1. tinit_target_start (e_ext (b_env B)) (e_fs (b_env B)) (e_incl (b_env B)) (e_sysconf (b_env B))
        target (b_register B) (snd (tinit_sigchan_open (b_signalfd B) (b_chan B))) (dm_world s) (dm_mem s) = (0, c, w, m) \<and>
      tinit_srv_open (b_buffq B) (b_unsk B) (b_block B) (b_sock_path B) (b_sock B) m = (sv, u, m2) \<and>
      tinit_poll (b_poll B) (s\<lparr>dm_chan := c, dm_world := w, dm_mem := m2,
        dm_srv := (case sv of Inr v \<Rightarrow> Some v | Inl _ \<Rightarrow> None)\<rparr>) = Some s1 \<and>
      ret = (case howto_of_signal (ch_signo (dm_chan s1)) of Some h \<Rightarrow> h | None \<Rightarrow> 0) \<and>
      b_upoll_open B = 0 \<and> fst (tinit_sigchan_open (b_signalfd B) (b_chan B)) = 0)"
proof -
  obtain r0 c0 where 0: "tinit_sigchan_open (b_signalfd B) (b_chan B) = (r0, c0)"
    by fastforce
  obtain r1 c1 w1 m1 where 1: "tinit_target_start (e_ext (b_env B)) (e_fs (b_env B)) (e_incl (b_env B)) (e_sysconf (b_env B))
      target (b_register B) c0 (dm_world s) (dm_mem s) = (r1, c1, w1, m1)"
    by (metis prod_cases4)
  obtain sv u m2 where 2: "tinit_srv_open (b_buffq B) (b_unsk B) (b_block B) (b_sock_path B) (b_sock B) m1 = (sv, u, m2)"
    by (metis prod_cases3)
  have r0: "r0 \<le> 0"
    using assms(2) 0 by (auto simp: boot_laws_def tinit_sigchan_open_def split: sum.splits)
  have F: "fs_errnos (e_fs (b_env B))"
    using assms(2) by (simp add: boot_laws_def daemon_laws_def)
  have r1: "r1 \<le> 0"
    using 1 init_iter_errno [OF F] assms(2)
    by (fastforce simp: tinit_target_start_def boot_laws_def tinit_sigchan_start_def Let_def
        split: prod.split_asm sum.split_asm if_split_asm)
  have up: "b_upoll_open B \<le> 0"
    using assms(2) by (simp add: boot_laws_def)
  show ?thesis
  proof (cases "b_upoll_open B = 0 \<and> r0 = 0 \<and> r1 = 0")
    case False
    then show ?thesis
      using assms(1) 0 1 r0 r1 up by (auto simp: tinit_loop_def split: if_split_asm)
  next
    case True
    let ?s = "s\<lparr>dm_chan := c1, dm_world := w1, dm_mem := m2, dm_srv := (case sv of Inr v \<Rightarrow> Some v | Inl _ \<Rightarrow> None)\<rparr>"
    obtain s1 where 3: "tinit_poll (b_poll B) ?s = Some s1"
      using assms(1) 0 1 2 True by (cases "tinit_poll (b_poll B) ?s") (auto simp: tinit_loop_def)
    have "ret = (case howto_of_signal (ch_signo (dm_chan s1)) of Some h \<Rightarrow> h | None \<Rightarrow> 0)"
      using assms(1) 0 1 2 True 3
      by (auto simp: tinit_loop_def Let_def tinit_sigchan_get_signo_def split: prod.split_asm option.split_asm)
    with 0 1 2 3 True show ?thesis
      by fastforce
  qed
qed

lemma service_loop_lemma:
  fixes B :: "('p, 'm, 'l, 'k, 'q, 'u, 's) boot"
  assumes "boot_laws B" "no_reloads (b_unsk B)" "fresh_services (dm_world s)"
    and "b_upoll_open B = 0" "b_signalfd B = Inr fd"
    and start: "tinit_target_start (e_ext (b_env B)) (e_fs (b_env B)) (e_incl (b_env B)) (e_sysconf (b_env B)) target
      (b_register B) ((b_chan B)\<lparr>ch_fd := fd\<rparr>) (dm_world s) (dm_mem s) = (0, c, w, m)"
    and run: "tinit_loop B target s = Some (ret, s')"
  shows "\<exists>s0 s1. dm_world s0 = w \<and> tinit_poll (b_poll B) s0 = Some s1 \<and> in_service (b_env B) s0 \<and> in_service (b_env B) s1 \<and>
    (\<forall>i \<in> set (target_svcs (e_fs (b_env B)) (e_incl (b_env B)) (e_sysconf (b_env B)) target (dm_world s)). svc_is_on w i) \<and>
    ch_signo (dm_chan s1) \<in> {SIGTERM, SIGUSR1, SIGUSR2, SIGPWR} \<and>
    howto_of_signal (ch_signo (dm_chan s1)) = Some ret"
proof -
  let ?V = "b_env B"
  have laws: "daemon_laws ?V (b_buffq B) (b_unsk B)" "poll_laws ?V (b_buffq B) (b_unsk B) (b_poll B)"
    "timer_laws (e_ext ?V)" "fs_ok (e_fs ?V)"
    using assms(1) by (simp_all add: boot_laws_def daemon_laws_def)
  note fresh = fresh_in_service [OF assms(3)]
  note st = target_start_lemma [OF laws(3) fresh(1,2) laws(4) start]
  have chan: "tinit_sigchan_open (b_signalfd B) (b_chan B) = (0, (b_chan B)\<lparr>ch_fd := fd\<rparr>)"
    by (simp add: tinit_sigchan_open_def assms(5))
  obtain u m2 sv s1 where r: "tinit_srv_open (b_buffq B) (b_unsk B) (b_block B) (b_sock_path B) (b_sock B) m = (sv, u, m2)"
    "tinit_poll (b_poll B) (s\<lparr>dm_chan := c, dm_world := w, dm_mem := m2,
        dm_srv := (case sv of Inr v \<Rightarrow> Some v | Inl _ \<Rightarrow> None)\<rparr>) = Some s1"
    "ret = (case howto_of_signal (ch_signo (dm_chan s1)) of Some h \<Rightarrow> h | None \<Rightarrow> 0)"
    using tinit_loop_cases [OF run assms(1)] start assms(4) by (auto simp: chan)
  let ?s0 = "s\<lparr>dm_chan := c, dm_world := w, dm_mem := m2, dm_srv := (case sv of Inr v \<Rightarrow> Some v | Inl _ \<Rightarrow> None)\<rparr>"
  have s0: "in_service ?V ?s0"
    using st fresh listed_statics [of w "dm_world s"] by (auto simp: in_service_def)
  note p = poll_in_service [OF r(2) laws(2,1) assms(2) s0]
  then have "howto_of_signal (ch_signo (dm_chan s1)) \<noteq> None"
    by (auto simp: howto_of_signal_def)
  with p r(2,3) s0 st show ?thesis
    by (intro exI [of _ ?s0] exI [of _ s1]) auto
qed

text \<open>
  C3. From the start of the boot target to the request to shut down the daemon is sound, whatever its
  clients, its children and its timers do in whatever order (a reload of a ready service without a child
  apart): with freshly loaded services and a target that starts, every service the target names is on
  when the event loop is entered, the loop is only left for one of the four shutdown signals, in between
  no assertion has failed, the log is true and no waiting service is lost, and the result of the loop is
  what that signal asks for.
\<close>

theorem service_loop:
  fixes B :: "('p, 'm, 'l, 'k, 'q, 'u, 's) boot"
  assumes "boot_laws B" "no_reloads (b_unsk B)" "fresh_services (dm_world s)"
    and "b_upoll_open B = 0" "b_signalfd B = Inr fd"
    and start: "tinit_target_start (e_ext (b_env B)) (e_fs (b_env B)) (e_incl (b_env B)) (e_sysconf (b_env B)) target
      (b_register B) ((b_chan B)\<lparr>ch_fd := fd\<rparr>) (dm_world s) (dm_mem s) = (0, c, w, m)"
    and run: "tinit_loop B target s = Some (ret, s')"
  shows "\<exists>s0 s1. dm_world s0 = w \<and> tinit_poll (b_poll B) s0 = Some s1 \<and> in_service (b_env B) s0 \<and> in_service (b_env B) s1 \<and>
    (\<forall>i \<in> set (target_svcs (e_fs (b_env B)) (e_incl (b_env B)) (e_sysconf (b_env B)) target (dm_world s)). svc_is_on w i) \<and>
    ch_signo (dm_chan s1) \<in> {SIGTERM, SIGUSR1, SIGUSR2, SIGPWR} \<and>
    howto_of_signal (ch_signo (dm_chan s1)) = Some ret"
  by (rule service_loop_lemma [OF assms])

lemma shutdown_cases:
  assumes "tinit_shutdown B h s = (out, s')" "b_vfork B"
  shows "out = Rebooted h \<and> mc_daemon s' = mc_daemon s \<and>
    (\<exists>ok n. mc_steps s' = Step_reboot h # Step_umount ok # Step_killall n # mc_steps s) \<and>
    (h \<notin> {RB_AUTOBOOT, RB_HALT_SYSTEM, RB_POWER_OFF} \<longrightarrow> cl_fault (mc_cmdln s'))"
  using assms by (auto simp: tinit_shutdown_def Let_def split: prod.splits)

lemma clear_cases:
  "(debug \<longrightarrow> w_svcs (dm_world (mc_daemon (clear_services debug s))) = []) \<and>
     mc_steps (clear_services debug s) = Step_clear # mc_steps s"
  by (simp add: clear_services_def tinit_repo_clear_def split: prod.split)

lemma init_boot_steps:
  "init_boot B argv s = (st, ret, s') \<Longrightarrow> mc_steps s' = mc_steps s \<and>
     (st = Before_services \<longrightarrow> mc_daemon s' = mc_daemon s)"
  by (auto simp: init_boot_def Let_def split: prod.split_asm if_split_asm)

text \<open>What loading the repository relies on: libconfig, and file names of the length \<open>readdir\<close> gives.\<close>

definition config_laws :: "('p, 'm, 'l, 'k, 'q, 'u, 's) boot \<Rightarrow> bool" where
  "config_laws B \<longleftrightarrow> cfg_ok (b_cfg B) \<and> read_ok (b_cfg B) (b_read B) \<and>
     (\<forall>d. fs_opendir (e_fs (b_env B)) (e_incl (b_env B)) = Inr d \<longrightarrow> short_names d)"

lemma load_opened:
  assumes "tinit_repo_load C read junk debug F incl w m = (0, w', m')" "fs_errnos F"
  shows "\<exists>d. fs_opendir F incl = Inr d"
  using assms by (force simp: tinit_repo_load_def fs_errnos_def split: sum.split_asm)

lemma init_boot_fresh:
  assumes "init_boot B argv s = (Services, 0, s1)" "config_laws B" "boot_laws B"
    and "w_svcs (dm_world (mc_daemon s)) = []" "w_log (dm_world (mc_daemon s)) = []" "\<not> w_fault (dm_world (mc_daemon s1))"
  shows "fresh_services (dm_world (mc_daemon s1))"
proof -
  obtain w m where load: "tinit_repo_load (b_cfg B) (b_read B) (b_junk B) (b_debug B) (e_fs (b_env B)) (e_incl (b_env B))
      (dm_world (mc_daemon s)) (dm_mem (mc_daemon s)) = (0, w, m)" "dm_world (mc_daemon s1) = w"
    using assms(1) by (auto simp: init_boot_def Let_def split: prod.split_asm if_split_asm)
  obtain d where d: "fs_opendir (e_fs (b_env B)) (e_incl (b_env B)) = Inr d"
    using load_opened [OF load(1)] assms(3) by (auto simp: boot_laws_def daemon_laws_def)
  with assms(2) have "short_names d" "cfg_ok (b_cfg B)" "read_ok (b_cfg B) (b_read B)"
    by (simp_all add: config_laws_def)
  then show ?thesis
    using load_fresh_services [OF _ _ assms(4,5) _ d _ load(1)] load(2) assms(6) by simp
qed

text \<open>How the service loop is left: by an error, or by a signal that arrived while the daemon was in service.\<close>

definition left_by_signal :: "('p, 'm, 'l, 'k, 'q, 'u, 's) boot \<Rightarrow> string \<Rightarrow> ('k, 'q, 'u) daemon \<Rightarrow> int \<Rightarrow> bool" where
  "left_by_signal B target s signo \<longleftrightarrow>
     (\<exists>c w m s0 s1. tinit_target_start (e_ext (b_env B)) (e_fs (b_env B)) (e_incl (b_env B)) (e_sysconf (b_env B)) target
        (b_register B) (snd (tinit_sigchan_open (b_signalfd B) (b_chan B))) (dm_world s) (dm_mem s) = (0, c, w, m) \<and>
      dm_world s0 = w \<and> tinit_poll (b_poll B) s0 = Some s1 \<and> in_service (b_env B) s0 \<and> in_service (b_env B) s1 \<and>
      signo = ch_signo (dm_chan s1))"

lemma loop_result:
  fixes B :: "('p, 'm, 'l, 'k, 'q, 'u, 's) boot"
  assumes "boot_laws B" "no_reloads (b_unsk B)" "fresh_services (dm_world s)" "tinit_loop B target s = Some (ret, s')"
  shows "ret < 0 \<or> (ret \<in> {RB_AUTOBOOT, RB_POWER_OFF} \<and>
    (\<exists>signo. left_by_signal B target s signo \<and> howto_of_signal signo = Some ret))"
proof (cases "ret < 0")
  case False
  with tinit_loop_cases [OF assms(4,1)] obtain c w m where
    start: "tinit_target_start (e_ext (b_env B)) (e_fs (b_env B)) (e_incl (b_env B)) (e_sysconf (b_env B))
        target (b_register B) (snd (tinit_sigchan_open (b_signalfd B) (b_chan B))) (dm_world s) (dm_mem s) = (0, c, w, m)"
    "b_upoll_open B = 0" "fst (tinit_sigchan_open (b_signalfd B) (b_chan B)) = 0"
    by blast
  then obtain fd where fd: "b_signalfd B = Inr fd" "snd (tinit_sigchan_open (b_signalfd B) (b_chan B)) = (b_chan B)\<lparr>ch_fd := fd\<rparr>"
    using assms(1) by (cases "b_signalfd B") (auto simp: boot_laws_def tinit_sigchan_open_def)
  obtain s0 s1 where p: "dm_world s0 = w" "tinit_poll (b_poll B) s0 = Some s1" "in_service (b_env B) s0" "in_service (b_env B) s1"
    "ch_signo (dm_chan s1) \<in> {SIGTERM, SIGUSR1, SIGUSR2, SIGPWR}" "howto_of_signal (ch_signo (dm_chan s1)) = Some ret"
    using service_loop_lemma [OF assms(1-3) start(2) fd(1) start(1) [unfolded fd(2)] assms(4)] by blast
  have "left_by_signal B target s (ch_signo (dm_chan s1))"
    unfolding left_by_signal_def using start(1) p by blast
  moreover have "ret \<in> {RB_AUTOBOOT, RB_POWER_OFF}"
    using p(5,6) False RB_HALT_SYSTEM_negative by (auto simp: howto_of_signal_def split: if_split_asm)
  ultimately show ?thesis
    using p(6) by blast
qed simp


end
