(* ===== verification/Srv_Demo.thy ===== *)
theory Srv_Demo imports Srv_Loop begin

text \<open>
  A concrete server: a queue that counts its free buffers, a socket that delivers a list of
  datagrams and accepts every reply, and the environment of the demonstration target. The
  properties of the server and of the client are applied to it.
\<close>

definition demo_env :: "sim env" where
  "demo_env = \<lparr>e_ext = sim_ext, e_fs = demo_fs, e_fnmatch = (\<lambda>p s. if p = s \<or> p = ''*'' then 0 else 1),
     e_incl = ''/s'', e_sysconf = ''/t'', e_gid = 100\<rparr>"

definition demo_dgram :: "bytes \<Rightarrow> dgram" where
  "demo_dgram bs = \<lparr>d_data = bs @ replicate (4096 - length bs) NUL, d_bytes = length bs, d_peer = 3\<rparr>"

abbreviation (input) blank :: bytes where "blank \<equiv> replicate 260 NUL"
abbreviation (input) reply_buff :: bytes where "reply_buff \<equiv> replicate 4096 NUL"

definition no_iter :: status_iter where
  "no_iter = \<lparr>it_end = 0, it_status = 0, it_len = 0\<rparr>"

lemma demo_env_sel [simp]:
  "e_ext demo_env = sim_ext" "e_fs demo_env = demo_fs" "e_incl demo_env = ''/s''" "e_sysconf demo_env = ''/t''"
  "e_gid demo_env = 100"
  by (simp_all add: demo_env_def)

lemma demo_fs_errnos: "fs_errnos demo_fs"
  by (auto simp: fs_errnos_def demo_fs_def)

lemma demo_dgram_sized: "length bs \<le> 4096 \<Longrightarrow> sized (demo_dgram bs)"
  by (simp add: sized_def demo_dgram_def)

lemma demo_dgram_payload: "payload (demo_dgram bs) = bs"
  by (simp add: payload_def demo_dgram_def)

lemma length_request: "length (request_bytes seqno t name) = 5 + length name"
  by (simp add: request_bytes_def)

section \<open>A command\<close>

definition start_net :: dgram where
  "start_net = demo_dgram (request_bytes 7 TINIT_START_MSG_TYPE ''net'')"

lemma start_net_sized: "sized start_net"
  unfolding start_net_def by (rule demo_dgram_sized) (simp add: length_request)

lemma start_net_type: "get16 (d_data start_net) 2 = 1"
  by code_simp



lemma boot_svc: "is_svc boot i \<longleftrightarrow> i = 0 \<or> i = 1"
  by (auto simp: boot_def)

lemma boot_listed: "listed boot"
proof -
  have "conf_get_name (s_conf (svc_at boot 0)) \<noteq> None" "conf_get_name (s_conf (svc_at boot 1)) \<noteq> None"
    "conf_get_path (s_conf (svc_at boot 0)) = Some ''net.conf''" "conf_get_path (s_conf (svc_at boot 1)) = Some ''web.conf''"
    by code_simp+
  then show ?thesis
    unfolding listed_def boot_svc by (auto simp: cstr_def)
qed

theorem requests_are_safe_witness:
  "world_ok (fst (snd (snd (snd (tinit_srv_process_request demo_env start_net reply_buff boot demo_mem)))))"
proof -
  obtain ret d' pat' w' m' where
    run: "tinit_srv_process_request demo_env start_net reply_buff boot demo_mem = (ret, d', pat', w', m')"
    by (metis prod_cases5)
  show ?thesis
    using requests_are_safe [OF _ boot_ok boot_log_true _ _ boot_listed start_net_sized _ run]
      demo_fs_ok demo_fs_errnos start_net_type run by simp
qed

theorem reload_without_child_asserts_witness:
  "w_fault (snd (snd (tinit_srv_request_reload sim_ext start_net ''net'' 3
     (demo_at (run_ready (-1)) (\<lambda>s. s)))))"
proof -
  have "tinit_repo_search_byname (demo_at (run_ready (-1)) (\<lambda>s. s)) ''net'' = Some 0"
    "s_state (svc_at (demo_at (run_ready (-1)) (\<lambda>s. s)) 0) = TINIT_SVC_READY_STAT"
    "s_child (svc_at (demo_at (run_ready (-1)) (\<lambda>s. s)) 0) \<le> 0"
    "tinit_check_svc_name ''net'' 3 = 0"
    by code_simp+
  then show ?thesis
    by (rule reload_without_child_asserts)
qed

section \<open>A list of statuses\<close>

definition up :: "sim world" where
  "up = demo_at (run_ready 5) (run_starting (-1) 0)"

definition status_all :: dgram where
  "status_all = demo_dgram (request_bytes 9 TINIT_STATUS_MSG_TYPE ''*'')"

lemma status_all_sized: "sized status_all"
  unfolding status_all_def by (rule demo_dgram_sized) (simp add: length_request)

lemma up_ok: "world_ok up"
  unfolding up_def by (rule demo_at_ok) simp_all

lemma up_svc: "is_svc up i \<longleftrightarrow> i = 0 \<or> i = 1"
  by (auto simp: up_def)

lemma up_listable: "\<forall>i. is_svc up i \<longrightarrow> listable (e_fnmatch demo_env) ''*'' up i"
proof -
  have "listable (e_fnmatch demo_env) ''*'' up 0" "listable (e_fnmatch demo_env) ''*'' up 1"
    by code_simp+
  then show ?thesis
    by (auto simp: up_svc)
qed

theorem status_exchange_witness:
  "\<exists>d' pat' it b b'. tinit_srv_process_request demo_env status_all reply_buff up demo_mem = (0, d', pat', up, demo_mem) \<and>
     tinit_parse_status_reply no_iter (received d' reply_buff) (d_bytes d') 9 = (0, it, b) \<and>
     read_all it b = (- ENOENT, b', [(5, True, 2, ''net.conf''), (0, True, 1, ''web.conf'')])"
proof -
  obtain buff sz where b: "tinit_build_request blank 9 TINIT_STATUS_MSG_TYPE ''*'' (length ''*'') = (buff, sz)"
    by fastforce
  then have p: "payload status_all = take sz buff"
    using build_request_bytes [of blank 9 TINIT_STATUS_MSG_TYPE "''*''"] length_request [of 9 TINIT_STATUS_MSG_TYPE "''*''"]
    by (auto simp: status_all_def demo_dgram_payload)
  obtain ret d' pat' w' m' where
    run: "tinit_srv_process_request demo_env status_all reply_buff up demo_mem = (ret, d', pat', w', m')"
    by (metis prod_cases5)
  obtain r it bb where parse: "tinit_parse_status_reply no_iter (received d' reply_buff) (d_bytes d') 9 = (r, it, bb)"
    by (metis prod_cases3)
  define all where "all = filter (selected (e_fnmatch demo_env) ''*'' up) [0..<length (w_svcs up)]"
  have all: "all = [0, 1]"
    unfolding all_def by code_simp
  have path: "conf_get_path (s_conf (svc_at up 0)) = Some ''net.conf''" "conf_get_path (s_conf (svc_at up 1)) = Some ''web.conf''"
    by code_simp+
  have sel: "all \<noteq> []" "\<not> fin_of 8 (map (status_of up) all) > 4096"
    using path by (simp_all add: all status_of_def stroll_round_upper_def cstr_def)
  have "s_state (svc_at up 0) = TINIT_SVC_READY_STAT" "s_child (svc_at up 0) = 5" "svc_is_on up 0"
    "s_state (svc_at up 1) = TINIT_SVC_STARTING_STAT" "svc_is_on up 1"
    by code_simp+
  then have rep: "map (report up) all = [(5, True, 2, ''net.conf''), (0, True, 1, ''web.conf'')]"
    using path by (simp add: all report_def status_of_def cstr_def)
  have star: "is_cstr ''*''" "''*'' \<noteq> []" "length ''*'' < 256" "260 \<le> length blank" "length reply_buff = 4096"
    by (simp_all add: is_cstr_def)
  have "ret = 0 \<and> w' = up \<and> m' = demo_mem \<and> r = 0 \<and> (\<exists>b'. read_all it bb =
      (- ENOENT, b', [(5, True, 2, ''net.conf''), (0, True, 1, ''web.conf'')]))"
    using status_exchange [OF up_ok up_listable star(1-4) status_all_sized b p run star(5) parse,
        folded all_def, unfolded Let_def rep] sel by simp
  with run parse show ?thesis
    by blast
qed

text \<open>A reply of one status, as the daemon lays it out.\<close>

definition one_status :: bytes where
  "one_status = u16 9 @ u16 0 @ u16 0 @ u16 0 @ u32 5 @ u8 1 @ u8 2 @ ''a.conf'' @ replicate 3 NUL"

theorem client_iterators_valid_witness:
  "\<exists>it b. tinit_parse_status_reply no_iter one_status 23 9 = (0, it, b) \<and> tinit_assert_status_iter it b \<and>
     it_status it + path_off + it_len it + 1 \<le> 23"
proof -
  have len: "length one_status = 23"
    by (simp add: one_status_def)
  have at: "get16 one_status 0 = 9" "get16 one_status 2 = 0" "get16 one_status 4 = 0" "get32 one_status 8 = 5"
    "byte_at one_status 12 = 1" "byte_at one_status 13 = 2" "strnlen (drop 14 one_status) 9 = 6"
    by (simp_all add: one_status_def get32_def get16_def byte_at_def u16_def u32_def u8_def strnlen_def cstr_def)
  then have "fst (tinit_parse_status_reply no_iter one_status 23 9) = 0"
    by (simp add: tinit_parse_status_reply_def tinit_parse_status_data_def Let_def)
  then obtain it b where p: "tinit_parse_status_reply no_iter one_status 23 9 = (0, it, b)"
    by (metis prod.collapse)
  then have "walked one_status 23 9 it b"
    by (rule Parsed)
  with client_iterators_valid [OF this] p len show ?thesis
    by auto
qed

section \<open>A queue and a socket\<close>

record sim_q =
  q_free :: nat
  q_busy :: "dgram list"

definition demo_q :: "sim_q buffq" where
  "demo_q = \<lparr>
     bq_init = (\<lambda>size nr. Inr \<lparr>q_free = nr, q_busy = []\<rparr>),
     bq_has_free = (\<lambda>q. 0 < q_free q),
     bq_dqueue_free = (\<lambda>q. (\<lparr>d_data = replicate 4096 NUL, d_bytes = 0, d_peer = 0\<rparr>, q\<lparr>q_free := q_free q - 1\<rparr>)),
     bq_release = (\<lambda>d q. q\<lparr>q_free := q_free q + 1\<rparr>),
     bq_nqueue_busy = (\<lambda>d q. q\<lparr>q_busy := q_busy q @ [d]\<rparr>),
     bq_has_busy = (\<lambda>q. q_busy q \<noteq> []),
     bq_dqueue_busy = (\<lambda>q. (hd (q_busy q), q\<lparr>q_busy := tl (q_busy q)\<rparr>)),
     bq_requeue_busy = (\<lambda>d q. q\<lparr>q_busy := d # q_busy q\<rparr>)\<rparr>"

record sim_net =
  n_in :: "(bytes \<times> ucred) list"
  n_out :: "dgram list"
  n_watch :: bool

definition sim_recv :: "dgram \<Rightarrow> nat \<Rightarrow> sim_net \<Rightarrow> int \<times> dgram \<times> ucred \<times> sim_net" where
  "sim_recv d n u = (case n_in u of
      [] \<Rightarrow> (- EAGAIN, d, \<lparr>c_uid = 0, c_gid = 0\<rparr>, u)
    | (bs, c) # r \<Rightarrow> (0, d\<lparr>d_data := poke 0 (take (min n 4096) bs) (d_data d), d_bytes := min (length bs) (min n 4096)\<rparr>, c,
        u\<lparr>n_in := r\<rparr>))"

definition demo_u :: "sim_net unsk" where
  "demo_u = \<lparr>
     us_open = (\<lambda>p u. (0, u)),
     us_recv = sim_recv,
     us_send = (\<lambda>d u. (0, u\<lparr>n_out := n_out u @ [d]\<rparr>)),
     us_enable_out = (\<lambda>u. u\<lparr>n_watch := True\<rparr>),
     us_disable_out = (\<lambda>u. u\<lparr>n_watch := False\<rparr>),
     us_apply_watch = (\<lambda>u. u),
     us_close = (\<lambda>u. (0, u))\<rparr>"

lemma demo_q_laws: "buffq_laws demo_q q_free q_busy"
  by (simp add: buffq_laws_def demo_q_def)

lemma demo_u_recv: "recv_laws demo_u (\<lambda>u. length (n_in u))"
  by (auto simp: recv_laws_def demo_u_def sim_recv_def sized_def poke_def min_def split: list.split prod.split)

lemma demo_u_send: "send_laws demo_u n_out n_watch"
  by (simp add: send_laws_def demo_u_def)

lemma demo_u_quiet: "n_out (snd (snd (snd (us_recv demo_u d n u)))) = n_out u"
  by (simp add: demo_u_def sim_recv_def split: list.split prod.split)

text \<open>A server with two buffers that has one command to read, from a client of the group.\<close>

definition demo_srv :: "nat \<Rightarrow> (sim_q, sim_net) srv" where
  "demo_srv gid = \<lparr>sv_unsk = \<lparr>n_in = [(request_bytes 7 TINIT_START_MSG_TYPE ''net'', \<lparr>c_uid = 1000, c_gid = gid\<rparr>)],
       n_out = [], n_watch = False\<rparr>,
     sv_buffq = \<lparr>q_free = 2, q_busy = []\<rparr>, sv_pattern = replicate 256 NUL\<rparr>"


text \<open>The socket of the same server, on which only a stranger's datagrams arrive.\<close>

definition stranger_u :: "sim_net unsk" where
  "stranger_u = demo_u\<lparr>us_recv := \<lambda>d n u. (case sim_recv d n u of (ret, d', c, u') \<Rightarrow> (ret, d', \<lparr>c_uid = 1000, c_gid = 5\<rparr>, u'))\<rparr>"

lemma stranger_u_recv: "recv_laws stranger_u (\<lambda>u. length (n_in u))"
  by (auto simp: recv_laws_def stranger_u_def sim_recv_def sized_def poke_def min_def split: list.split prod.split)

theorem unauthorised_no_effect_witness:
  "\<exists>ret sv'. tinit_srv_handle_requests demo_env demo_q stranger_u (demo_srv 5) boot demo_mem =
     Some (ret, sv', boot, demo_mem) \<and> q_busy (sv_buffq sv') = [] \<and> q_free (sv_buffq sv') = 2"
proof -
  obtain ret sv' w' m' where run: "tinit_srv_handle_requests demo_env demo_q stranger_u (demo_srv 5) boot demo_mem =
      Some (ret, sv', w', m')"
    using requests_loop [OF demo_q_laws stranger_u_recv, of demo_env "demo_srv 5" boot demo_mem] by blast
  have creds: "c_uid c \<noteq> 0 \<and> c_gid c \<noteq> e_gid demo_env" if "us_recv stranger_u d n u = (ret, d', c, u')" for d n u ret d' c u'
    using that by (auto simp: stranger_u_def split: prod.splits)
  have "w' = boot \<and> m' = demo_mem \<and> sv_pattern sv' = sv_pattern (demo_srv 5) \<and>
      q_busy (sv_buffq sv') = q_busy (sv_buffq (demo_srv 5)) \<and> q_free (sv_buffq sv') = q_free (sv_buffq (demo_srv 5))"
    by (rule unauthorised_no_effect [OF demo_q_laws stranger_u_recv _ run]) (rule creds)
  with run show ?thesis
    by (simp add: demo_srv_def)
qed

end
