(* ===== verification/Init_Demo.thy ===== *)
theory Init_Demo imports Init Srv_Demo begin

text \<open>
  A concrete machine: the demonstration services, a target that links to \<open>net\<close>, and a poller that
  delivers a halt request and, once the daemon is stopping, the end of the children. The properties of
  the service loop and of \<open>main\<close> are applied to it.
\<close>

definition halt_fs :: fs where
  "halt_fs = demo_fs\<lparr>fs_opendir := \<lambda>p. if p = ''/s'' then fs_opendir conf_dir p else fs_opendir demo_fs p,
     fs_realpath := \<lambda>p. if p = ''/t/all/web'' then Some ''/s/net.conf'' else None\<rparr>"

definition halt_env :: "sim env" where
  "halt_env = demo_env\<lparr>e_fs := halt_fs\<rparr>"

text \<open>A socket on which nothing arrives.\<close>

definition halt_net :: "sim_net unsk" where
  "halt_net = demo_u\<lparr>us_recv := \<lambda>d n u. (- EAGAIN, d, \<lparr>c_uid = 0, c_gid = 0\<rparr>, u)\<rparr>"

definition halt_poll :: "(sim, sim_q, sim_net) daemon \<Rightarrow> (int \<times> (sim, sim_q, sim_net) daemon) option" where
  "halt_poll s = (if ch_dispatch (dm_chan s) = Dispatch_stopping
     then handle_event halt_env demo_q halt_net (Ev_signals (Inr [\<lparr>ssi_signo = SIGCHLD, ssi_code = 1\<rparr>]) [exited 2, exited 3]) s
     else handle_event halt_env demo_q halt_net (Ev_signals (Inr [\<lparr>ssi_signo = SIGUSR1, ssi_code = SI_USER\<rparr>]) []) s)"

text \<open>A kernel where \<open>/dev/null\<close> gets descriptor 3 and is open to all, any other file 4 and to root only.\<close>

definition halt_kops :: "unit kops" where
  "halt_kops = demo_kops\<lparr>
     ko_open := \<lambda>path fl k. (Inr (if path = ''/dev/null'' then 3 else 4), k),
     ko_fstat := \<lambda>fd k. (Inr \<lparr>st_mode = (if fd = 3 then 0x21B6 else 0x2180), st_uid = 0, st_gid = 0\<rparr>, k)\<rparr>"

definition halt_boot :: "(unit, unit, unit, sim, sim_q, sim_net, cfg) boot" where
  "halt_boot = \<lparr>b_pid = 1, b_chdir = 0, b_kops = halt_kops, b_ctermid = ''/dev/tty'', b_clearenv = 0,
     b_environ_path = ''/bin'', b_environ_term = ''linux'', b_mops = demo_mops,
     b_mconf = \<lparr>mc_proc_opts = None, mc_dev_opts = None, mc_run_opts = None, mc_root_opts = None, mc_mqueue_mode = 0, mc_mqueue_group = []\<rparr>,
     b_lops = demo_lops False, b_ustr = demo_ustr, b_cfg = tree_cfg, b_read = files, b_junk = (\<lambda>_. 0), b_debug = False,
     b_env = halt_env, b_buffq = demo_q, b_unsk = halt_net, b_sock_path = ''/run/tinit'', b_block = [],
     b_sock = \<lparr>n_in = [], n_out = [], n_watch = False\<rparr>, b_upoll_open = 0, b_signalfd = Inr 3, b_register = 0,
     b_chan = demo_chan, b_poll = halt_poll, b_waits = [Inl ECHILD], b_mnttab = Inr [], b_fstypes = Inl ENOENT, b_vfork = True\<rparr>"

definition halt_daemon :: "(sim, sim_q, sim_net) daemon" where
  "halt_daemon = \<lparr>dm_world = boot, dm_mem = demo_mem, dm_chan = demo_chan, dm_srv = None\<rparr>"

definition halt_machine :: "(unit, unit, unit, sim, sim_q, sim_net) machine" where
  "halt_machine = \<lparr>mc_proc = \<lparr>p_kern = (), p_calls = [], p_fault = False\<rparr>, mc_mnt = demo_mst, mc_cmdln = demo_cmdln,
     mc_environ = None, mc_daemon = halt_daemon\<lparr>dm_world := world_of []\<rparr>, mc_steps = []\<rparr>"

section \<open>Its service loop\<close>

lemma halt_env_sel [simp]:
  "e_ext halt_env = sim_ext" "e_fs halt_env = halt_fs" "e_incl halt_env = ''/s''" "e_sysconf halt_env = ''/t''"
  by (simp_all add: halt_env_def)

lemma halt_boot_sel [simp]:
  "b_env halt_boot = halt_env" "b_buffq halt_boot = demo_q" "b_unsk halt_boot = halt_net" "b_poll halt_boot = halt_poll"
  "b_upoll_open halt_boot = 0" "b_signalfd halt_boot = Inr 3" "b_register halt_boot = 0" "b_chan halt_boot = demo_chan"
  "b_pid halt_boot = 1" "b_vfork halt_boot" "b_debug halt_boot = False"
  by (simp_all add: halt_boot_def)

lemma halt_poll_started:
  assumes "ch_dispatch (dm_chan s) = Dispatch_started"
  shows "tinit_poll halt_poll s = Some (s\<lparr>dm_chan := (dm_chan s)\<lparr>ch_signo := SIGUSR1\<rparr>\<rparr>)"
  using assms
  by (subst tinit_poll.simps) (simp add: halt_poll_def handle_event_def tinit_sigchan_dispatch_started_def)

abbreviation (input) end_of_child :: "int + sfd_info list" where
  "end_of_child \<equiv> Inr [\<lparr>ssi_signo = SIGCHLD, ssi_code = 1\<rparr>]"

lemma halt_poll_stopping:
  assumes "ch_dispatch (dm_chan s) = Dispatch_stopping"
    and "tinit_sigchan_dispatch_stopping sim_ext end_of_child (dm_chan s) [exited 2, exited 3] (dm_world s) = (- ESHUTDOWN, c, ws, w)"
  shows "tinit_poll halt_poll s = Some (s\<lparr>dm_chan := c, dm_world := w\<rparr>)"
  using assms by (subst tinit_poll.simps) (simp add: halt_poll_def handle_event_def)

text \<open>What the loop goes through from a given daemon, as a test to evaluate.\<close>

definition halts :: "(sim, sim_q, sim_net) daemon \<Rightarrow> bool" where
  "halts s = (case tinit_target_start sim_ext halt_fs ''/s'' ''/t'' ''all'' 0 (demo_chan\<lparr>ch_fd := 3\<rparr>) (dm_world s) (dm_mem s) of
     (r, c1, w1, m1) \<Rightarrow> r = 0 \<and> ch_dispatch c1 = Dispatch_started \<and> oom m1 = [] \<and>
       (case tinit_target_stop sim_ext (c1\<lparr>ch_signo := SIGUSR1\<rparr>) w1 of (c2, w2) \<Rightarrow>
          ch_dispatch c2 = Dispatch_stopping \<and>
          (case tinit_sigchan_dispatch_stopping sim_ext end_of_child c2 [exited 2, exited 3] w2 of (r3, _, _, w3) \<Rightarrow>
             r3 = - ESHUTDOWN \<and> \<not> w_fault w3)))"

lemma halts_loop:
  assumes "halts s"
  shows "\<exists>s'. tinit_loop halt_boot ''all'' s = Some (RB_HALT_SYSTEM, s') \<and> \<not> w_fault (dm_world s')"
proof -
  obtain c1 w1 m1 c2 w2 c3 ws w3 where r:
    "tinit_target_start sim_ext halt_fs ''/s'' ''/t'' ''all'' 0 (demo_chan\<lparr>ch_fd := 3\<rparr>) (dm_world s) (dm_mem s) = (0, c1, w1, m1)"
    "ch_dispatch c1 = Dispatch_started" "oom m1 = []"
    "tinit_target_stop sim_ext (c1\<lparr>ch_signo := SIGUSR1\<rparr>) w1 = (c2, w2)" "ch_dispatch c2 = Dispatch_stopping"
    "tinit_sigchan_dispatch_stopping sim_ext end_of_child c2 [exited 2, exited 3] w2 = (- ESHUTDOWN, c3, ws, w3)" "\<not> w_fault w3"
    using assms unfolding halts_def by (auto split: prod.split_asm)
  obtain sv u m2 where open_: "tinit_srv_open demo_q halt_net (b_block halt_boot) (b_sock_path halt_boot) (b_sock halt_boot) m1 =
      (Inr sv, u, m2)"
    using r(3) by (auto simp: tinit_srv_open_def demo_q_def halt_net_def demo_u_def mem_alloc_def)
  show ?thesis
    using r open_
    by (simp add: tinit_loop_def tinit_sigchan_open_def halt_poll_started halt_poll_stopping
        howto_of_signal_def tinit_sigchan_get_signo_def close_server_def Let_def)
qed

lemma halt_daemon_halts: "halts halt_daemon"
  by code_simp

lemma halt_boot_laws: "boot_laws halt_boot"
proof -
  have "fs_ok halt_fs" "fs_errnos halt_fs"
    using demo_fs_ok demo_fs_errnos by (auto simp: fs_ok_def fs_errnos_def halt_fs_def conf_dir_def)
  moreover have "recv_laws halt_net (\<lambda>u. 0)" "send_laws halt_net n_out n_watch"
    by (simp_all add: recv_laws_def send_laws_def halt_net_def demo_u_def)
  ultimately have d: "daemon_laws halt_env demo_q halt_net"
    unfolding daemon_laws_def using demo_q_laws by auto
  have "poll_laws halt_env demo_q halt_net halt_poll"
    unfolding poll_laws_def
  proof (intro allI impI)
    fix s ret s'
    assume p: "halt_poll s = Some (ret, s')"
    let ?chld = "Ev_signals end_of_child [exited 2, exited 3]"
    let ?halt = "Ev_signals (Inr [\<lparr>ssi_signo = SIGUSR1, ssi_code = SI_USER\<rparr>]) []"
    have "event_ok s ?chld" "event_ok s ?halt"
      by (simp_all add: event_ok_def waits_ok_def wait_ok_def exited_def)
    then have "served halt_env demo_q halt_net s ([] @ [ret]) s'"
      using p served_more [OF served_none, of s ?chld halt_env demo_q halt_net ret s']
        served_more [OF served_none, of s ?halt halt_env demo_q halt_net ret s']
      by (auto simp: halt_poll_def split: if_split_asm)
    then show "\<exists>rs. served halt_env demo_q halt_net s rs s' \<and> (ret = - ESHUTDOWN \<longrightarrow> rs \<noteq> [] \<and> last rs = - ESHUTDOWN)"
      by fastforce
  qed
  with d show ?thesis
    by (simp add: boot_laws_def)
qed

lemma halt_no_reloads: "no_reloads halt_net"
  by (simp add: no_reloads_def halt_net_def)

lemma boot_fresh: "fresh_services boot"
proof -
  have "w_log boot = []" "s_state (svc_at boot 0) = TINIT_SVC_STOPPED_STAT" "s_state (svc_at boot 1) = TINIT_SVC_STOPPED_STAT"
    by code_simp+
  then show ?thesis
    using boot_listed boot_ok unfolding fresh_services_def boot_svc by blast
qed

theorem service_loop_witness:
  "\<exists>s0 s1 s'. tinit_loop halt_boot ''all'' halt_daemon = Some (RB_HALT_SYSTEM, s') \<and> tinit_poll halt_poll s0 = Some s1 \<and>
     in_service halt_env s0 \<and> in_service halt_env s1 \<and> svc_is_on (dm_world s0) 0 \<and> ch_signo (dm_chan s1) = SIGUSR1"
proof -
  obtain s' where run: "tinit_loop halt_boot ''all'' halt_daemon = Some (RB_HALT_SYSTEM, s')"
    using halts_loop [OF halt_daemon_halts] by blast
  have w: "dm_world halt_daemon = boot" "dm_mem halt_daemon = demo_mem"
    by (simp_all add: halt_daemon_def)
  have "fst (tinit_target_start sim_ext halt_fs ''/s'' ''/t'' ''all'' 0 (demo_chan\<lparr>ch_fd := 3\<rparr>) boot demo_mem) = 0"
    "target_svcs halt_fs ''/s'' ''/t'' ''all'' boot = [0]"
    by code_simp+
  moreover from this obtain c w1 m1 where
    start: "tinit_target_start sim_ext halt_fs ''/s'' ''/t'' ''all'' 0 (demo_chan\<lparr>ch_fd := 3\<rparr>) boot demo_mem = (0, c, w1, m1)"
    by (metis prod_cases4 fst_conv)
  moreover note halt_no_reloads
  moreover have "signo \<in> {SIGTERM, SIGUSR1, SIGUSR2, SIGPWR} \<Longrightarrow> howto_of_signal signo = Some RB_HALT_SYSTEM \<Longrightarrow> signo = SIGUSR1" for signo
    by (auto simp: howto_of_signal_def RB_HALT_SYSTEM_def split: if_split_asm)
  ultimately show ?thesis
    using service_loop [of halt_boot halt_daemon 3 "''all''" c w1 m1, OF halt_boot_laws _ _ _ _ _ run] run boot_fresh
    by (fastforce simp: w)
qed

section \<open>Its whole run\<close>

lemma init_main_loop:
  assumes "b_pid B = 1" "init_boot B argv s = (Services, 0, s1)" "tinit_loop B (cl_target (mc_cmdln s1)) (mc_daemon s1) = Some (ret, d)"
    and "ret < 0"
  shows "init_main B argv s = Some (tinit_shutdown B RB_AUTOBOOT (clear_services (b_debug B) (s1\<lparr>mc_daemon := d\<rparr>)))"
  using assms by (simp add: init_main_def)

definition halt_args :: "string list" where
  "halt_args = [''init'', ''target=all'']"

lemma halt_mounts: "fst (mnt_mount_all demo_mops c s) = 0"
  by (simp add: mnt_mount_all_def mount_pseudo_def mnt_mount_def mount_devfs_def mount_mqueue_def mnt_chmod_def
      remount_root_def mnt_remount_def demo_mops_def Let_def)

lemma halt_stdios: "fst (init_stdios halt_kops t p) = 0"
  by (simp add: init_stdios_def halt_kops_def demo_kops_def sys_open_stdio_def sys_fstat_def sys_dup2_def S_ISCHR_def Let_def)

lemma halt_parsed:
  "cl_target (tinit_parse_cmdln (demo_lops False) demo_ustr halt_args (demo_cmdln\<lparr>cl_logs := tinit_preinit_logs demo_logs\<rparr>)) = ''all''"
  by code_simp

lemma halt_loaded:
  "case tinit_repo_load tree_cfg files (\<lambda>_. 0) False halt_fs ''/s'' (world_of []) demo_mem of (r, w, m) \<Rightarrow>
     r = 0 \<and> \<not> w_fault w \<and> halts (halt_daemon\<lparr>dm_world := w, dm_mem := m\<rparr>)"
  by code_simp

lemma halt_config_laws: "config_laws halt_boot"
  by (simp add: config_laws_def short_names_def is_cstr_def conf_dir_def halt_fs_def) (simp add: halt_boot_def)

lemma halt_booted:
  "\<exists>s1. init_boot halt_boot halt_args halt_machine = (Services, 0, s1) \<and> cl_target (mc_cmdln s1) = ''all'' \<and> halts (mc_daemon s1) \<and>
     \<not> w_fault (dm_world (mc_daemon s1))"
proof -
  obtain w m where load: "tinit_repo_load tree_cfg files (\<lambda>_. 0) False halt_fs ''/s'' (world_of []) demo_mem = (0, w, m)"
    "\<not> w_fault w" "halts (halt_daemon\<lparr>dm_world := w, dm_mem := m\<rparr>)"
    using halt_loaded by (auto split: prod.split_asm)
  obtain mnt1 where mnt: "mnt_mount_all demo_mops (b_mconf halt_boot) demo_mst = (0, mnt1)"
    using halt_mounts by (metis prod.collapse)
  obtain p1 where io: "init_stdios halt_kops (b_ctermid halt_boot) (mc_proc halt_machine) = (0, p1)"
    using halt_stdios by (metis prod.collapse)
  have B: "b_lops halt_boot = demo_lops False" "b_ustr halt_boot = demo_ustr" "b_chdir halt_boot = 0" "b_mops halt_boot = demo_mops"
    "b_kops halt_boot = halt_kops" "b_clearenv halt_boot = 0" "b_cfg halt_boot = tree_cfg" "b_read halt_boot = files"
    "b_junk halt_boot = (\<lambda>_. 0)"
    by (simp_all add: halt_boot_def)
  have s: "mc_cmdln halt_machine = demo_cmdln" "mc_mnt halt_machine = demo_mst"
    "mc_daemon halt_machine = halt_daemon\<lparr>dm_world := world_of []\<rparr>" "cl_logs demo_cmdln = demo_logs"
    by (simp_all add: halt_machine_def demo_cmdln_def)
  have "dm_mem halt_daemon = demo_mem"
    by (simp add: halt_daemon_def)
  then show ?thesis
    using mnt io load halt_parsed
    by (simp add: init_boot_def B s Let_def init_environ_def)
qed


end
